(* ===== verification/Prelude.thy ===== *)
theory Prelude
  imports Main "HOL-Library.Word"
begin

text \<open>
  Shared vocabulary of the Clawpot development: machine integers and byte strings, the
  error values of the \<^verbatim>\<open>anyhow\<close> crate, and the list, option and word facts that several
  components rely on.

  A Rust \<^verbatim>\<open>String\<close> is modelled by the list of its UTF-8 bytes, written as an Isabelle
  \<open>string\<close> (a \<open>char\<close> is exactly one byte), so \<open>length\<close> is Rust's \<^verbatim>\<open>len()\<close>.
  A \<^verbatim>\<open>Vec<u8>\<close> or a \<^verbatim>\<open>&[u8]\<close> is a list of \<open>8 word\<close>.
\<close>

named_theorems io_simps "unfolding of the state-and-error plumbing"
named_theorems inv_intros "preservation of a component invariant by an operation"

subsection \<open>Machine integers and bytes\<close>

type_synonym u8 = "8 word"
type_synonym u16 = "16 word"
type_synonym u32 = "32 word"
type_synonym u64 = "64 word"
type_synonym i64 = "64 word"
type_synonym u128 = "128 word"
type_synonym bytes = "u8 list"

definition bytes_of :: "string \<Rightarrow> bytes" where
  "bytes_of s = map (\<lambda>c. of_nat (of_char c)) s"

definition string_of :: "bytes \<Rightarrow> string" where
  "string_of bs = map (\<lambda>b. char_of (unat b)) bs"

lemma unat_u8_less [simp]: "unat (b :: u8) < 256"
  using unsigned_less [of b, where ?'a = nat] by simp

lemma unat_u16_less [simp]: "unat (b :: u16) < 65536"
  using unsigned_less [of b, where ?'a = nat] by simp

lemma of_char_less_256 [simp]: "(of_char c :: nat) < 256"
  by simp

lemma string_of_bytes_of [simp]: "string_of (bytes_of s) = s"
proof -
  have "char_of (unat (of_nat (of_char c) :: u8)) = c" for c
    by (simp add: unat_of_nat take_bit_nat_eq_self)
  then show ?thesis
    by (simp add: string_of_def bytes_of_def map_idI)
qed

lemma bytes_of_string_of [simp]: "bytes_of (string_of bs) = bs"
proof -
  have "of_nat (of_char (char_of (unat b))) = b" for b :: u8
  proof -
    have "unat b < 2 ^ 8"
      using unat_u8_less [of b] by simp
    then show ?thesis
      by (simp add: take_bit_nat_eq_self)
  qed
  then show ?thesis
    by (simp add: string_of_def bytes_of_def map_idI)
qed

lemma length_bytes_of [simp]: "length (bytes_of s) = length s"
  by (simp add: bytes_of_def)

lemma length_string_of [simp]: "length (string_of s) = length s"
  by (simp add: string_of_def)

lemma bytes_of_append [simp]: "bytes_of (s @ t) = bytes_of s @ bytes_of t"
  by (simp add: bytes_of_def)

lemma string_of_append [simp]: "string_of (s @ t) = string_of s @ string_of t"
  by (simp add: string_of_def)

text \<open>\<^verbatim>\<open>u16::from_be_bytes\<close> and \<^verbatim>\<open>u16::to_be_bytes\<close>.\<close>

definition u16_from_be_bytes :: "u8 \<Rightarrow> u8 \<Rightarrow> u16" where
  "u16_from_be_bytes a b = push_bit 8 (ucast a) + ucast b"

definition u16_to_be_bytes :: "u16 \<Rightarrow> bytes" where
  "u16_to_be_bytes w = [ucast (drop_bit 8 w), ucast w]"

lemma unat_ucast_u8_u16 [simp]: "unat (ucast (a :: u8) :: u16) = unat a"
proof -
  have "unat a < 2 ^ 16"
    using unat_u8_less [of a] by (rule less_trans) simp
  then show ?thesis
    by (simp add: unsigned_ucast_eq take_bit_nat_eq_self)
qed

lemma unat_u16_from_be_bytes: "unat (u16_from_be_bytes a b) = 256 * unat a + unat b"
proof -
  have a: "unat a < 256" and b: "unat b < 256"
    by simp_all
  have "unat (push_bit 8 (ucast a) :: u16) = 256 * unat a"
    using a by (simp add: push_bit_eq_mult unat_word_ariths)
  moreover have "256 * unat a + unat b < 65536"
    using a b by linarith
  ultimately show ?thesis
    by (simp add: u16_from_be_bytes_def unat_word_ariths)
qed

lemma u16_to_from_be_bytes:
  "u16_to_be_bytes w = [a, b] \<Longrightarrow> u16_from_be_bytes a b = w"
proof -
  assume "u16_to_be_bytes w = [a, b]"
  then have a: "a = ucast (drop_bit 8 w)" and b: "b = ucast w"
    by (auto simp: u16_to_be_bytes_def)
  have "unat (drop_bit 8 w) = unat w div 256"
    by (simp add: drop_bit_eq_div unat_div)
  moreover have "unat w div 256 < 256"
    using unat_u16_less [of w] by (simp add: less_mult_imp_div_less)
  ultimately have "unat a = unat w div 256"
    using a by (simp add: unsigned_ucast_eq take_bit_nat_eq_self)
  moreover have "unat b = unat w mod 256"
    using b by (simp add: unsigned_ucast_eq take_bit_eq_mod)
  ultimately have "unat (u16_from_be_bytes a b) = unat w"
    by (simp add: unat_u16_from_be_bytes)
  then show ?thesis
    by (simp add: word_unat_eq_iff)
qed

subsection \<open>Errors\<close>

text \<open>
  An \<^verbatim>\<open>anyhow::Error\<close>: the message that \<^verbatim>\<open>{e}\<close> displays, followed by the messages of the
  causes it wraps. \<^verbatim>\<open>.context(c)\<close> puts a new message in front.
\<close>

datatype anyhow = Anyhow (err_display: string) (err_causes: "string list")

definition anyhow :: "string \<Rightarrow> anyhow" where
  "anyhow msg = Anyhow msg []"

definition err_context :: "string \<Rightarrow> anyhow \<Rightarrow> anyhow" where
  "err_context c e = Anyhow c (err_display e # err_causes e)"

definition with_context :: "string \<Rightarrow> anyhow + 'a \<Rightarrow> anyhow + 'a" where
  "with_context c r = (case r of Inl e \<Rightarrow> Inl (err_context c e) | Inr x \<Rightarrow> Inr x)"

lemma err_display_anyhow [simp]: "err_display (anyhow m) = m"
  by (simp add: anyhow_def)

lemma err_display_context [simp]: "err_display (err_context c e) = c"
  by (simp add: err_context_def)

lemma with_context_simps [simp]:
  "with_context c (Inl e) = Inl (err_context c e)"
  "with_context c (Inr x) = Inr x"
  by (simp_all add: with_context_def)

lemma with_context_Inr_iff [simp]: "with_context c r = Inr x \<longleftrightarrow> r = Inr x"
  by (cases r) simp_all

text \<open>\<^verbatim>\<open>Result::is_ok\<close>, \<^verbatim>\<open>Result::ok\<close>, \<^verbatim>\<open>Option::unwrap_or\<close>.\<close>

definition is_ok :: "'e + 'a \<Rightarrow> bool" where
  "is_ok r = (case r of Inl _ \<Rightarrow> False | Inr _ \<Rightarrow> True)"

definition result_ok :: "'e + 'a \<Rightarrow> 'a option" where
  "result_ok r = (case r of Inl _ \<Rightarrow> None | Inr x \<Rightarrow> Some x)"

definition unwrap_or :: "'a \<Rightarrow> 'a option \<Rightarrow> 'a" where
  "unwrap_or d v = (case v of None \<Rightarrow> d | Some x \<Rightarrow> x)"

lemma is_ok_simps [simp]: "is_ok (Inr x)" "\<not> is_ok (Inl e)"
  by (simp_all add: is_ok_def)

lemma result_ok_simps [simp]: "result_ok (Inr x) = Some x" "result_ok (Inl e) = None"
  by (simp_all add: result_ok_def)

lemma unwrap_or_simps [simp]: "unwrap_or d None = d" "unwrap_or d (Some x) = x"
  by (simp_all add: unwrap_or_def)

subsection \<open>Panics\<close>

text \<open>
  Code that can panic returns \<open>Panic\<close> for the panic and \<open>Ret\<close> for a normal return.
  \<open>index\<close> is Rust's checked slice indexing and \<open>slice\<close> its checked range indexing.
\<close>

datatype 'a outcome = Panic | Ret 'a

definition bind_outcome :: "'a outcome \<Rightarrow> ('a \<Rightarrow> 'b outcome) \<Rightarrow> 'b outcome" where
  "bind_outcome m f = (case m of Panic \<Rightarrow> Panic | Ret x \<Rightarrow> f x)"

definition index :: "'a list \<Rightarrow> nat \<Rightarrow> 'a outcome" where
  "index xs i = (if i < length xs then Ret (xs ! i) else Panic)"

definition slice :: "'a list \<Rightarrow> nat \<Rightarrow> nat \<Rightarrow> 'a list outcome" where
  "slice xs i j = (if i \<le> j \<and> j \<le> length xs then Ret (take (j - i) (drop i xs)) else Panic)"

lemma bind_outcome_simps [simp]:
  "bind_outcome Panic f = Panic" "bind_outcome (Ret x) f = f x"
  by (simp_all add: bind_outcome_def)

lemma index_in [simp]: "i < length xs \<Longrightarrow> index xs i = Ret (xs ! i)"
  by (simp add: index_def)

lemma index_out [simp]: "length xs \<le> i \<Longrightarrow> index xs i = Panic"
  by (simp add: index_def)

lemma slice_in [simp]:
  "i \<le> j \<Longrightarrow> j \<le> length xs \<Longrightarrow> slice xs i j = Ret (take (j - i) (drop i xs))"
  by (simp add: slice_def)

lemma bind_outcome_cong [fundef_cong]:
  "m = n \<Longrightarrow> (\<And>x. n = Ret x \<Longrightarrow> f x = g x) \<Longrightarrow> bind_outcome m f = bind_outcome n g"
  by (cases n) simp_all

lemma bind_outcome_Ret_iff [simp]:
  "bind_outcome m f = Ret y \<longleftrightarrow> (\<exists>x. m = Ret x \<and> f x = Ret y)"
  by (cases m) simp_all

lemma index_append [simp]: "index (xs @ y # ys) (length xs) = Ret y"
  by simp

lemma slice_append [simp]:
  "slice (xs @ ys @ zs) (length xs) (length xs + length ys) = Ret ys"
  by simp

subsection \<open>Lists\<close>

lemma find_upt_first:
  "find P [a..<b] = Some i \<longleftrightarrow> a \<le> i \<and> i < b \<and> P i \<and> (\<forall>j. a \<le> j \<and> j < i \<longrightarrow> \<not> P j)"
proof (induction "b - a" arbitrary: a)
  case 0
  then show ?case by auto
next
  case (Suc n)
  then have ab: "a < b" and n: "n = b - Suc a"
    by auto
  show ?case
  proof (cases "P a")
    case True
    then show ?thesis
      using ab by (auto simp: upt_conv_Cons)
  next
    case False
    then have "find P [a..<b] = find P [Suc a..<b]"
      using ab by (simp add: upt_conv_Cons)
    also have "\<dots> = Some i \<longleftrightarrow>
        Suc a \<le> i \<and> i < b \<and> P i \<and> (\<forall>j. Suc a \<le> j \<and> j < i \<longrightarrow> \<not> P j)"
      using Suc.hyps(1) [OF n] .
    also have "\<dots> \<longleftrightarrow> a \<le> i \<and> i < b \<and> P i \<and> (\<forall>j. a \<le> j \<and> j < i \<longrightarrow> \<not> P j)"
      using False by (metis Suc_leD Suc_leI le_neq_implies_less)
    finally show ?thesis .
  qed
qed

lemma find_upt_none: "find P [a..<b] = None \<longleftrightarrow> (\<forall>i. a \<le> i \<and> i < b \<longrightarrow> \<not> P i)"
  by (auto simp: find_None_iff)

end
