(* ===== verification/RustText.thy ===== *)
theory RustText
  imports Prelude "HOL-Library.Sublist"
begin

text \<open>
  The parts of \<^verbatim>\<open>str\<close> and of \<^verbatim>\<open>Display\<close> that the sources use: decimal and hexadecimal
  printing, splitting, trimming, lines, prefixes, joining. All of them work on the UTF-8
  bytes of the text, as the standard library does.
\<close>

subsection \<open>Printing numbers\<close>

definition digit_char :: "nat \<Rightarrow> char" where
  "digit_char d = (if d < 10 then char_of (48 + d) else char_of (87 + d))"

text \<open>\<^verbatim>\<open>{}\<close> (radix 10) and \<^verbatim>\<open>{:x}\<close> (radix 16) of an unsigned integer.\<close>

fun show_radix :: "nat \<Rightarrow> nat \<Rightarrow> string" where
  "show_radix r n =
     (if r < 2 \<or> n < r then [digit_char n] else show_radix r (n div r) @ [digit_char (n mod r)])"

declare show_radix.simps [simp del]

abbreviation show_nat :: "nat \<Rightarrow> string" where
  "show_nat n \<equiv> show_radix 10 n"

abbreviation show_hex :: "nat \<Rightarrow> string" where
  "show_hex n \<equiv> show_radix 16 n"

definition show_int :: "int \<Rightarrow> string" where
  "show_int i = (if i < 0 then CHR ''-'' # show_nat (nat (- i)) else show_nat (nat i))"

definition show_bool :: "bool \<Rightarrow> string" where
  "show_bool b = (if b then ''true'' else ''false'')"

text \<open>\<^verbatim>\<open>char::to_digit(radix)\<close> on an ASCII byte.\<close>

definition to_digit :: "nat \<Rightarrow> char \<Rightarrow> nat option" where
  "to_digit r c =
     (let n = of_char c :: nat;
          d = (if 48 \<le> n \<and> n \<le> 57 then Some (n - 48)
               else if 97 \<le> n \<and> n \<le> 122 then Some (n - 87)
               else if 65 \<le> n \<and> n \<le> 90 then Some (n - 55)
               else None)
      in case d of None \<Rightarrow> None | Some v \<Rightarrow> if v < r then Some v else None)"

lemma of_char_digit_char:
  "d < 16 \<Longrightarrow> (of_char (digit_char d) :: nat) = (if d < 10 then 48 + d else 87 + d)"
  by (simp add: digit_char_def)

lemma to_digit_digit_char [simp]: "d < r \<Longrightarrow> r \<le> 16 \<Longrightarrow> to_digit r (digit_char d) = Some d"
  by (simp add: to_digit_def Let_def of_char_digit_char)

lemma show_radix_small [simp]: "n < r \<Longrightarrow> show_radix r n = [digit_char n]"
  by (subst show_radix.simps) simp

lemma show_radix_step:
  "2 \<le> r \<Longrightarrow> r \<le> n \<Longrightarrow> show_radix r n = show_radix r (n div r) @ [digit_char (n mod r)]"
  by (subst show_radix.simps) simp

lemma digit_char_decimal [simp]:
  "digit_char 0 = CHR ''0''" "digit_char (Suc 0) = CHR ''1''" "digit_char 1 = CHR ''1''"
  "digit_char 2 = CHR ''2''" "digit_char 3 = CHR ''3''" "digit_char 4 = CHR ''4''"
  "digit_char 5 = CHR ''5''" "digit_char 6 = CHR ''6''" "digit_char 7 = CHR ''7''"
  "digit_char 8 = CHR ''8''" "digit_char 9 = CHR ''9''"
  by code_simp+

lemma show_radix_nonempty [simp]: "show_radix r n \<noteq> []"
  by (subst show_radix.simps) simp

lemma show_radix_digits:
  assumes "2 \<le> r"
  shows "set (show_radix r n) \<subseteq> digit_char ` {..<r}"
  using assms
proof (induction r n rule: show_radix.induct)
  case (1 r n)
  then show ?case
    by (cases "n < r") (auto simp: show_radix_step)
qed

text \<open>Every printed number is read back by its digits, without a leading zero.\<close>

definition digits_value :: "nat \<Rightarrow> string \<Rightarrow> nat" where
  "digits_value r s = foldl (\<lambda>v c. v * r + the (to_digit r c)) 0 s"

lemma digits_value_show:
  assumes "2 \<le> r" "r \<le> 16"
  shows "digits_value r (show_radix r n) = n"
  using assms
proof (induction r n rule: show_radix.induct)
  case (1 r n)
  then show ?case
    by (cases "n < r") (auto simp: show_radix_step digits_value_def)
qed

lemma show_radix_leading:
  assumes "2 \<le> r" "r \<le> 16" "r \<le> n"
  shows "hd (show_radix r n) \<noteq> CHR ''0''"
  using assms
proof (induction r n rule: show_radix.induct)
  case (1 r n)
  have pos: "0 < n div r"
    using "1.prems" by (simp add: div_greater_zero_iff)
  show ?case
  proof (cases "n div r < r")
    case True
    have "hd (show_radix r n) = digit_char (n div r)"
      using "1.prems" True by (simp add: show_radix_step)
    moreover have "to_digit r (digit_char (n div r)) = Some (n div r)"
      using True "1.prems" by simp
    moreover have "to_digit r CHR ''0'' = Some 0"
      using "1.prems" by (simp add: to_digit_def)
    ultimately show ?thesis
      using pos by auto
  next
    case False
    then have "hd (show_radix r (n div r)) \<noteq> CHR ''0''"
      using "1.IH" "1.prems" by simp
    then show ?thesis
      using "1.prems" by (simp add: show_radix_step)
  qed
qed

lemma length_show_radix_le:
  assumes "2 \<le> r" "n < r ^ Suc k"
  shows "length (show_radix r n) \<le> Suc k"
  using assms
proof (induction k arbitrary: n)
  case 0
  then show ?case by simp
next
  case (Suc k)
  show ?case
  proof (cases "n < r")
    case True
    then show ?thesis by simp
  next
    case False
    have "n div r < r ^ Suc k"
      using Suc.prems by (simp add: less_mult_imp_div_less mult.commute)
    then show ?thesis
      using Suc.IH [of "n div r"] Suc.prems False by (simp add: show_radix_step)
  qed
qed

subsection \<open>Splitting, joining, prefixes\<close>

definition starts_with :: "string \<Rightarrow> string \<Rightarrow> bool" where
  "starts_with p s \<longleftrightarrow> take (length p) s = p"

definition strip_prefix :: "string \<Rightarrow> string \<Rightarrow> string option" where
  "strip_prefix p s = (if starts_with p s then Some (drop (length p) s) else None)"

lemma starts_with_append [simp]: "starts_with p (p @ s)"
  by (simp add: starts_with_def)

lemma starts_with_iff: "starts_with p s \<longleftrightarrow> (\<exists>r. s = p @ r)"
  by (metis append_eq_conv_conj append_take_drop_id starts_with_def)

text \<open>\<^verbatim>\<open>str::contains(&str)\<close>.\<close>

fun contains_str :: "string \<Rightarrow> string \<Rightarrow> bool" where
  "contains_str p [] \<longleftrightarrow> p = []"
| "contains_str p (c # s) \<longleftrightarrow> starts_with p (c # s) \<or> contains_str p s"

text \<open>\<^verbatim>\<open>str::split(char)\<close>: the pieces between separators, one more than the separators.\<close>

fun split_char :: "char \<Rightarrow> string \<Rightarrow> string list" where
  "split_char sep [] = [[]]"
| "split_char sep (c # s) =
     (if c = sep then [] # split_char sep s
      else case split_char sep s of
             [] \<Rightarrow> [[c]]
           | p # ps \<Rightarrow> (c # p) # ps)"

text \<open>\<^verbatim>\<open>str::split(&str)\<close> with a separator of two equal bytes or any other non-empty text:
  leftmost, non-overlapping.\<close>

function split_str :: "string \<Rightarrow> string \<Rightarrow> string list" where
  "split_str sep s =
     (if s = [] then [[]]
      else if sep \<noteq> [] \<and> starts_with sep s then [] # split_str sep (drop (length sep) s)
      else case split_str sep (tl s) of
             [] \<Rightarrow> [[hd s]]
           | p # ps \<Rightarrow> (hd s # p) # ps)"
  by pat_completeness auto
termination
  by (relation "measure (\<lambda>(sep, s). length s)") auto

declare split_str.simps [simp del]

text \<open>\<^verbatim>\<open>[&str]::join\<close>.\<close>

fun join :: "string \<Rightarrow> string list \<Rightarrow> string" where
  "join sep [] = []"
| "join sep [x] = x"
| "join sep (x # y # ys) = x @ sep @ join sep (y # ys)"

lemma split_char_not_Nil [simp]: "split_char sep s \<noteq> []"
  by (induction s) (auto split: list.splits)

lemma split_char_hd: "hd (split_char sep s) = takeWhile (\<lambda>c. c \<noteq> sep) s"
  by (induction s) (auto split: list.splits)

lemma join_split_char: "join [sep] (split_char sep s) = s"
proof (induction s)
  case (Cons c s)
  obtain p ps where "split_char sep s = p # ps"
    by (cases "split_char sep s") auto
  with Cons show ?case
    by (cases ps) auto
qed simp

text \<open>\<^verbatim>\<open>str::lines\<close>: split at line feeds, one carriage return before the line feed dropped,
  no line for an empty rest after the last line feed, a last unterminated line kept as is.\<close>

definition chomp_cr :: "string \<Rightarrow> string" where
  "chomp_cr l = (if l \<noteq> [] \<and> last l = CHR 0x0D then butlast l else l)"

definition text_lines :: "string \<Rightarrow> string list" where
  "text_lines s =
     (let ps = split_char CHR 0x0A s
      in map chomp_cr (butlast ps) @ (if last ps = [] then [] else [last ps]))"

subsection \<open>White space\<close>

text \<open>
  The number of bytes of the Unicode \<^verbatim>\<open>White_Space\<close> character at the front of the text, 0
  when the text does not start with one. On valid UTF-8 no such sequence can match in the
  middle of a character, so scanning byte by byte finds exactly the white space.
\<close>

fun ws_len_bytes :: "nat list \<Rightarrow> nat" where
  "ws_len_bytes [] = 0"
| "ws_len_bytes (a # bs) =
     (if (9 \<le> a \<and> a \<le> 13) \<or> a = 32 then 1
      else case bs of
        b # cs \<Rightarrow>
          if a = 0xC2 \<and> (b = 0x85 \<or> b = 0xA0) then 2
          else (case cs of
            c # _ \<Rightarrow>
              if (a = 0xE1 \<and> b = 0x9A \<and> c = 0x80)
                \<or> (a = 0xE2 \<and> b = 0x80 \<and>
                    ((0x80 \<le> c \<and> c \<le> 0x8A) \<or> c = 0xA8 \<or> c = 0xA9 \<or> c = 0xAF))
                \<or> (a = 0xE2 \<and> b = 0x81 \<and> c = 0x9F)
                \<or> (a = 0xE3 \<and> b = 0x80 \<and> c = 0x80)
              then 3 else 0
          | [] \<Rightarrow> 0)
      | [] \<Rightarrow> 0)"

definition ws_len :: "string \<Rightarrow> nat" where
  "ws_len s = ws_len_bytes (map of_char (take 3 s))"

function trim_start :: "string \<Rightarrow> string" where
  "trim_start s = (if s \<noteq> [] \<and> 0 < ws_len s then trim_start (drop (ws_len s) s) else s)"
  by pat_completeness auto
termination
  by (relation "measure length") auto

function all_ws :: "string \<Rightarrow> bool" where
  "all_ws s = (if s = [] then True else if 0 < ws_len s then all_ws (drop (ws_len s) s) else False)"
  by pat_completeness auto
termination
  by (relation "measure length") auto

declare trim_start.simps [simp del] all_ws.simps [simp del]

fun trim_end :: "string \<Rightarrow> string" where
  "trim_end [] = []"
| "trim_end (c # s) = (if all_ws (c # s) then [] else c # trim_end s)"

definition trim :: "string \<Rightarrow> string" where
  "trim s = trim_end (trim_start s)"

text \<open>\<^verbatim>\<open>str::split_whitespace\<close>: the maximal runs without white space.\<close>

function split_ws :: "string \<Rightarrow> string \<Rightarrow> string list" where
  "split_ws acc s =
     (if s = [] then (if acc = [] then [] else [rev acc])
      else if 0 < ws_len s then
        (if acc = [] then [] else [rev acc]) @ split_ws [] (drop (ws_len s) s)
      else split_ws (hd s # acc) (tl s))"
  by pat_completeness auto
termination
  by (relation "measure (\<lambda>(acc, s). length s)") auto

declare split_ws.simps [simp del]

definition split_whitespace :: "string \<Rightarrow> string list" where
  "split_whitespace s = split_ws [] s"

text \<open>Printable ASCII bytes (a token of digits, letters and punctuation).\<close>

definition graphic :: "char \<Rightarrow> bool" where
  "graphic c \<longleftrightarrow> 33 \<le> (of_char c :: nat) \<and> (of_char c :: nat) \<le> 126"

lemma ws_len_graphic [simp]: "graphic c \<Longrightarrow> ws_len (c # s) = 0"
  by (cases s; cases "tl s") (auto simp: ws_len_def graphic_def take_Cons')

lemma ws_len_space [simp]: "ws_len (CHR '' '' # s) = 1"
  by (simp add: ws_len_def)

lemma ws_len_cr [simp]: "ws_len (CHR 0x0D # s) = 1"
  by (simp add: ws_len_def)

lemma ws_len_lf [simp]: "ws_len (CHR 0x0A # s) = 1"
  by (simp add: ws_len_def)

lemma split_ws_token:
  assumes "\<forall>c \<in> set t. graphic c"
  shows "split_ws acc (t @ s) = split_ws (rev t @ acc) s"
  using assms
proof (induction t arbitrary: acc)
  case (Cons c t)
  have "split_ws acc ((c # t) @ s) = split_ws (c # acc) (t @ s)"
    using Cons.prems by (simp add: split_ws.simps [of acc "c # t @ s"])
  also have "\<dots> = split_ws (rev t @ c # acc) s"
    using Cons by simp
  finally show ?case by simp
qed simp

lemma split_ws_space:
  "split_ws acc (CHR '' '' # s) = (if acc = [] then [] else [rev acc]) @ split_ws [] s"
  by (simp add: split_ws.simps [of acc])

lemma split_ws_crlf:
  "split_ws acc [CHR 0x0D, CHR 0x0A] = (if acc = [] then [] else [rev acc])"
  by (simp add: split_ws.simps)

lemma graphic_digit_char: "d < 16 \<Longrightarrow> graphic (digit_char d)"
  by (simp add: graphic_def of_char_digit_char)

lemma graphic_show_radix: "2 \<le> r \<Longrightarrow> r \<le> 16 \<Longrightarrow> c \<in> set (show_radix r n) \<Longrightarrow> graphic c"
  using show_radix_digits [of r n] graphic_digit_char by fastforce

subsection \<open>ASCII case\<close>

definition ascii_lower :: "char \<Rightarrow> char" where
  "ascii_lower c = (if 65 \<le> (of_char c :: nat) \<and> (of_char c :: nat) \<le> 90
                    then char_of ((of_char c :: nat) + 32) else c)"

definition to_ascii_lowercase :: "string \<Rightarrow> string" where
  "to_ascii_lowercase s = map ascii_lower s"

definition eq_ignore_ascii_case :: "string \<Rightarrow> string \<Rightarrow> bool" where
  "eq_ignore_ascii_case s t \<longleftrightarrow> to_ascii_lowercase s = to_ascii_lowercase t"

lemma ascii_lower_idem [simp]: "ascii_lower (ascii_lower c) = ascii_lower c"
  by (simp add: ascii_lower_def)

lemma to_ascii_lowercase_idem [simp]:
  "to_ascii_lowercase (to_ascii_lowercase s) = to_ascii_lowercase s"
  by (simp add: to_ascii_lowercase_def)

end
