(* ===== verification/Interaction.thy ===== *)
theory Interaction
  imports RustText
begin

text \<open>
  How the development models effects on the world outside the program: the kernel, external
  processes, sockets, the network and third-party services.

  A component names its external calls by a datatype \<open>'c\<close> and their replies by a datatype
  \<open>'r\<close>. The world is an arbitrary function, a \<open>host\<close>, that answers each call from the
  history of calls and replies so far; theorems quantify over every host, so they hold
  whatever the outside does, failures included. An effectful operation threads the history.
\<close>

type_synonym ('c, 'r) history = "('c \<times> 'r) list"
type_synonym ('c, 'r) host = "('c, 'r) history \<Rightarrow> 'c \<Rightarrow> 'r"
type_synonym ('h, 'a) io = "'h \<Rightarrow> 'a \<times> 'h"

definition ask :: "('c, 'r) host \<Rightarrow> 'c \<Rightarrow> (('c, 'r) history, 'r) io" where
  "ask host c = (\<lambda>h. (host h c, h @ [(c, host h c)]))"

definition ret_io :: "'a \<Rightarrow> ('h, 'a) io" where
  "ret_io x = (\<lambda>h. (x, h))"

definition bind_io :: "('h, 'a) io \<Rightarrow> ('a \<Rightarrow> ('h, 'b) io) \<Rightarrow> ('h, 'b) io" where
  "bind_io m f = (\<lambda>h. case m h of (x, h') \<Rightarrow> f x h')"

definition map_io :: "('a \<Rightarrow> 'b) \<Rightarrow> ('h, 'a) io \<Rightarrow> ('h, 'b) io" where
  "map_io f m = (\<lambda>h. case m h of (x, h') \<Rightarrow> (f x, h'))"

text \<open>The \<^verbatim>\<open>?\<close> operator: stop at the first error.\<close>

definition bindE :: "('h, 'e + 'a) io \<Rightarrow> ('a \<Rightarrow> ('h, 'e + 'b) io) \<Rightarrow> ('h, 'e + 'b) io" where
  "bindE m f = bind_io m (\<lambda>r. case r of Inl e \<Rightarrow> ret_io (Inl e) | Inr x \<Rightarrow> f x)"

text \<open>\<^verbatim>\<open>.context(..)\<close> on the result of an operation.\<close>

definition ctx_io :: "string \<Rightarrow> ('h, anyhow + 'a) io \<Rightarrow> ('h, anyhow + 'a) io" where
  "ctx_io c m = map_io (with_context c) m"

lemma ask_apply [io_simps]: "ask host c h = (host h c, h @ [(c, host h c)])"
  by (simp add: ask_def)

lemma ret_io_apply [io_simps]: "ret_io x h = (x, h)"
  by (simp add: ret_io_def)

lemma bind_io_apply [io_simps]: "bind_io m f h = (case m h of (x, h') \<Rightarrow> f x h')"
  by (simp add: bind_io_def)

lemma map_io_apply [io_simps]: "map_io f m h = (case m h of (x, h') \<Rightarrow> (f x, h'))"
  by (simp add: map_io_def)

lemma bindE_apply [io_simps]:
  "bindE m f h = (case m h of (Inl e, h') \<Rightarrow> (Inl e, h') | (Inr x, h') \<Rightarrow> f x h')"
  by (auto simp: bindE_def bind_io_def ret_io_def split: prod.splits sum.splits)

lemma ctx_io_apply [io_simps]: "ctx_io c m h = (case m h of (r, h') \<Rightarrow> (with_context c r, h'))"
  by (simp add: ctx_io_def map_io_def)

subsection \<open>What an operation adds to the history\<close>

text \<open>
  \<open>traces m P\<close>: from every history \<open>h\<close> the operation only appends, and the appended calls
  \<open>k\<close> together with its result satisfy \<open>P\<close>.
\<close>

definition traces :: "(('c, 'r) history, 'a) io \<Rightarrow> ('a \<Rightarrow> ('c, 'r) history \<Rightarrow> bool) \<Rightarrow> bool" where
  "traces m P \<longleftrightarrow> (\<forall>h. \<exists>k. snd (m h) = h @ k \<and> P (fst (m h)) k)"

named_theorems trace_intros "trace rules for the effectful operations"

lemma tracesD:
  assumes "traces m P" and "m h = (x, h')"
  obtains k where "h' = h @ k" "P x k"
  using assms unfolding traces_def by (metis fst_conv snd_conv)

lemma traces_weaken: "traces m P \<Longrightarrow> (\<And>x k. P x k \<Longrightarrow> Q x k) \<Longrightarrow> traces m Q"
  unfolding traces_def by blast

lemma traces_ask: "(\<And>r. P r [(c, r)]) \<Longrightarrow> traces (ask host c) P"
  by (auto simp: traces_def ask_def)

lemma traces_ret: "P x [] \<Longrightarrow> traces (ret_io x) P"
  by (auto simp: traces_def ret_io_def)

lemma traces_map: "traces m (\<lambda>x k. P (f x) k) \<Longrightarrow> traces (map_io f m) P"
  by (simp add: traces_def map_io_def case_prod_beta)

lemma traces_bind:
  assumes "traces m P" and "\<And>x k. P x k \<Longrightarrow> traces (f x) (\<lambda>y k'. Q y (k @ k'))"
  shows "traces (bind_io m f) Q"
  unfolding traces_def
proof
  fix h
  obtain x h1 where m: "m h = (x, h1)"
    by (cases "m h")
  then obtain k where k: "h1 = h @ k" "P x k"
    using tracesD [OF assms(1)] by blast
  obtain y h2 where f: "f x h1 = (y, h2)"
    by (cases "f x h1")
  then obtain k' where "h2 = h1 @ k'" "Q y (k @ k')"
    using tracesD [OF assms(2) [OF k(2)]] by blast
  then show "\<exists>k. snd (bind_io m f h) = h @ k \<and> Q (fst (bind_io m f h)) k"
    using m f k by (auto simp: bind_io_def)
qed

lemma traces_bindE:
  assumes "traces m P"
    and "\<And>e k. P (Inl e) k \<Longrightarrow> Q (Inl e) k"
    and "\<And>x k. P (Inr x) k \<Longrightarrow> traces (f x) (\<lambda>y k'. Q y (k @ k'))"
  shows "traces (bindE m f) Q"
  unfolding bindE_def
proof (rule traces_bind [OF assms(1)])
  fix r k
  assume "P r k"
  then show "traces (case r of Inl e \<Rightarrow> ret_io (Inl e) | Inr x \<Rightarrow> f x) (\<lambda>y k'. Q y (k @ k'))"
    using assms(2,3) by (cases r) (auto intro: traces_ret)
qed

lemma traces_ctx: "traces m (\<lambda>x k. P (with_context c x) k) \<Longrightarrow> traces (ctx_io c m) P"
  by (simp add: ctx_io_def traces_map)

lemma traces_map_ask: "(\<And>r. P (f r) [(c, r)]) \<Longrightarrow> traces (map_io f (ask host c)) P"
  by (intro traces_map traces_ask)

text \<open>\<open>only m S\<close>: every call the operation makes is in \<open>S\<close>.\<close>

definition only :: "(('c, 'r) history, 'a) io \<Rightarrow> 'c set \<Rightarrow> bool" where
  "only m S \<longleftrightarrow> traces m (\<lambda>_ k. fst ` set k \<subseteq> S)"

named_theorems only_intros "which calls an operation makes"

lemma only_ask [only_intros]: "c \<in> S \<Longrightarrow> only (ask host c) S"
  by (auto simp: only_def intro: traces_ask)

lemma only_ret [only_intros]: "only (ret_io x) S"
  by (auto simp: only_def intro: traces_ret)

lemma only_map [only_intros]: "only m S \<Longrightarrow> only (map_io f m) S"
  by (auto simp: only_def intro: traces_map)

lemma only_ctx [only_intros]: "only m S \<Longrightarrow> only (ctx_io c m) S"
  by (auto simp: only_def intro: traces_ctx)

lemma only_mono: "only m S \<Longrightarrow> S \<subseteq> T \<Longrightarrow> only m T"
  unfolding only_def by (erule traces_weaken) (rule subset_trans)

lemma only_append:
  "only m S \<Longrightarrow> fst ` set k \<subseteq> S \<Longrightarrow> traces m (\<lambda>_ k'. fst ` set (k @ k') \<subseteq> S)"
  unfolding only_def by (rule traces_weaken) (auto simp: image_Un)

lemma only_bind [only_intros]: "only m S \<Longrightarrow> (\<And>x. only (f x) S) \<Longrightarrow> only (bind_io m f) S"
  unfolding only_def [of "bind_io m f"]
  by (rule traces_bind [where P = "\<lambda>_ k. fst ` set k \<subseteq> S"])
    (simp_all only: only_append only_def [symmetric])

lemma only_bindE [only_intros]: "only m S \<Longrightarrow> (\<And>x. only (f x) S) \<Longrightarrow> only (bindE m f) S"
  unfolding only_def [of "bindE m f"]
  by (rule traces_bindE [where P = "\<lambda>_ k. fst ` set k \<subseteq> S"])
    (simp_all only: only_append only_def [symmetric])

lemma only_if [only_intros]: "(b \<Longrightarrow> only m S) \<Longrightarrow> (\<not> b \<Longrightarrow> only n S) \<Longrightarrow> only (if b then m else n) S"
  by simp

lemma only_option [only_intros]:
  "(v = None \<Longrightarrow> only m S) \<Longrightarrow> (\<And>x. v = Some x \<Longrightarrow> only (f x) S) \<Longrightarrow>
   only (case v of None \<Rightarrow> m | Some x \<Rightarrow> f x) S"
  by (simp split: option.splits)

lemma only_sum [only_intros]:
  "(\<And>e. r = Inl e \<Longrightarrow> only (f e) S) \<Longrightarrow> (\<And>x. r = Inr x \<Longrightarrow> only (g x) S) \<Longrightarrow>
   only (case r of Inl e \<Rightarrow> f e | Inr x \<Rightarrow> g x) S"
  by (simp split: sum.splits)

lemma only_prod [only_intros]:
  "(\<And>x y. p = (x, y) \<Longrightarrow> only (f x y) S) \<Longrightarrow> only (case p of (x, y) \<Rightarrow> f x y) S"
  by (simp split: prod.splits)

lemma onlyD:
  assumes "only m S" and "m h = (x, h')"
  obtains k where "h' = h @ k" "fst ` set k \<subseteq> S"
  using tracesD [OF assms(1) [unfolded only_def] assms(2)] by metis

subsection \<open>Operations that also update program state\<close>

text \<open>
  A method on \<^verbatim>\<open>&mut self\<close> that also calls the outside threads a pair of its own state and
  the history. \<open>lift_io\<close> runs a stateless operation inside it; \<open>straces\<close> is the trace
  predicate with the state before and after.
\<close>

definition lift_io :: "('h, 'a) io \<Rightarrow> ('s \<times> 'h, 'a) io" where
  "lift_io m = (\<lambda>(s, h). case m h of (x, h') \<Rightarrow> (x, (s, h')))"

definition gets_io :: "('s \<Rightarrow> 'a) \<Rightarrow> ('s \<times> 'h, 'a) io" where
  "gets_io f = (\<lambda>(s, h). (f s, (s, h)))"

definition modify_io :: "('s \<Rightarrow> 's) \<Rightarrow> ('s \<times> 'h, unit) io" where
  "modify_io f = (\<lambda>(s, h). ((), (f s, h)))"

lemma lift_io_apply [io_simps]: "lift_io m (s, h) = (case m h of (x, h') \<Rightarrow> (x, (s, h')))"
  by (simp add: lift_io_def)

lemma gets_io_apply [io_simps]: "gets_io f (s, h) = (f s, (s, h))"
  by (simp add: gets_io_def)

lemma modify_io_apply [io_simps]: "modify_io f (s, h) = ((), (f s, h))"
  by (simp add: modify_io_def)

definition straces ::
  "('s \<times> ('c, 'r) history, 'a) io \<Rightarrow> 's \<Rightarrow> ('a \<Rightarrow> 's \<Rightarrow> ('c, 'r) history \<Rightarrow> bool) \<Rightarrow> bool" where
  "straces m s P \<longleftrightarrow> (\<forall>h. \<exists>x s' k. m (s, h) = (x, (s', h @ k)) \<and> P x s' k)"

lemma stracesI:
  assumes "\<And>h. \<exists>k. snd (snd (m (s, h))) = h @ k \<and> P (fst (m (s, h))) (fst (snd (m (s, h)))) k"
  shows "straces m s P"
  unfolding straces_def
proof
  fix h
  show "\<exists>x s' k. m (s, h) = (x, (s', h @ k)) \<and> P x s' k"
    using assms [of h] by (metis prod.collapse)
qed

lemma stracesD:
  assumes "straces m s P" and "m (s, h) = (x, (s', h'))"
  obtains k where "h' = h @ k" "P x s' k"
proof -
  obtain y t k where "m (s, h) = (y, (t, h @ k))" "P y t k"
    using assms(1) unfolding straces_def by blast
  with assms(2) show thesis
    by (intro that [of k]) simp_all
qed

lemma straces_weaken:
  "straces m s P \<Longrightarrow> (\<And>x s' k. P x s' k \<Longrightarrow> Q x s' k) \<Longrightarrow> straces m s Q"
  unfolding straces_def by blast

lemma straces_ret: "P x s [] \<Longrightarrow> straces (ret_io x) s P"
  by (auto simp: straces_def ret_io_def)

lemma straces_lift:
  assumes "traces m Q" and "\<And>x k. Q x k \<Longrightarrow> P x s k"
  shows "straces (lift_io m) s P"
  unfolding straces_def
proof
  fix h
  obtain x h' where m: "m h = (x, h')"
    by (cases "m h")
  then obtain k where "h' = h @ k" "Q x k"
    using tracesD [OF assms(1)] by blast
  then show "\<exists>x s' k. lift_io m (s, h) = (x, (s', h @ k)) \<and> P x s' k"
    using m assms(2) by (auto simp: lift_io_def)
qed

lemma straces_gets: "P (f s) s [] \<Longrightarrow> straces (gets_io f) s P"
  by (auto simp: straces_def gets_io_def)

lemma straces_modify: "P () (f s) [] \<Longrightarrow> straces (modify_io f) s P"
  by (auto simp: straces_def modify_io_def)

lemma straces_map: "straces m s (\<lambda>x s' k. P (f x) s' k) \<Longrightarrow> straces (map_io f m) s P"
  unfolding straces_def map_io_def by (metis (mono_tags, lifting) case_prod_conv)

lemma straces_ctx: "straces m s (\<lambda>x s' k. P (with_context c x) s' k) \<Longrightarrow> straces (ctx_io c m) s P"
  by (simp add: ctx_io_def straces_map)

lemma straces_bind:
  assumes "straces m s P" and "\<And>x s' k. P x s' k \<Longrightarrow> straces (f x) s' (\<lambda>y s'' k'. Q y s'' (k @ k'))"
  shows "straces (bind_io m f) s Q"
  unfolding straces_def
proof
  fix h
  obtain x s' k where m: "m (s, h) = (x, (s', h @ k))" "P x s' k"
    using assms(1) unfolding straces_def by blast
  obtain y s'' k' where "f x (s', h @ k) = (y, (s'', (h @ k) @ k'))" "Q y s'' (k @ k')"
    using assms(2) [OF m(2)] unfolding straces_def by blast
  then show "\<exists>x s' k. bind_io m f (s, h) = (x, (s', h @ k)) \<and> Q x s' k"
    using m(1) by (auto simp: bind_io_def)
qed

lemma straces_bindE:
  assumes "straces m s P"
    and "\<And>e s' k. P (Inl e) s' k \<Longrightarrow> Q (Inl e) s' k"
    and "\<And>x s' k. P (Inr x) s' k \<Longrightarrow> straces (f x) s' (\<lambda>y s'' k'. Q y s'' (k @ k'))"
  shows "straces (bindE m f) s Q"
  unfolding bindE_def
proof (rule straces_bind [OF assms(1)])
  fix r s' k
  assume "P r s' k"
  then show "straces (case r of Inl e \<Rightarrow> ret_io (Inl e) | Inr x \<Rightarrow> f x) s'
      (\<lambda>y s'' k'. Q y s'' (k @ k'))"
    using assms(2,3) by (cases r) (auto intro: straces_ret)
qed

text \<open>The two trace predicates read at one history.\<close>

lemma traces_case: "traces m P \<Longrightarrow> case m h of (x, h') \<Rightarrow> \<exists>k. h' = h @ k \<and> P x k"
  by (cases "m h") (auto elim: tracesD)

lemma straces_case:
  assumes "straces m s P"
  shows "case m (s, h) of (x, s', h') \<Rightarrow> \<exists>k. h' = h @ k \<and> P x s' k"
proof -
  obtain x s' k where "m (s, h) = (x, (s', h @ k))" "P x s' k"
    using assms unfolding straces_def by blast
  then show ?thesis
    by simp
qed

text \<open>\<open>sonly m S\<close>: the same as \<open>only\<close> for an operation that also has state.\<close>

definition sonly :: "('s \<times> ('c, 'r) history, 'a) io \<Rightarrow> 'c set \<Rightarrow> bool" where
  "sonly m S \<longleftrightarrow> (\<forall>s. straces m s (\<lambda>_ _ k. fst ` set k \<subseteq> S))"

lemma sonlyD: "sonly m S \<Longrightarrow> straces m s (\<lambda>_ _ k. fst ` set k \<subseteq> S)"
  by (simp add: sonly_def)

lemma sonly_mono: "sonly m S \<Longrightarrow> S \<subseteq> T \<Longrightarrow> sonly m T"
  unfolding sonly_def by (rule allI, rule straces_weaken, erule spec) (rule subset_trans)

lemma sonly_append:
  "sonly m S \<Longrightarrow> fst ` set k \<subseteq> S \<Longrightarrow> straces m s (\<lambda>_ _ k'. fst ` set (k @ k') \<subseteq> S)"
  by (rule straces_weaken [OF sonlyD]) (auto simp: image_Un)

lemma sonly_ret [only_intros]: "sonly (ret_io x) S"
  by (simp add: sonly_def straces_ret)

lemma sonly_gets [only_intros]: "sonly (gets_io f) S"
  by (simp add: sonly_def straces_gets)

lemma sonly_modify [only_intros]: "sonly (modify_io f) S"
  by (simp add: sonly_def straces_modify)

lemma sonly_lift [only_intros]: "only m S \<Longrightarrow> sonly (lift_io m) S"
  by (auto simp: sonly_def only_def intro: straces_lift)

lemma sonly_ctx [only_intros]: "sonly m S \<Longrightarrow> sonly (ctx_io c m) S"
  by (auto simp: sonly_def intro: straces_ctx)

lemma sonly_bind [only_intros]:
  assumes "sonly m S" "\<And>x. sonly (f x) S"
  shows "sonly (bind_io m f) S"
  unfolding sonly_def
  by (intro allI, rule straces_bind [OF sonlyD [OF assms(1)]], erule sonly_append [OF assms(2)])

lemma sonly_bindE [only_intros]:
  assumes "sonly m S" "\<And>x. sonly (f x) S"
  shows "sonly (bindE m f) S"
  unfolding sonly_def
  by (intro allI, rule straces_bindE [OF sonlyD [OF assms(1)]], assumption, erule sonly_append [OF assms(2)])

lemma sonly_option [only_intros]:
  "(v = None \<Longrightarrow> sonly m S) \<Longrightarrow> (\<And>x. v = Some x \<Longrightarrow> sonly (f x) S) \<Longrightarrow>
   sonly (case v of None \<Rightarrow> m | Some x \<Rightarrow> f x) S"
  by (simp split: option.splits)

end
