(* ===== verification/NetAddr.thy ===== *)
theory NetAddr
  imports RustText
begin

unbundle bit_operations_syntax

text \<open>
  \<^verbatim>\<open>std::net\<close>: IP addresses as the server uses them. An \<^verbatim>\<open>Ipv4Addr\<close> is its 32-bit
  big-endian value, an \<^verbatim>\<open>Ipv6Addr\<close> its 128-bit value. Besides the constructors this
  theory models the \<^verbatim>\<open>Display\<close> of both kinds and the \<^verbatim>\<open>FromStr\<close> parser of \<^verbatim>\<open>IpAddr\<close>,
  which the PROXY protocol header goes through.
\<close>

datatype ip_addr = V4 u32 | V6 u128

record socket_addr =
  sa_ip :: ip_addr
  sa_port :: u16

definition ipv4_new :: "u8 \<Rightarrow> u8 \<Rightarrow> u8 \<Rightarrow> u8 \<Rightarrow> u32" where
  "ipv4_new a b c d =
     push_bit 24 (ucast a) OR push_bit 16 (ucast b) OR push_bit 8 (ucast c) OR ucast d"

definition ipv4_octets :: "u32 \<Rightarrow> u8 list" where
  "ipv4_octets w = [ucast (drop_bit 24 w), ucast (drop_bit 16 w), ucast (drop_bit 8 w), ucast w]"

lemma ipv4_new_network [simp]: "ipv4_new 192 168 100 n = 0xC0A86400 OR ucast n"
  by (simp add: ipv4_new_def or.assoc [symmetric])

lemma ipv4_new_octets:
  "ipv4_octets w = [a, b, c, d] \<Longrightarrow> ipv4_new a b c d = w"
proof -
  assume "ipv4_octets w = [a, b, c, d]"
  then have abcd: "a = ucast (drop_bit 24 w)" "b = ucast (drop_bit 16 w)"
      "c = ucast (drop_bit 8 w)" "d = ucast w"
    by (simp_all add: ipv4_octets_def)
  show ?thesis
  proof (rule bit_word_eqI)
    fix n
    assume "n < LENGTH(32)"
    then consider "n < 8" | "8 \<le> n" "n < 16" | "16 \<le> n" "n < 24" | "24 \<le> n" "n < 32"
      by force
    then show "bit (ipv4_new a b c d) n = bit w n"
      by cases (auto simp: ipv4_new_def abcd bit_simps)
  qed
qed

subsection \<open>Display\<close>

definition show_ipv4 :: "u32 \<Rightarrow> string" where
  "show_ipv4 w = join ''.'' (map (\<lambda>x. show_nat (unat x)) (ipv4_octets w))"

definition ipv6_segments :: "u128 \<Rightarrow> u16 list" where
  "ipv6_segments w = map (\<lambda>i. ucast (drop_bit (16 * (7 - i)) w)) [0..<8]"

text \<open>The longest run of zero segments, the first one of that length, as (start, length).\<close>

fun longest_zeros :: "nat \<Rightarrow> u16 list \<Rightarrow> nat \<times> nat \<Rightarrow> nat \<times> nat \<Rightarrow> nat \<times> nat" where
  "longest_zeros i [] current longest = longest"
| "longest_zeros i (s # ss) (cs, cl) (ls, ll) =
     (if s = 0 then
        let current = (if cl = 0 then i else cs, cl + 1);
            longest = (if ll < cl + 1 then current else (ls, ll))
        in longest_zeros (i + 1) ss current longest
      else longest_zeros (i + 1) ss (0, 0) (ls, ll))"

definition show_segments :: "u16 list \<Rightarrow> string" where
  "show_segments ss = join '':'' (map (\<lambda>s. show_hex (unat s)) ss)"

definition show_ipv6 :: "u128 \<Rightarrow> string" where
  "show_ipv6 w =
     (let ss = ipv6_segments w in
      if take 6 ss = [0, 0, 0, 0, 0, 0xFFFF] then ''::ffff:'' @ show_ipv4 (ucast w)
      else
        let (start, len) = longest_zeros 0 ss (0, 0) (0, 0) in
        if 1 < len then
          show_segments (take start ss) @ ''::'' @ show_segments (drop (start + len) ss)
        else show_segments ss)"

definition show_ip :: "ip_addr \<Rightarrow> string" where
  "show_ip ip = (case ip of V4 w \<Rightarrow> show_ipv4 w | V6 w \<Rightarrow> show_ipv6 w)"

subsection \<open>Parsing\<close>

text \<open>
  The recursive-descent parser of \<^verbatim>\<open>core::net::parser\<close>. Each reader takes the remaining
  text and returns a value and the rest, or \<open>None\<close> (and then nothing is consumed).
\<close>

text \<open>\<^verbatim>\<open>read_number\<close>: digits of the radix, at most \<open>max_digits\<close> of them, the value below
  \<open>bound\<close> (the checked arithmetic of the target width), a leading zero only if allowed.\<close>

fun read_digits :: "nat \<Rightarrow> nat \<Rightarrow> nat \<Rightarrow> nat \<Rightarrow> nat \<Rightarrow> string \<Rightarrow> (nat \<times> nat \<times> string) option" where
  "read_digits r maxd bound v k [] = Some (v, k, [])"
| "read_digits r maxd bound v k (c # s) =
     (case to_digit r c of
        None \<Rightarrow> Some (v, k, c # s)
      | Some d \<Rightarrow>
          if bound \<le> v * r + d \<or> maxd < k + 1 then None
          else read_digits r maxd bound (v * r + d) (k + 1) s)"

definition read_number :: "nat \<Rightarrow> nat \<Rightarrow> nat \<Rightarrow> bool \<Rightarrow> string \<Rightarrow> (nat \<times> string) option" where
  "read_number r maxd bound allow_zero s =
     (case read_digits r maxd bound 0 0 s of
        None \<Rightarrow> None
      | Some (v, k, rest) \<Rightarrow>
          if k = 0 then None
          else if \<not> allow_zero \<and> starts_with ''0'' s \<and> 1 < k then None
          else Some (v, rest))"

text \<open>\<^verbatim>\<open>read_separator(sep, index, inner)\<close>: the separator first, except for index 0.\<close>

definition read_separator ::
  "char \<Rightarrow> nat \<Rightarrow> (string \<Rightarrow> ('a \<times> string) option) \<Rightarrow> string \<Rightarrow> ('a \<times> string) option" where
  "read_separator sep i inner s =
     (if i = 0 then inner s
      else case s of c # s' \<Rightarrow> if c = sep then inner s' else None | [] \<Rightarrow> None)"

fun read_octets :: "nat \<Rightarrow> nat \<Rightarrow> string \<Rightarrow> (u8 list \<times> string) option" where
  "read_octets i 0 s = Some ([], s)"
| "read_octets i (Suc n) s =
     (case read_separator CHR ''.'' i (read_number 10 3 256 False) s of
        None \<Rightarrow> None
      | Some (v, s') \<Rightarrow>
          (case read_octets (i + 1) n s' of
             None \<Rightarrow> None
           | Some (vs, s'') \<Rightarrow> Some (of_nat v # vs, s'')))"

definition read_ipv4_addr :: "string \<Rightarrow> (u32 \<times> string) option" where
  "read_ipv4_addr s =
     (case read_octets 0 4 s of
        Some ([a, b, c, d], s') \<Rightarrow> Some (ipv4_new a b c d, s')
      | _ \<Rightarrow> None)"

text \<open>\<^verbatim>\<open>read_groups\<close>: up to \<open>limit\<close> groups, possibly ending in an embedded IPv4 address.\<close>

fun read_groups :: "nat \<Rightarrow> nat \<Rightarrow> string \<Rightarrow> u16 list \<times> bool \<times> string" where
  "read_groups i 0 s = ([], False, s)"
| "read_groups i (Suc left) s =
     (case (if 0 < left then read_separator CHR '':'' i read_ipv4_addr s else None) of
        Some (v4, s') \<Rightarrow> ([ucast (drop_bit 16 v4), ucast v4], True, s')
      | None \<Rightarrow>
          (case read_separator CHR '':'' i (read_number 16 4 65536 True) s of
             None \<Rightarrow> ([], False, s)
           | Some (g, s') \<Rightarrow>
               let (gs, v4, s'') = read_groups (i + 1) left s' in (of_nat g # gs, v4, s'')))"

definition ipv6_of_segments :: "u16 list \<Rightarrow> u128" where
  "ipv6_of_segments ss = foldl (\<lambda>acc s. push_bit 16 acc OR ucast s) 0 ss"

definition read_ipv6_addr :: "string \<Rightarrow> (u128 \<times> string) option" where
  "read_ipv6_addr s =
     (let (head, head_ipv4, s1) = read_groups 0 8 s in
      if length head = 8 then Some (ipv6_of_segments head, s1)
      else if head_ipv4 then None
      else if \<not> starts_with ''::'' s1 then None
      else
        let limit = 8 - (length head + 1);
            (tail, _, s2) = read_groups 0 limit (drop 2 s1)
        in Some (ipv6_of_segments (head @ replicate (8 - length head - length tail) 0 @ tail), s2))"

definition parse_ip :: "string \<Rightarrow> ip_addr option" where
  "parse_ip s =
     (case read_ipv4_addr s of
        Some (v4, s') \<Rightarrow> if s' = [] then Some (V4 v4) else None
      | None \<Rightarrow>
          (case read_ipv6_addr s of
             Some (v6, s') \<Rightarrow> if s' = [] then Some (V6 v6) else None
           | None \<Rightarrow> None))"

subsection \<open>An IPv4 address survives printing and parsing\<close>

lemma read_digits_prefix:
  assumes "\<forall>c \<in> set s. \<exists>d<r. to_digit r c = Some d"
    and "foldl (\<lambda>v c. v * r + the (to_digit r c)) v s < bound"
    and "k + length s \<le> maxd" and "0 < r"
    and "rest = [] \<or> to_digit r (hd rest) = None"
  shows "read_digits r maxd bound v k (s @ rest) =
    Some (foldl (\<lambda>v c. v * r + the (to_digit r c)) v s, k + length s, rest)"
  using assms
proof (induction s arbitrary: v k)
  case Nil
  then show ?case
    by (cases rest) auto
next
  case (Cons c s)
  then obtain d where d: "to_digit r c = Some d"
    by auto
  have mono: "v' \<le> foldl (\<lambda>v c. v * r + the (to_digit r c)) v' s" for v'
    using \<open>0 < r\<close>
  proof (induction s arbitrary: v')
    case (Cons x xs)
    have "v' \<le> v' * r + the (to_digit r x)"
      using Cons.prems by (simp add: trans_le_add1)
    also have "\<dots> \<le> foldl (\<lambda>v c. v * r + the (to_digit r c)) (v' * r + the (to_digit r x)) xs"
      using Cons by blast
    finally show ?case by simp
  qed simp
  have "v * r + d < bound"
    using mono [of "v * r + d"] Cons.prems(2) d by simp
  then show ?case
    using Cons d by simp
qed

lemma read_number_show:
  assumes "n < 256" and "rest = [] \<or> to_digit 10 (hd rest) = None"
  shows "read_number 10 3 256 False (show_nat n @ rest) = Some (n, rest)"
proof -
  have len: "length (show_nat n) \<le> 3"
    using length_show_radix_le [of 10 n 2] assms(1) by (simp add: numeral_eq_Suc)
  have digits: "\<forall>c \<in> set (show_nat n). \<exists>d<10. to_digit 10 c = Some d"
    using show_radix_digits [of 10 n] by fastforce
  have val: "foldl (\<lambda>v c. v * 10 + the (to_digit 10 c)) 0 (show_nat n) = n"
    using digits_value_show [of 10 n] by (simp add: digits_value_def)
  have read: "read_digits 10 3 256 0 0 (show_nat n @ rest) = Some (n, length (show_nat n), rest)"
    using read_digits_prefix [of "show_nat n" 10 0 256 0 3 rest] digits len assms val by simp
  have "\<not> (starts_with ''0'' (show_nat n @ rest) \<and> 1 < length (show_nat n))"
  proof (cases "n < 10")
    case True
    then show ?thesis by simp
  next
    case False
    then have "hd (show_nat n) \<noteq> CHR ''0''"
      using show_radix_leading [of 10 n] by simp
    then show ?thesis
      by (cases "show_nat n") (auto simp: starts_with_def)
  qed
  with read show ?thesis
    by (simp add: read_number_def)
qed

lemma to_digit_dot [simp]: "to_digit 10 CHR ''.'' = None"
  by (simp add: to_digit_def)

lemma read_octets_Cons:
  assumes "rest = [] \<or> to_digit 10 (hd rest) = None"
  shows "read_octets i (Suc n) ((if i = 0 then [] else ''.'') @ show_nat (unat (a :: u8)) @ rest) =
    map_option (\<lambda>(vs, s). (a # vs, s)) (read_octets (i + 1) n rest)"
  using read_number_show [OF _ assms, of "unat a"]
  by (simp add: read_separator_def split: option.splits)

lemma read_ipv4_addr_show:
  assumes "rest = [] \<or> to_digit 10 (hd rest) = None"
  shows "read_ipv4_addr (show_ipv4 w @ rest) = Some (w, rest)"
proof -
  obtain a b c d where oct: "ipv4_octets w = [a, b, c, d]"
    by (simp add: ipv4_octets_def)
  let ?d = "''.'' @ show_nat (unat d) @ rest"
  let ?c = "''.'' @ show_nat (unat c) @ ?d"
  let ?b = "''.'' @ show_nat (unat b) @ ?c"
  note step = read_octets_Cons and [simp del] = read_octets.simps(2)
  have "read_octets 3 (Suc 0) ?d = Some ([d], rest)"
    using step [of rest 3 0 d] assms by simp
  then have "read_octets 2 (Suc (Suc 0)) ?c = Some ([c, d], rest)"
    using step [of ?d 2 "Suc 0" c] by simp
  then have "read_octets 1 (Suc (Suc (Suc 0))) ?b = Some ([b, c, d], rest)"
    using step [of ?c 1 "Suc (Suc 0)" b] by (simp add: numeral_2_eq_2)
  then have "read_octets 0 (Suc (Suc (Suc (Suc 0)))) (show_nat (unat a) @ ?b) =
      Some ([a, b, c, d], rest)"
    using step [of ?b 0 "Suc (Suc (Suc 0))" a] by simp
  moreover have "show_ipv4 w @ rest = show_nat (unat a) @ ?b"
    by (simp add: show_ipv4_def oct)
  moreover have "(4 :: nat) = Suc (Suc (Suc (Suc 0)))"
    by simp
  ultimately have "read_octets 0 4 (show_ipv4 w @ rest) = Some ([a, b, c, d], rest)"
    by metis
  then show ?thesis
    using ipv4_new_octets [OF oct] by (simp add: read_ipv4_addr_def)
qed

lemma parse_ip_show_ipv4: "parse_ip (show_ip (V4 w)) = Some (V4 w)"
  using read_ipv4_addr_show [of "[]" w] by (simp add: parse_ip_def show_ip_def)

lemma show_ipv4_graphic: "c \<in> set (show_ipv4 w) \<Longrightarrow> graphic c"
proof -
  assume c: "c \<in> set (show_ipv4 w)"
  have join_set: "set (join ''.'' xs) \<subseteq> insert CHR ''.'' (\<Union> (set ` set xs))" for xs
    by (induction "''.''" xs rule: join.induct) auto
  have "c = CHR ''.'' \<or> (\<exists>n. c \<in> set (show_nat n))"
    using c join_set by (fastforce simp: show_ipv4_def)
  then show ?thesis
    using graphic_show_radix [of 10 c] by (auto simp: graphic_def)
qed

end
