(* ===== verification/Json.thy ===== *)
theory Json
  imports RustText
begin

text \<open>
  \<^verbatim>\<open>serde_json::Value\<close> and the accessors the sources use. Parsing and printing JSON text is
  the business of the \<^verbatim>\<open>serde_json\<close> crate: where the code calls it, the model takes the
  parser or printer as a parameter.
\<close>

datatype json_number = PosInt u64 | NegInt int | Float string

datatype json =
    JNull
  | JBool bool
  | JNumber json_number
  | JString string
  | JArray "json list"
  | JObject "(string \<times> json) list"

definition json_get :: "string \<Rightarrow> json \<Rightarrow> json option" where
  "json_get k v = (case v of JObject kvs \<Rightarrow> map_of kvs k | _ \<Rightarrow> None)"

definition as_str :: "json \<Rightarrow> string option" where
  "as_str v = (case v of JString s \<Rightarrow> Some s | _ \<Rightarrow> None)"

definition as_bool :: "json \<Rightarrow> bool option" where
  "as_bool v = (case v of JBool b \<Rightarrow> Some b | _ \<Rightarrow> None)"

definition as_array :: "json \<Rightarrow> json list option" where
  "as_array v = (case v of JArray xs \<Rightarrow> Some xs | _ \<Rightarrow> None)"

definition as_u64 :: "json \<Rightarrow> u64 option" where
  "as_u64 v = (case v of JNumber (PosInt n) \<Rightarrow> Some n | _ \<Rightarrow> None)"

definition as_i64 :: "json \<Rightarrow> int option" where
  "as_i64 v =
     (case v of
        JNumber (PosInt n) \<Rightarrow> if uint n < 2 ^ 63 then Some (uint n) else None
      | JNumber (NegInt i) \<Rightarrow> Some i
      | _ \<Rightarrow> None)"

definition is_null :: "json \<Rightarrow> bool" where
  "is_null v \<longleftrightarrow> v = JNull"

text \<open>\<^verbatim>\<open>Value::pointer("/a/b")\<close> on object keys.\<close>

definition json_pointer2 :: "string \<Rightarrow> string \<Rightarrow> json \<Rightarrow> json option" where
  "json_pointer2 a b v = Option.bind (json_get a v) (json_get b)"

text \<open>The values the \<^verbatim>\<open>json!\<close> macro makes of Rust values.\<close>

definition jnat :: "nat \<Rightarrow> json" where
  "jnat n = JNumber (PosInt (of_nat n))"

definition jint :: "int \<Rightarrow> json" where
  "jint i = JNumber (if i < 0 then NegInt i else PosInt (of_int i))"

definition jopt :: "('a \<Rightarrow> json) \<Rightarrow> 'a option \<Rightarrow> json" where
  "jopt f v = (case v of None \<Rightarrow> JNull | Some x \<Rightarrow> f x)"

lemma as_u64_jnat [simp]: "as_u64 (jnat n) = Some (of_nat n)"
  by (simp add: as_u64_def jnat_def)

lemma as_str_JString [simp]: "as_str (JString s) = Some s"
  by (simp add: as_str_def)

end
