(* ===== verification/Utf8.thy ===== *)
theory Utf8
  imports RustText
begin

text \<open>
  UTF-8 as \<^verbatim>\<open>core::str\<close> checks it: validity (\<^verbatim>\<open>str::from_utf8\<close>, \<^verbatim>\<open>Path::to_str\<close>), the lossy
  conversion that replaces each maximal invalid sequence by U+FFFD
  (\<^verbatim>\<open>String::from_utf8_lossy\<close>) and character boundaries (string slicing panics off one).
\<close>

definition cont_byte :: "nat \<Rightarrow> bool" where
  "cont_byte b \<longleftrightarrow> 0x80 \<le> b \<and> b \<le> 0xBF"

definition second_of_3 :: "nat \<Rightarrow> nat \<Rightarrow> bool" where
  "second_of_3 a b \<longleftrightarrow>
     (a = 0xE0 \<and> 0xA0 \<le> b \<and> b \<le> 0xBF) \<or> (0xE1 \<le> a \<and> a \<le> 0xEC \<and> cont_byte b) \<or>
     (a = 0xED \<and> 0x80 \<le> b \<and> b \<le> 0x9F) \<or> (0xEE \<le> a \<and> a \<le> 0xEF \<and> cont_byte b)"

definition second_of_4 :: "nat \<Rightarrow> nat \<Rightarrow> bool" where
  "second_of_4 a b \<longleftrightarrow>
     (a = 0xF0 \<and> 0x90 \<le> b \<and> b \<le> 0xBF) \<or> (0xF1 \<le> a \<and> a \<le> 0xF3 \<and> cont_byte b) \<or>
     (a = 0xF4 \<and> 0x80 \<le> b \<and> b \<le> 0x8F)"

text \<open>The sequence at the front: \<open>Inr n\<close> a character of \<open>n\<close> bytes, \<open>Inl n\<close> an invalid
  sequence of \<open>n\<close> bytes.\<close>

definition utf8_front :: "nat list \<Rightarrow> nat + nat" where
  "utf8_front bs =
     (case bs of
        [] \<Rightarrow> Inl 1
      | a # r1 \<Rightarrow>
          if a < 0x80 then Inr 1
          else if 0xC2 \<le> a \<and> a \<le> 0xDF then
            (case r1 of b # _ \<Rightarrow> if cont_byte b then Inr 2 else Inl 1 | [] \<Rightarrow> Inl 1)
          else if 0xE0 \<le> a \<and> a \<le> 0xEF then
            (case r1 of
               b # r2 \<Rightarrow>
                 if second_of_3 a b then
                   (case r2 of c # _ \<Rightarrow> if cont_byte c then Inr 3 else Inl 2 | [] \<Rightarrow> Inl 2)
                 else Inl 1
             | [] \<Rightarrow> Inl 1)
          else if 0xF0 \<le> a \<and> a \<le> 0xF4 then
            (case r1 of
               b # r2 \<Rightarrow>
                 if second_of_4 a b then
                   (case r2 of
                      c # r3 \<Rightarrow>
                        if cont_byte c then
                          (case r3 of d # _ \<Rightarrow> if cont_byte d then Inr 4 else Inl 3 | [] \<Rightarrow> Inl 3)
                        else Inl 2
                    | [] \<Rightarrow> Inl 2)
                 else Inl 1
             | [] \<Rightarrow> Inl 1)
          else Inl 1)"

lemmas utf8_splits = list.splits if_splits

lemma utf8_front_pos: "utf8_front bs = Inl n \<Longrightarrow> 0 < n" "utf8_front bs = Inr n \<Longrightarrow> 0 < n"
  by (auto simp: utf8_front_def split: utf8_splits)

lemma utf8_front_le: "utf8_front bs = Inr n \<Longrightarrow> n \<le> length bs"
  by (auto simp: utf8_front_def split: utf8_splits)

lemma utf8_front_append: "utf8_front bs = Inr n \<Longrightarrow> utf8_front (bs @ cs) = Inr n"
  by (auto simp: utf8_front_def split: utf8_splits)

lemma utf8_front_take: "utf8_front bs = Inr n \<Longrightarrow> utf8_front (take n bs) = Inr n"
  by (auto simp: utf8_front_def take_Cons' split: utf8_splits)

function utf8_valid :: "nat list \<Rightarrow> bool" where
  "utf8_valid bs =
     (if bs = [] then True
      else case utf8_front bs of Inl _ \<Rightarrow> False | Inr n \<Rightarrow> utf8_valid (drop n bs))"
  by pat_completeness auto
termination
  by (relation "measure length") (auto dest: utf8_front_pos)

function utf8_lossy :: "nat list \<Rightarrow> nat list" where
  "utf8_lossy bs =
     (if bs = [] then []
      else case utf8_front bs of
             Inl n \<Rightarrow> [0xEF, 0xBF, 0xBD] @ utf8_lossy (drop n bs)
           | Inr n \<Rightarrow> take n bs @ utf8_lossy (drop n bs))"
  by pat_completeness auto
termination
  by (relation "measure length") (auto dest: utf8_front_pos)

declare utf8_valid.simps [simp del] utf8_lossy.simps [simp del]

definition is_utf8 :: "string \<Rightarrow> bool" where
  "is_utf8 s = utf8_valid (map of_char s)"

definition from_utf8_lossy :: "bytes \<Rightarrow> string" where
  "from_utf8_lossy bs = map char_of (utf8_lossy (map unat bs))"

text \<open>\<^verbatim>\<open>str::is_char_boundary\<close>.\<close>

definition is_char_boundary :: "string \<Rightarrow> nat \<Rightarrow> bool" where
  "is_char_boundary s i \<longleftrightarrow>
     i = 0 \<or> i = length s \<or> (i < length s \<and> \<not> cont_byte (of_char (s ! i)))"

text \<open>\<^verbatim>\<open>&s[..n]\<close>: a panic off a character boundary.\<close>

definition str_prefix :: "string \<Rightarrow> nat \<Rightarrow> string outcome" where
  "str_prefix s n = (if is_char_boundary s n then Ret (take n s) else Panic)"

lemma utf8_valid_Nil [simp]: "utf8_valid []"
  by (simp add: utf8_valid.simps)

lemma utf8_lossy_Nil [simp]: "utf8_lossy [] = []"
  by (simp add: utf8_lossy.simps)

lemma utf8_valid_ascii: "\<forall>b \<in> set bs. b < 0x80 \<Longrightarrow> utf8_valid bs"
proof (induction bs)
  case (Cons b bs)
  then have "utf8_front (b # bs) = Inr 1"
    by (simp add: utf8_front_def)
  with Cons show ?case
    by (simp add: utf8_valid.simps [of "b # bs"])
qed simp

lemma utf8_lossy_valid: "utf8_valid bs \<Longrightarrow> utf8_lossy bs = bs"
proof (induction bs rule: utf8_valid.induct)
  case (1 bs)
  show ?case
  proof (cases "bs = []")
    case False
    then obtain n where n: "utf8_front bs = Inr n" "utf8_valid (drop n bs)"
      using "1.prems" by (auto simp: utf8_valid.simps [of bs] split: sum.splits)
    then show ?thesis
      using "1.IH" False by (simp add: utf8_lossy.simps [of bs])
  qed simp
qed

lemma utf8_valid_Inr:
  "utf8_front bs = Inr n \<Longrightarrow> utf8_valid bs \<longleftrightarrow> utf8_valid (drop n bs)"
  by (cases "bs = []") (auto simp: utf8_valid.simps [of bs] utf8_front_def)

lemma utf8_valid_front_append:
  assumes "utf8_front cs = Inr n" and "length cs = n"
  shows "utf8_valid (cs @ bs) \<longleftrightarrow> utf8_valid bs"
  using utf8_valid_Inr [OF utf8_front_append [OF assms(1)]] assms(2) by simp

lemma utf8_valid_replacement: "utf8_valid ([0xEF, 0xBF, 0xBD] @ bs) \<longleftrightarrow> utf8_valid bs"
  by (rule utf8_valid_front_append) (simp_all add: utf8_front_def second_of_3_def cont_byte_def)

text \<open>The lossy conversion always produces valid text.\<close>

lemma utf8_valid_lossy: "utf8_valid (utf8_lossy bs)"
proof (induction bs rule: utf8_lossy.induct)
  case (1 bs)
  show ?case
  proof (cases "bs = []")
    case False
    show ?thesis
    proof (cases "utf8_front bs")
      case (Inl n)
      then show ?thesis
        using "1.IH"(1) False utf8_valid_replacement by (simp add: utf8_lossy.simps [of bs])
    next
      case (Inr n)
      then have "utf8_valid (take n bs @ utf8_lossy (drop n bs)) \<longleftrightarrow> utf8_valid (utf8_lossy (drop n bs))"
        using utf8_front_take utf8_front_le by (intro utf8_valid_front_append) auto
      then show ?thesis
        using "1.IH"(2) False Inr by (simp add: utf8_lossy.simps [of bs])
    qed
  qed simp
qed

lemma from_utf8_lossy_ascii:
  assumes "\<forall>c \<in> set s. (of_char c :: nat) < 0x80"
  shows "from_utf8_lossy (bytes_of s) = s"
proof -
  have "map unat (bytes_of s) = map of_char s"
    by (simp add: bytes_of_def unat_of_nat take_bit_nat_eq_self)
  moreover have "utf8_lossy (map of_char s) = map of_char s"
    using assms by (intro utf8_lossy_valid utf8_valid_ascii) auto
  ultimately show ?thesis
    by (simp add: from_utf8_lossy_def o_def)
qed

lemma utf8_valid_append: "utf8_valid as \<Longrightarrow> utf8_valid (as @ bs) \<longleftrightarrow> utf8_valid bs"
proof (induction "as" rule: utf8_valid.induct)
  case (1 "as")
  show ?case
  proof (cases "as = []")
    case False
    then obtain n where n: "utf8_front as = Inr n" "utf8_valid (drop n as)"
      using "1.prems" by (auto simp: utf8_valid.simps [of "as"] split: sum.splits)
    then have "utf8_valid (as @ bs) \<longleftrightarrow> utf8_valid (drop n as @ bs)"
      using utf8_valid_Inr [OF utf8_front_append [OF n(1)], of bs] utf8_front_le [OF n(1)] by simp
    then show ?thesis
      using "1.IH" [OF False n] by simp
  qed simp
qed

lemma utf8_lossy_bytes: "\<forall>b \<in> set bs. b < 256 \<Longrightarrow> \<forall>b \<in> set (utf8_lossy bs). b < 256"
proof (induction bs rule: utf8_lossy.induct)
  case (1 bs)
  show ?case
  proof (cases "bs = []")
    case False
    then show ?thesis
      using 1 by (subst utf8_lossy.simps) (auto split: sum.splits dest: in_set_takeD in_set_dropD)
  qed simp
qed

lemma is_utf8_append: "is_utf8 s \<Longrightarrow> is_utf8 (s @ t) \<longleftrightarrow> is_utf8 t"
  by (simp add: is_utf8_def utf8_valid_append)

lemma is_utf8_ascii: "\<forall>c \<in> set s. (of_char c :: nat) < 0x80 \<Longrightarrow> is_utf8 s"
  unfolding is_utf8_def by (rule utf8_valid_ascii) auto

lemma is_utf8_lossy: "is_utf8 (from_utf8_lossy bs)"
proof -
  have "\<forall>b \<in> set (utf8_lossy (map unat bs)). b < 256"
    by (rule utf8_lossy_bytes) auto
  then have "map of_char (from_utf8_lossy bs) = utf8_lossy (map unat bs)"
    by (simp add: from_utf8_lossy_def map_idI)
  then show ?thesis
    using utf8_valid_lossy by (simp add: is_utf8_def)
qed

lemma is_utf8_join: "is_utf8 sep \<Longrightarrow> \<forall>s \<in> set ss. is_utf8 s \<Longrightarrow> is_utf8 (join sep ss)"
proof (induction sep ss rule: join.induct)
  case (1 sep)
  show ?case
    by (simp add: is_utf8_def)
qed (simp_all add: is_utf8_append)

end
