(* ===== verification/HostCalls.thy ===== *)
theory HostCalls
  imports Interaction NetAddr Json Utf8
begin

text \<open>
  The calls the VM control plane makes to the outside: the file system, \<^verbatim>\<open>/dev/net/tun\<close>,
  netlink (\<^verbatim>\<open>rtnetlink\<close>), iptables, child processes, the Firecracker HTTP socket, the guest
  agent's gRPC channel and the clock; and the pure functions of third-party crates
  (\<^verbatim>\<open>uuid\<close>, \<^verbatim>\<open>serde_json\<close>, \<^verbatim>\<open>http\<close>), gathered in the record \<open>libs\<close>.
\<close>

datatype io_kind = PermissionDenied | UnexpectedEof | ConnectionRefused | OtherKind

datatype io_error = IoError (io_kind: io_kind) (io_message: string)

definition anyhow_of_io :: "io_error \<Rightarrow> anyhow" where
  "anyhow_of_io e = anyhow (io_message e)"

text \<open>The \<^verbatim>\<open>ifreq\<close> of tap.rs (its padding is constant) and the guest agent's messages.\<close>

record ifreq =
  ifr_name :: bytes
  ifr_flags :: u16

record exec_request =
  ex_command :: string
  ex_args :: "string list"
  ex_env :: "(string \<times> string) list"
  ex_working_dir :: string

record exec_response =
  ex_exit_code :: int
  ex_stdout :: bytes
  ex_stderr :: bytes

datatype sys_call =
    PathExists string
  | RemoveFile string
  | WriteFile string bytes
  | ReadToString string
  | CreateDirAll string
  | OpenTun
  | TunSetIff ifreq
  | TunSetPersist
  | LinkGet string
  | LinkAddBridge string
  | AddressAdd u32 ip_addr nat
  | LinkSetUp u32
  | LinkSetController u32 u32
  | LinkDel u32
  | IptNew
  | IptAppend string string string
  | IptExists string string string
  | IptDelete string string string
  | SpawnFirecracker string
  | KillChild nat
  | WaitChild nat
  | FcRequest string string string "json option"
  | UnixConnect string
  | StreamWrite bytes
  | StreamReadLine
  | AgentHealth
  | AgentExec exec_request
  | SleepMs nat
  | ElapsedMs
  | SystemNow
  | NewUuid
  | CancelProxies

datatype sys_reply =
    ROk
  | RErr io_error
  | RBool bool
  | RIndex "u32 option"
  | RText string
  | RPid nat
  | RHttp u16 "io_error + bytes"
  | RExec exec_response
  | RMillis nat
  | RTime int
  | RUuid u128

type_synonym sys_history = "(sys_call, sys_reply) history"
type_synonym sys_host = "(sys_call, sys_reply) host"
type_synonym 'a sys = "(sys_history, 'a) io"

subsection \<open>Reading a reply\<close>

text \<open>Each wrapper reads the reply at the type the called function returns; a reply of
  another shape (which no real call gives) counts as an error or the default.\<close>

definition bad_reply :: io_error where
  "bad_reply = IoError OtherKind ''unexpected reply''"

definition reply_unit :: "sys_reply \<Rightarrow> io_error + unit" where
  "reply_unit r = (case r of RErr e \<Rightarrow> Inl e | _ \<Rightarrow> Inr ())"

definition reply_bool :: "sys_reply \<Rightarrow> io_error + bool" where
  "reply_bool r = (case r of RErr e \<Rightarrow> Inl e | RBool b \<Rightarrow> Inr b | _ \<Rightarrow> Inl bad_reply)"

definition reply_index :: "sys_reply \<Rightarrow> io_error + u32 option" where
  "reply_index r = (case r of RErr e \<Rightarrow> Inl e | RIndex i \<Rightarrow> Inr i | _ \<Rightarrow> Inl bad_reply)"

definition reply_text :: "sys_reply \<Rightarrow> io_error + string" where
  "reply_text r = (case r of RErr e \<Rightarrow> Inl e | RText t \<Rightarrow> Inr t | _ \<Rightarrow> Inl bad_reply)"

definition reply_pid :: "sys_reply \<Rightarrow> io_error + nat" where
  "reply_pid r = (case r of RErr e \<Rightarrow> Inl e | RPid p \<Rightarrow> Inr p | _ \<Rightarrow> Inl bad_reply)"

definition reply_http :: "sys_reply \<Rightarrow> io_error + u16 \<times> (io_error + bytes)" where
  "reply_http r = (case r of RErr e \<Rightarrow> Inl e | RHttp s b \<Rightarrow> Inr (s, b) | _ \<Rightarrow> Inl bad_reply)"

definition reply_exec :: "sys_reply \<Rightarrow> io_error + exec_response" where
  "reply_exec r = (case r of RErr e \<Rightarrow> Inl e | RExec x \<Rightarrow> Inr x | _ \<Rightarrow> Inl bad_reply)"

definition reply_true :: "sys_reply \<Rightarrow> bool" where
  "reply_true r = (case r of RBool b \<Rightarrow> b | _ \<Rightarrow> False)"

definition reply_millis :: "sys_reply \<Rightarrow> nat" where
  "reply_millis r = (case r of RMillis n \<Rightarrow> n | _ \<Rightarrow> 0)"

definition reply_time :: "sys_reply \<Rightarrow> int" where
  "reply_time r = (case r of RTime t \<Rightarrow> t | _ \<Rightarrow> 0)"

definition reply_uuid :: "sys_reply \<Rightarrow> u128" where
  "reply_uuid r = (case r of RUuid u \<Rightarrow> u | _ \<Rightarrow> 0)"

text \<open>An \<^verbatim>\<open>io::Result\<close> turned into an \<^verbatim>\<open>anyhow::Result\<close>.\<close>

definition to_anyhow :: "io_error + 'a \<Rightarrow> anyhow + 'a" where
  "to_anyhow r = (case r of Inl e \<Rightarrow> Inl (anyhow_of_io e) | Inr x \<Rightarrow> Inr x)"

lemma to_anyhow_simps [simp]:
  "to_anyhow (Inl e) = Inl (anyhow_of_io e)" "to_anyhow (Inr x) = Inr x"
  by (simp_all add: to_anyhow_def)

lemma to_anyhow_Inr_iff [simp]: "to_anyhow r = Inr x \<longleftrightarrow> r = Inr x"
  by (cases r) simp_all

lemma is_ok_to_anyhow [simp]: "is_ok (to_anyhow r) = is_ok r"
  by (cases r) simp_all

lemma is_ok_with_context [simp]: "is_ok (with_context c r) = is_ok r"
  by (cases r) simp_all

definition call_unit :: "sys_host \<Rightarrow> sys_call \<Rightarrow> (anyhow + unit) sys" where
  "call_unit host c = map_io (\<lambda>r. to_anyhow (reply_unit r)) (ask host c)"

definition path_exists :: "sys_host \<Rightarrow> string \<Rightarrow> bool sys" where
  "path_exists host p = map_io reply_true (ask host (PathExists p))"

definition sleep_ms :: "sys_host \<Rightarrow> nat \<Rightarrow> unit sys" where
  "sleep_ms host n = map_io (\<lambda>_. ()) (ask host (SleepMs n))"

lemma only_call_unit [only_intros]: "c \<in> S \<Longrightarrow> only (call_unit host c) S"
  unfolding call_unit_def by (intro only_intros)

lemma only_path_exists [only_intros]: "PathExists p \<in> S \<Longrightarrow> only (path_exists host p) S"
  unfolding path_exists_def by (intro only_intros)

lemma only_sleep_ms [only_intros]: "SleepMs n \<in> S \<Longrightarrow> only (sleep_ms host n) S"
  unfolding sleep_ms_def by (intro only_intros)

subsection \<open>Third-party pure functions\<close>

record libs =
  uuid_to_string :: "u128 \<Rightarrow> string"
  uuid_simple :: "u128 \<Rightarrow> string"
  uuid_parse :: "string \<Rightarrow> string + u128"
  json_to_string :: "json \<Rightarrow> string option"
  json_from_slice :: "bytes \<Rightarrow> json option"
  status_display :: "u16 \<Rightarrow> string"

text \<open>Concrete functions for examples: an id prints as 32 letters, JSON prints as \<^verbatim>\<open>{}\<close> and
  reads as nothing.\<close>

definition sample_libs :: libs where
  "sample_libs =
     \<lparr>uuid_to_string = (\<lambda>u. replicate 32 (if u = 0 then CHR ''0'' else CHR ''a'')),
      uuid_simple = (\<lambda>u. replicate 32 (if u = 0 then CHR ''0'' else CHR ''a'')),
      uuid_parse = (\<lambda>s. Inr (if s = replicate 32 (CHR ''0'') then 0 else 1)),
      json_to_string = (\<lambda>_. Some ''{}''), json_from_slice = (\<lambda>_. None),
      status_display = (\<lambda>s. show_nat (unat s))\<rparr>"

end
