(* ===== verification/EventStore.thy ===== *)
theory EventStore
  imports HostCalls "HOL-Library.Sublist" "HOL-Library.List_Lexorder" "HOL-Library.Char_ord"
    "HOL-Library.Product_Lexorder"
begin

text \<open>
  \<^verbatim>\<open>clawpot-server/src/events\<close>: the event log. \<^verbatim>\<open>emit_inner\<close> numbers an event and sends it
  down an unbounded channel; the background task batches what it receives into database
  transactions. The producers and the task run concurrently: the task is the state machine
  \<open>writer_step\<close>, and \<open>log_step\<close> interleaves it with sends in every order.

  SQLite is modelled by what the code relies on: a transaction commits all of its inserts or
  none of them (which of the two is an argument), \<^verbatim>\<open>AUTOINCREMENT\<close> numbers rows in order of
  insertion. The clock of an event is a function of the number the event gets, which is an
  arbitrary sequence of readings. Messages on standard output are left out.
\<close>

subsection \<open>Data\<close>

datatype persist_mode = All | Structured | NoPersist

definition persist_from_env :: "string option \<Rightarrow> persist_mode" where
  "persist_from_env v =
     (let s = (case v of None \<Rightarrow> [] | Some s \<Rightarrow> s)
      in if s = ''structured'' then Structured else if s = ''none'' then NoPersist else All)"

record event_record =
  er_timestamp :: string
  er_category :: string
  er_event_type :: string
  er_vm_id :: "string option"
  er_correlation_id :: "string option"
  er_duration_ms :: "i64 option"
  er_success :: "bool option"
  er_data :: string

datatype writer_msg = Event event_record | Close

record event_store =
  es_channel :: "writer_msg list"
  es_open :: bool
  es_session_id :: string
  es_persist_mode :: persist_mode
  es_next_id :: i64

text \<open>The handle \<^verbatim>\<open>EventStore::new\<close> returns: an empty channel whose receiver is alive.\<close>

definition EventStore_new :: "string \<Rightarrow> persist_mode \<Rightarrow> event_store" where
  "EventStore_new session mode =
     \<lparr>es_channel = [], es_open = True, es_session_id = session, es_persist_mode = mode, es_next_id = 1\<rparr>"

subsection \<open>Emitting\<close>

definition should_persist :: "persist_mode \<Rightarrow> string \<Rightarrow> bool" where
  "should_persist mode event_type =
     (case mode of All \<Rightarrow> True | Structured \<Rightarrow> event_type \<noteq> ''log'' | NoPersist \<Rightarrow> False)"

text \<open>\<^verbatim>\<open>tx.send\<close> fails when the receiver is gone; the message is then dropped.\<close>

definition tx_send :: "writer_msg \<Rightarrow> event_store \<Rightarrow> event_store" where
  "tx_send msg es = (if es_open es then es\<lparr>es_channel := es_channel es @ [msg]\<rparr> else es)"

definition emit_inner ::
  "libs \<Rightarrow> (i64 \<Rightarrow> string) \<Rightarrow> string \<Rightarrow> string \<Rightarrow> string option \<Rightarrow> string option \<Rightarrow> i64 option \<Rightarrow>
   bool option \<Rightarrow> json \<Rightarrow> event_store \<Rightarrow> i64 \<times> event_store" where
  "emit_inner X clock event_type category vm_id correlation_id duration_ms success data es =
     (let local_id = es_next_id es;
          es = es\<lparr>es_next_id := es_next_id es + 1\<rparr>;
          data_json = (case json_to_string X data of None \<Rightarrow> ''{}'' | Some s \<Rightarrow> s)
      in (local_id,
          if should_persist (es_persist_mode es) event_type then
            tx_send (Event \<lparr>er_timestamp = clock local_id, er_category = category,
              er_event_type = event_type, er_vm_id = vm_id, er_correlation_id = correlation_id,
              er_duration_ms = duration_ms, er_success = success, er_data = data_json\<rparr>) es
          else es))"

definition emit where
  "emit X clock event_type category vm_id correlation_id data =
     emit_inner X clock event_type category vm_id correlation_id None None data"

definition emit_with_duration where
  "emit_with_duration X clock event_type category vm_id correlation_id duration_ms success data =
     emit_inner X clock event_type category vm_id correlation_id (Some duration_ms) success data"

definition emit_log where
  "emit_log X clock category vm_id message =
     emit_inner X clock ''log'' category vm_id None None None
       (JObject [(''message'', JString message)])"

text \<open>The macros of \<^verbatim>\<open>events/mod.rs\<close>, each with and without a VM id; both discard the id of the event.\<close>

definition clawpot_event where
  "clawpot_event X clock event_type category vm_id data = emit X clock event_type category vm_id None data"

definition clawpot_log where
  "clawpot_log X clock category vm_id message = emit_log X clock category vm_id message"

text \<open>The first half of \<^verbatim>\<open>close_session\<close>: the request. The second half waits for the answer of the writer
  (\<open>close_wait\<close> below).\<close>

definition close_session :: "event_store \<Rightarrow> event_store" where
  "close_session es = tx_send Close es"

subsection \<open>The database\<close>

record event_row =
  row_id :: int
  row_session_id :: string
  row_timestamp :: string
  row_category :: string
  row_event_type :: string
  row_vm_id :: "string option"
  row_correlation_id :: "string option"
  row_duration_ms :: "i64 option"
  row_success :: "int option"
  row_data :: string

record session_row =
  sess_id :: string
  sess_started_at :: string
  sess_stopped_at :: "string option"
  sess_server_version :: string
  sess_config :: string

record events_db =
  db_sessions :: "session_row list"
  db_events :: "event_row list"
  db_last_id :: int

definition insert_event :: "string \<Rightarrow> event_record \<Rightarrow> events_db \<Rightarrow> events_db" where
  "insert_event session_id r db =
     db\<lparr>db_last_id := db_last_id db + 1,
        db_events := db_events db @
          [\<lparr>row_id = db_last_id db + 1, row_session_id = session_id,
            row_timestamp = er_timestamp r, row_category = er_category r,
            row_event_type = er_event_type r, row_vm_id = er_vm_id r,
            row_correlation_id = er_correlation_id r, row_duration_ms = er_duration_ms r,
            row_success = map_option (\<lambda>b. if b then 1 else 0) (er_success r),
            row_data = er_data r\<rparr>]\<rparr>"

definition flush_batch_inner :: "bool \<Rightarrow> string \<Rightarrow> event_record list \<Rightarrow> events_db \<Rightarrow> events_db" where
  "flush_batch_inner commits session_id batch db =
     (if commits then fold (insert_event session_id) batch db else db)"

text \<open>\<^verbatim>\<open>flush_batch\<close> also clears the batch, whether or not the transaction committed.\<close>

definition flush_batch ::
  "bool \<Rightarrow> string \<Rightarrow> event_record list \<times> events_db \<Rightarrow> event_record list \<times> events_db" where
  "flush_batch commits session_id = (\<lambda>(batch, db).
     if batch = [] then (batch, db) else ([], flush_batch_inner commits session_id batch db))"

definition close_session_row :: "bool \<Rightarrow> string \<Rightarrow> string \<Rightarrow> events_db \<Rightarrow> events_db" where
  "close_session_row updates now session_id db =
     (if \<not> updates then db else db\<lparr>db_sessions := map (\<lambda>s. if sess_id s = session_id then s\<lparr>sess_stopped_at := Some now\<rparr> else s)
          (db_sessions db)\<rparr>)"

subsection \<open>The background writer\<close>

text \<open>
  The places the task can be at: \<open>Receiving\<close> is the blocking receive at the head of the outer
  loop, \<open>Draining\<close> the inner non-blocking loop, \<open>ClosingDrain\<close> the loop that empties the
  channel after a close request, \<open>Finishing\<close> the common end (flush, close the session row,
  checkpoint, answer), \<open>Exited\<close> after the return, when the receiver is dropped.
\<close>

datatype writer_phase = Receiving | Draining | ClosingDrain | Finishing | Exited

record writer =
  w_phase :: writer_phase
  w_batch :: "event_record list"
  w_db :: events_db

definition writer_new :: "events_db \<Rightarrow> writer" where
  "writer_new db = \<lparr>w_phase = Receiving, w_batch = [], w_db = db\<rparr>"

definition w_flush :: "bool \<Rightarrow> string \<Rightarrow> writer \<Rightarrow> writer" where
  "w_flush commits session_id w =
     (case flush_batch commits session_id (w_batch w, w_db w) of
        (batch, db) \<Rightarrow> w\<lparr>w_batch := batch, w_db := db\<rparr>)"

text \<open>One step of the task. \<open>commits\<close> and \<open>updates\<close> tell whether the transaction and the update
  of the session row succeed, \<open>alive\<close> whether a sender is left, \<open>now\<close> the time of the update.\<close>

definition writer_step ::
  "bool \<Rightarrow> bool \<Rightarrow> bool \<Rightarrow> string \<Rightarrow> event_store \<times> writer \<Rightarrow> event_store \<times> writer" where
  "writer_step commits updates alive now = (\<lambda>(es, w).
     let rest = es\<lparr>es_channel := tl (es_channel es)\<rparr>;
         push = (\<lambda>r. w\<lparr>w_batch := w_batch w @ [r]\<rparr>)
     in case w_phase w of
       Receiving \<Rightarrow>
         (case es_channel es of
            Event r # _ \<Rightarrow> (rest, (push r)\<lparr>w_phase := Draining\<rparr>)
          | Close # _ \<Rightarrow> (rest, w\<lparr>w_phase := ClosingDrain\<rparr>)
          | [] \<Rightarrow> if alive then (es, w) else (es, w\<lparr>w_phase := Finishing\<rparr>))
     | ClosingDrain \<Rightarrow>
         (case es_channel es of
            Event r # _ \<Rightarrow> (rest, push r)
          | Close # _ \<Rightarrow> (rest, w)
          | [] \<Rightarrow> (es, w\<lparr>w_phase := Finishing\<rparr>))
     | Draining \<Rightarrow>
         (case es_channel es of
            Event r # _ \<Rightarrow> (rest, push r)
          | Close # _ \<Rightarrow> (rest, w\<lparr>w_phase := Finishing\<rparr>)
          | [] \<Rightarrow> (es, (w_flush commits (es_session_id es) w)\<lparr>w_phase := Receiving\<rparr>))
     | Finishing \<Rightarrow>
         (let w = w_flush commits (es_session_id es) w
          in (es\<lparr>es_channel := [], es_open := False\<rparr>,
              w\<lparr>w_db := close_session_row updates now (es_session_id es) (w_db w), w_phase := Exited\<rparr>))
     | Exited \<Rightarrow> (es, w))"

text \<open>The second half of \<^verbatim>\<open>close_session\<close>: it goes on when the writer has answered and returned (or was
  gone already, so that the answer can never come), or when the 5 seconds are over, whatever the
  writer has done by then.\<close>

definition close_wait :: "bool \<Rightarrow> writer \<Rightarrow> bool" where
  "close_wait five_seconds_over w \<longleftrightarrow> five_seconds_over \<or> w_phase w = Exited"

subsection \<open>Queries\<close>

record event_filters =
  f_session_id :: "string option"
  f_vm_id :: "string option"
  f_category :: "string option"
  f_event_type :: "string option"
  f_limit :: "int option"

record event =
  q_id :: int
  q_session_id :: string
  q_timestamp :: string
  q_category :: string
  q_event_type :: string
  q_vm_id :: "string option"
  q_correlation_id :: "string option"
  q_duration_ms :: "i64 option"
  q_success :: "bool option"
  q_data :: json

record session_info =
  si_id :: string
  si_started_at :: string
  si_stopped_at :: "string option"
  si_server_version :: string
  si_event_count :: nat

text \<open>
  A connection for reading: what preparing a statement, binding its parameters and starting it, and
  stepping to each row and reading its columns give (the step behind the last row can fail too),
  and the rows of the database.
\<close>

record sqlite_conn =
  cn_prepare :: "string \<Rightarrow> string + unit"
  cn_query :: "string list \<Rightarrow> string + unit"
  cn_row :: "nat \<Rightarrow> string + unit"
  cn_db :: events_db

fun fetch_rows :: "(nat \<Rightarrow> string + unit) \<Rightarrow> ('r \<Rightarrow> 'a) \<Rightarrow> nat \<Rightarrow> 'r list \<Rightarrow> anyhow + 'a list" where
  "fetch_rows step decode n [] = (case step n of Inl e \<Rightarrow> Inl (anyhow e) | Inr _ \<Rightarrow> Inr [])"
| "fetch_rows step decode n (r # rs) =
     (case step n of
        Inl e \<Rightarrow> Inl (anyhow e)
      | Inr _ \<Rightarrow>
          (case fetch_rows step decode (Suc n) rs of
             Inl e \<Rightarrow> Inl e
           | Inr xs \<Rightarrow> Inr (decode r # xs)))"

text \<open>\<^verbatim>\<open>prepare\<close>, \<^verbatim>\<open>query_map\<close> and the loop over the rows, each ending with the error it meets.\<close>

definition select_rows ::
  "sqlite_conn \<Rightarrow> string \<Rightarrow> string list \<Rightarrow> ('r \<Rightarrow> 'a) \<Rightarrow> 'r list \<Rightarrow> anyhow + 'a list" where
  "select_rows C sql params decode rows =
     (case cn_prepare C sql of
        Inl e \<Rightarrow> Inl (anyhow e)
      | Inr _ \<Rightarrow>
          (case cn_query C params of
             Inl e \<Rightarrow> Inl (anyhow e)
           | Inr _ \<Rightarrow> fetch_rows (cn_row C) decode 0 rows))"

datatype event_column = SessionId | VmId | Category | EventType

definition column_name :: "event_column \<Rightarrow> string" where
  "column_name c =
     (case c of SessionId \<Rightarrow> ''session_id'' | VmId \<Rightarrow> ''vm_id'' | Category \<Rightarrow> ''category'' | EventType \<Rightarrow> ''event_type'')"

text \<open>Conditions with the number of their placeholder, and the parameters. One \<^verbatim>\<open>if let\<close> of the code
  adds one of each.\<close>

type_synonym sql_builder = "(event_column \<times> nat) list \<times> string list"

definition push_condition :: "event_column \<Rightarrow> string option \<Rightarrow> sql_builder \<Rightarrow> sql_builder" where
  "push_condition c wanted = (\<lambda>(conds, params).
     case wanted of
       None \<Rightarrow> (conds, params)
     | Some v \<Rightarrow> (conds @ [(c, length params + 1)], params @ [v]))"

definition build_query :: "event_filters \<Rightarrow> sql_builder" where
  "build_query f =
     push_condition EventType (f_event_type f)
       (push_condition Category (f_category f)
         (push_condition VmId (f_vm_id f)
           (push_condition SessionId (f_session_id f) ([], []))))"

text \<open>The text of the statement, its layout aside.\<close>

definition query_text :: "(event_column \<times> nat) list \<Rightarrow> int option \<Rightarrow> string" where
  "query_text conds limit =
     ''SELECT id, session_id, timestamp, category, event_type, vm_id, correlation_id, duration_ms, success, data FROM events WHERE 1=1'' @
     concat (map (\<lambda>(c, n). '' AND '' @ column_name c @ '' = ?'' @ show_nat n) conds) @
     '' ORDER BY timestamp ASC, id ASC'' @
     (case limit of None \<Rightarrow> [] | Some n \<Rightarrow> '' LIMIT '' @ show_int n)"

definition column_value :: "event_column \<Rightarrow> event_row \<Rightarrow> string option" where
  "column_value c r =
     (case c of
        SessionId \<Rightarrow> Some (row_session_id r) | VmId \<Rightarrow> row_vm_id r
      | Category \<Rightarrow> Some (row_category r) | EventType \<Rightarrow> Some (row_event_type r))"

text \<open>What SQLite makes of the statement: \<^verbatim>\<open>column = ?n\<close> compares with the n-th parameter and fails on
  \<^verbatim>\<open>NULL\<close>, and a placeholder without a parameter is \<^verbatim>\<open>NULL\<close>; a negative \<^verbatim>\<open>LIMIT\<close> is none.\<close>

definition condition_holds :: "string list \<Rightarrow> event_row \<Rightarrow> event_column \<times> nat \<Rightarrow> bool" where
  "condition_holds params r = (\<lambda>(c, n).
     1 \<le> n \<and> n \<le> length params \<and> column_value c r = Some (params ! (n - 1)))"

definition sql_limit :: "int option \<Rightarrow> 'a list \<Rightarrow> 'a list" where
  "sql_limit limit xs =
     (case limit of None \<Rightarrow> xs | Some n \<Rightarrow> if n < 0 then xs else take (nat n) xs)"

definition selected_rows :: "sql_builder \<Rightarrow> int option \<Rightarrow> events_db \<Rightarrow> event_row list" where
  "selected_rows q limit db = (case q of (conds, params) \<Rightarrow>
     sql_limit limit (sort_key (\<lambda>r. (row_timestamp r, row_id r))
       (filter (\<lambda>r. \<forall>c \<in> set conds. condition_holds params r c) (db_events db))))"

definition event_of_row :: "libs \<Rightarrow> event_row \<Rightarrow> event" where
  "event_of_row X r =
     \<lparr>q_id = row_id r, q_session_id = row_session_id r, q_timestamp = row_timestamp r,
      q_category = row_category r, q_event_type = row_event_type r, q_vm_id = row_vm_id r,
      q_correlation_id = row_correlation_id r, q_duration_ms = row_duration_ms r,
      q_success = map_option (\<lambda>v. v \<noteq> 0) (row_success r),
      q_data = (case json_from_slice X (bytes_of (row_data r)) of None \<Rightarrow> JObject [] | Some j \<Rightarrow> j)\<rparr>"

definition query_events :: "libs \<Rightarrow> sqlite_conn \<Rightarrow> event_filters \<Rightarrow> anyhow + event list" where
  "query_events X C filters =
     (let q = build_query filters in
      select_rows C (query_text (fst q) (f_limit filters)) (snd q) (event_of_row X)
        (selected_rows q (f_limit filters) (cn_db C)))"

text \<open>Sessions, newest first; sessions with equal start times come in an order SQLite leaves
  open, here the order of insertion. A row has the count of the events beside the session.\<close>

definition sessions_text :: string where
  "sessions_text = ''SELECT s.id, s.started_at, s.stopped_at, s.server_version, (SELECT COUNT(*) FROM events e WHERE e.session_id = s.id) as event_count FROM sessions s ORDER BY s.started_at DESC''"

definition session_rows :: "events_db \<Rightarrow> (session_row \<times> nat) list" where
  "session_rows db =
     map (\<lambda>s. (s, length (filter (\<lambda>r. row_session_id r = sess_id s) (db_events db))))
       (rev (sort_key sess_started_at (rev (db_sessions db))))"

definition session_info_of_row :: "session_row \<times> nat \<Rightarrow> session_info" where
  "session_info_of_row = (\<lambda>(s, event_count).
     \<lparr>si_id = sess_id s, si_started_at = sess_started_at s, si_stopped_at = sess_stopped_at s,
      si_server_version = sess_server_version s, si_event_count = event_count\<rparr>)"

definition list_sessions :: "sqlite_conn \<Rightarrow> anyhow + session_info list" where
  "list_sessions C = select_rows C sessions_text [] session_info_of_row (session_rows (cn_db C))"

subsection \<open>What a query means\<close>

text \<open>The rows the filters ask for, by the values of their fields, and the first error of a
  connection on a statement that finds \<open>n\<close> rows.\<close>

definition sql_eq :: "string option \<Rightarrow> string option \<Rightarrow> bool" where
  "sql_eq wanted column = (case wanted of None \<Rightarrow> True | Some v \<Rightarrow> column = Some v)"

definition row_matches :: "event_filters \<Rightarrow> event_row \<Rightarrow> bool" where
  "row_matches f r \<longleftrightarrow>
     sql_eq (f_session_id f) (Some (row_session_id r)) \<and> sql_eq (f_vm_id f) (row_vm_id r) \<and>
     sql_eq (f_category f) (Some (row_category r)) \<and> sql_eq (f_event_type f) (Some (row_event_type r))"

definition matching_rows :: "event_filters \<Rightarrow> events_db \<Rightarrow> event_row list" where
  "matching_rows f db = sql_limit (f_limit f)
     (sort_key (\<lambda>r. (row_timestamp r, row_id r)) (filter (row_matches f) (db_events db)))"

definition conn_error :: "sqlite_conn \<Rightarrow> string \<Rightarrow> string list \<Rightarrow> nat \<Rightarrow> string option" where
  "conn_error C sql params n =
     (case List.find (\<lambda>r. \<not> is_ok r) (cn_prepare C sql # cn_query C params # map (cn_row C) [0..<Suc n]) of
        Some (Inl e) \<Rightarrow> Some e
      | _ \<Rightarrow> None)"

lemma selected_rows_build: "selected_rows (build_query f) (f_limit f) db = matching_rows f db"
proof -
  have "(\<forall>c \<in> set (fst (build_query f)). condition_holds (snd (build_query f)) r c) \<longleftrightarrow> row_matches f r" for r
    by (auto simp: build_query_def push_condition_def condition_holds_def row_matches_def sql_eq_def
        column_value_def nth_append split: option.splits)
  then show ?thesis
    by (simp add: selected_rows_def matching_rows_def case_prod_beta)
qed

lemma fetch_rows_error:
  "fetch_rows step decode n rows =
     (case List.find (\<lambda>r. \<not> is_ok r) (map step [n..<Suc (n + length rows)]) of
        Some (Inl e) \<Rightarrow> Inl (anyhow e)
      | _ \<Rightarrow> Inr (map decode rows))"
proof (induction rows arbitrary: n)
  case (Cons r rows)
  show ?case
  proof (cases "step n")
    case (Inr u)
    have "[n..<Suc (n + length (r # rows))] = n # [Suc n..<Suc (Suc n + length rows)]"
      by (simp add: upt_conv_Cons del: upt_Suc)
    then show ?thesis
      using Cons [of "Suc n"] Inr by (auto simp del: upt_Suc split: option.splits sum.splits)
  qed (simp add: upt_conv_Cons del: upt_Suc)
qed (auto split: sum.splits)

lemma select_rows_error:
  "select_rows C sql params decode rows =
     (case conn_error C sql params (length rows) of
        Some e \<Rightarrow> Inl (anyhow e)
      | None \<Rightarrow> Inr (map decode rows))"
  by (auto simp: select_rows_def conn_error_def fetch_rows_error simp del: upt_Suc split: sum.splits option.splits)

lemma query_events_spec:
  "query_events X C f =
     (let q = build_query f; rows = matching_rows f (cn_db C) in
      case conn_error C (query_text (fst q) (f_limit f)) (snd q) (length rows) of
        Some e \<Rightarrow> Inl (anyhow e)
      | None \<Rightarrow> Inr (map (event_of_row X) rows))"
  unfolding query_events_def Let_def selected_rows_build select_rows_error ..

subsection \<open>What emitting does to the handle\<close>

text \<open>Events are appended to the channel and nothing else is: no request to close, and the handle
  stays what it was apart from the counter.\<close>

definition emits :: "event_store \<Rightarrow> event_store \<Rightarrow> bool" where
  "emits es es' \<longleftrightarrow> (\<exists>rs n. es' = es\<lparr>es_channel := es_channel es @ map Event rs, es_next_id := n\<rparr> \<and>
     (es_open es \<or> rs = []))"

lemma emits_refl [simp]: "emits es es"
  by (cases es) (auto simp: emits_def intro!: exI [of _ "[]"])

lemma emits_trans:
  assumes "emits a b" "emits b c"
  shows "emits a c"
proof -
  obtain rs n ss m where "b = a\<lparr>es_channel := es_channel a @ map Event rs, es_next_id := n\<rparr>"
    "c = b\<lparr>es_channel := es_channel b @ map Event ss, es_next_id := m\<rparr>" "es_open a \<or> rs = []" "es_open b \<or> ss = []"
    using assms unfolding emits_def by blast
  then show ?thesis
    unfolding emits_def by (intro exI [of _ "rs @ ss"] exI [of _ m]) auto
qed

lemma emits_emit_inner: "emits es (snd (emit_inner X clock t c v i d ok data es))"
proof (cases "should_persist (es_persist_mode es) t \<and> es_open es")
  case True
  then have "\<exists>r. snd (emit_inner X clock t c v i d ok data es) =
      es\<lparr>es_channel := es_channel es @ map Event [r], es_next_id := es_next_id es + 1\<rparr>"
    by (cases es) (simp add: emit_inner_def Let_def tx_send_def)
  with True show ?thesis
    unfolding emits_def by blast
next
  case False
  then have "snd (emit_inner X clock t c v i d ok data es) =
      es\<lparr>es_channel := es_channel es @ map Event [], es_next_id := es_next_id es + 1\<rparr>"
    by (cases es) (auto simp: emit_inner_def Let_def tx_send_def)
  then show ?thesis
    unfolding emits_def by blast
qed

text \<open>The messages that were sent from one state of the handle to a later one.\<close>

definition sent_between :: "event_store \<Rightarrow> event_store \<Rightarrow> writer_msg list" where
  "sent_between es es' = drop (length (es_channel es)) (es_channel es')"

lemma sent_between_emits:
  assumes "emits es es'"
  obtains rs where "sent_between es es' = map Event rs"
  using assms by (auto simp: emits_def sent_between_def)

lemma emits_emit [simp]:
  "emits es (snd (emit X clock t c v i data es))" "emits es (snd (emit_with_duration X clock t c v i d ok data es))"
  "emits es (snd (emit_log X clock c v m es))" "emits es (snd (clawpot_event X clock t c v data es))"
  "emits es (snd (clawpot_log X clock c v m es))"
  by (simp_all add: emit_def emit_with_duration_def emit_log_def clawpot_event_def clawpot_log_def emits_emit_inner)

subsection \<open>The log as a concurrent system\<close>

text \<open>
  The ghost fields record the messages the channel accepted and whether a transaction ever
  failed. Producers send while a handle is left, and take numbers from the counter they share in
  steps of their own; the task steps at any time.
\<close>

record log_state =
  l_sent :: "writer_msg list"
  l_alive :: bool
  l_lost :: bool
  l_es :: event_store
  l_writer :: writer

inductive log_step :: "log_state \<Rightarrow> log_state \<Rightarrow> bool" where
  send: "l_alive s \<Longrightarrow>
    log_step s (s\<lparr>l_sent := l_sent s @ (if es_open (l_es s) then [m] else []), l_es := tx_send m (l_es s)\<rparr>)"
| number: "log_step s (s\<lparr>l_es := (l_es s)\<lparr>es_next_id := n\<rparr>\<rparr>)"
| drop_handles: "log_step s (s\<lparr>l_alive := False\<rparr>)"
| work: "writer_step commits updates (l_alive s) now (l_es s, l_writer s) = (es, w) \<Longrightarrow>
    log_step s (s\<lparr>l_lost := l_lost s \<or> \<not> commits, l_es := es, l_writer := w\<rparr>)"

inductive_cases log_stepE: "log_step s t"

definition log_init :: "string \<Rightarrow> persist_mode \<Rightarrow> events_db \<Rightarrow> log_state" where
  "log_init session mode db =
     \<lparr>l_sent = [], l_alive = True, l_lost = False, l_es = EventStore_new session mode, l_writer = writer_new db\<rparr>"

definition events_in :: "writer_msg list \<Rightarrow> event_record list" where
  "events_in ms = List.map_filter (\<lambda>m. case m of Event r \<Rightarrow> Some r | Close \<Rightarrow> None) ms"

lemma events_in_simps [simp]:
  "events_in [] = []" "events_in (Event r # ms) = r # events_in ms" "events_in (Close # ms) = events_in ms"
  "events_in (ms @ ns) = events_in ms @ events_in ns"
  by (simp_all add: events_in_def map_filter_def)

text \<open>The event a row stores; the rows added since the database had \<open>n\<close> rows.\<close>

definition record_of_row :: "event_row \<Rightarrow> event_record" where
  "record_of_row r =
     \<lparr>er_timestamp = row_timestamp r, er_category = row_category r, er_event_type = row_event_type r,
      er_vm_id = row_vm_id r, er_correlation_id = row_correlation_id r,
      er_duration_ms = row_duration_ms r, er_success = map_option (\<lambda>v. v \<noteq> 0) (row_success r),
      er_data = row_data r\<rparr>"

definition logged :: "nat \<Rightarrow> events_db \<Rightarrow> event_record list" where
  "logged n db = map record_of_row (drop n (db_events db))"

lemma fold_insert_event:
  "length (db_events db) \<le> length (db_events (fold (insert_event sid) rs db)) \<and>
   (n \<le> length (db_events db) \<longrightarrow> logged n (fold (insert_event sid) rs db) = logged n db @ rs)"
proof (induction rs arbitrary: db)
  case (Cons r rs)
  have "logged n (insert_event sid r db) = logged n db @ [r]" if "n \<le> length (db_events db)"
    using that by (simp add: logged_def insert_event_def record_of_row_def option.map_comp o_def
        option.map_id [unfolded id_def])
  moreover have "length (db_events (insert_event sid r db)) = Suc (length (db_events db))"
    by (simp add: insert_event_def)
  ultimately show ?case
    using Cons.IH [of "insert_event sid r db"] by auto
qed simp

text \<open>What flushing does to the database: rows of earlier flushes stay, the batch goes after
  them or is lost as a whole.\<close>

lemma w_flush_simps:
  assumes "n \<le> length (db_events (w_db w))"
  shows "w_batch (w_flush commits sid w) = []" "w_phase (w_flush commits sid w) = w_phase w"
    "n \<le> length (db_events (w_db (w_flush commits sid w)))"
    "logged n (w_db (w_flush commits sid w)) = logged n (w_db w) @ (if commits then w_batch w else [])"
  using fold_insert_event [of "w_db w" sid "w_batch w" n] assms
  by (auto simp: w_flush_def flush_batch_def flush_batch_inner_def)

lemma close_session_row_logged [simp]:
  "logged n (close_session_row u now sid db) = logged n db"
  "db_events (close_session_row u now sid db) = db_events db"
  by (simp_all add: logged_def close_session_row_def)

text \<open>The invariant: while the task runs, the messages sent are those consumed followed by
  those in the channel, and the events consumed are those stored followed by the batch, up to
  batches whose transaction failed. Before a close request is consumed, none was.\<close>

definition log_inv :: "nat \<Rightarrow> log_state \<Rightarrow> bool" where
  "log_inv n s \<longleftrightarrow>
     (let w = l_writer s; es = l_es s in
       n \<le> length (db_events (w_db w)) \<and>
       (es_open es \<longleftrightarrow> w_phase w \<noteq> Exited) \<and>
       (if w_phase w = Exited then
          subseq (logged n (w_db w)) (events_in (l_sent s)) \<and>
          (\<not> l_lost s \<longrightarrow> prefix (events_in (takeWhile (\<lambda>m. m \<noteq> Close) (l_sent s))) (logged n (w_db w)) \<and>
             prefix (logged n (w_db w)) (events_in (l_sent s)))
        else \<exists>consumed. l_sent s = consumed @ es_channel es \<and>
          subseq (logged n (w_db w) @ w_batch w) (events_in consumed) \<and>
          (\<not> l_lost s \<longrightarrow> logged n (w_db w) @ w_batch w = events_in consumed) \<and>
          (w_phase w \<in> {Receiving, Draining} \<longrightarrow> Close \<notin> set consumed) \<and>
          (w_phase w = ClosingDrain \<longrightarrow> Close \<in> set consumed) \<and>
          (w_phase w = Finishing \<longrightarrow> Close \<in> set consumed \<or> \<not> l_alive s \<and> es_channel es = [])))"

lemma log_inv_init: "n = length (db_events db) \<Longrightarrow> log_inv n (log_init session mode db)"
  by (simp add: log_inv_def log_init_def EventStore_new_def writer_new_def logged_def)

lemma log_inv_send:
  assumes "log_inv n s" "l_alive s"
  shows "log_inv n (s\<lparr>l_sent := l_sent s @ (if es_open (l_es s) then [m] else []), l_es := tx_send m (l_es s)\<rparr>)"
  using assms by (auto simp: log_inv_def tx_send_def Let_def)

lemma log_inv_number: "log_inv n s \<Longrightarrow> log_inv n (s\<lparr>l_es := (l_es s)\<lparr>es_next_id := m\<rparr>\<rparr>)"
  by (auto simp: log_inv_def Let_def)

lemma log_inv_drop: "log_inv n s \<Longrightarrow> log_inv n (s\<lparr>l_alive := False\<rparr>)"
  by (auto simp: log_inv_def Let_def)

text \<open>The running invariant, with its witness exposed.\<close>

definition run_inv :: "nat \<Rightarrow> log_state \<Rightarrow> writer_msg list \<Rightarrow> bool" where
  "run_inv n s consumed \<longleftrightarrow>
     n \<le> length (db_events (w_db (l_writer s))) \<and> es_open (l_es s) \<and>
     l_sent s = consumed @ es_channel (l_es s) \<and>
     subseq (logged n (w_db (l_writer s)) @ w_batch (l_writer s)) (events_in consumed) \<and>
     (\<not> l_lost s \<longrightarrow> logged n (w_db (l_writer s)) @ w_batch (l_writer s) = events_in consumed) \<and>
     (w_phase (l_writer s) \<in> {Receiving, Draining} \<longrightarrow> Close \<notin> set consumed) \<and>
     (w_phase (l_writer s) = ClosingDrain \<longrightarrow> Close \<in> set consumed) \<and>
     (w_phase (l_writer s) = Finishing \<longrightarrow> Close \<in> set consumed \<or> \<not> l_alive s \<and> es_channel (l_es s) = [])"

lemma log_inv_run:
  "w_phase (l_writer s) \<noteq> Exited \<Longrightarrow> log_inv n s \<longleftrightarrow> (\<exists>consumed. run_inv n s consumed)"
  unfolding log_inv_def run_inv_def Let_def by auto

abbreviation after_work :: "log_state \<Rightarrow> bool \<Rightarrow> event_store \<times> writer \<Rightarrow> log_state" where
  "after_work s commits r \<equiv>
     s\<lparr>l_lost := l_lost s \<or> \<not> commits, l_es := fst r, l_writer := snd r\<rparr>"

lemma subseq_snoc: "subseq (a @ b) c \<Longrightarrow> subseq (a @ b @ [r]) (c @ [r])"
  using list_emb_append_mono [of "(=)" "a @ b" c "[r]" "[r]"] by simp

lemma snoc_cong: "a @ b = c \<Longrightarrow> a @ b @ [r] = c @ [r]"
  by auto

text \<open>Consuming an event or a close request.\<close>

lemma run_inv_event:
  assumes "run_inv n s consumed" "es_channel (l_es s) = Event r # q" "w_phase (l_writer s) \<noteq> Finishing"
    "w_phase (l_writer s) = ClosingDrain \<longleftrightarrow> ph = ClosingDrain" "ph \<noteq> Finishing" "ph \<noteq> Exited"
    "w_phase (l_writer s) \<noteq> Exited"
  shows "run_inv n (after_work s c ((l_es s)\<lparr>es_channel := q\<rparr>,
      (l_writer s)\<lparr>w_batch := w_batch (l_writer s) @ [r], w_phase := ph\<rparr>)) (consumed @ [Event r])"
  using assms unfolding run_inv_def
  by (cases "w_phase (l_writer s)") (auto intro: subseq_snoc dest: snoc_cong [of _ _ _ r])

lemma run_inv_close:
  assumes "run_inv n s consumed" "es_channel (l_es s) = Close # q" "ph = ClosingDrain \<or> ph = Finishing"
  shows "run_inv n (after_work s c ((l_es s)\<lparr>es_channel := q\<rparr>, (l_writer s)\<lparr>w_phase := ph\<rparr>))
    (consumed @ [Close])"
  using assms unfolding run_inv_def by auto

lemma run_inv_flush:
  assumes inv: "run_inv n s consumed" and phase: "w_phase (l_writer s) = Draining"
  shows "run_inv n (after_work s c (l_es s, (w_flush c sid (l_writer s))\<lparr>w_phase := Receiving\<rparr>)) consumed"
proof -
  have n: "n \<le> length (db_events (w_db (l_writer s)))"
    using inv by (simp add: run_inv_def)
  have "subseq (logged n (w_db (l_writer s))) (events_in consumed)"
    using inv unfolding run_inv_def by (meson subseq_order.trans subseq_rev_drop_many subseq_order.refl)
  then show ?thesis
    using inv phase w_flush_simps [OF n, of c sid] unfolding run_inv_def by auto
qed

lemma run_inv_finish:
  assumes inv: "run_inv n s consumed" and phase: "w_phase (l_writer s) = Finishing"
  shows "log_inv n (after_work s c (writer_step c u (l_alive s) now (l_es s, l_writer s)))"
proof -
  have n: "n \<le> length (db_events (w_db (l_writer s)))"
    using inv by (simp add: run_inv_def)
  note flush = w_flush_simps [OF n, of c "es_session_id (l_es s)"]
  have sub: "subseq (logged n (w_db (l_writer s))) (events_in consumed)"
    using inv unfolding run_inv_def by (meson subseq_order.trans subseq_rev_drop_many subseq_order.refl)
  have sent: "l_sent s = consumed @ es_channel (l_es s)"
    using inv by (simp add: run_inv_def)
  have "prefix (events_in (takeWhile (\<lambda>m. m \<noteq> Close) (l_sent s))) (events_in consumed)"
  proof (cases "Close \<in> set consumed")
    case True
    then have "takeWhile (\<lambda>m. m \<noteq> Close) (l_sent s) = takeWhile (\<lambda>m. m \<noteq> Close) consumed"
      by (simp add: sent takeWhile_append1)
    then show ?thesis
      by (metis events_in_simps(4) prefixI takeWhile_dropWhile_id)
  next
    case False
    then have "es_channel (l_es s) = []"
      using inv phase by (auto simp: run_inv_def)
    then show ?thesis
      by (metis events_in_simps(4) prefixI sent append_Nil2 takeWhile_dropWhile_id)
  qed
  then show ?thesis
    using inv phase flush sub
    unfolding log_inv_def run_inv_def writer_step_def Let_def
    by (auto simp: Let_def sent intro: subseq_order.trans subseq_rev_drop_many)
qed

lemma writer_same_phase [simp]:
  "w_phase w = p \<Longrightarrow> w\<lparr>w_batch := b, w_phase := p\<rparr> = w\<lparr>w_batch := b\<rparr>"
  "w_phase w = p \<Longrightarrow> w\<lparr>w_phase := p\<rparr> = w"
  by (cases w, simp)+

lemma log_inv_work:
  assumes inv: "log_inv n s"
  shows "log_inv n (after_work s c (writer_step c u (l_alive s) now (l_es s, l_writer s)))"
proof (cases "w_phase (l_writer s) = Exited")
  case True
  then show ?thesis
    using inv by (auto simp: log_inv_def writer_step_def Let_def)
next
  case False
  then obtain consumed where run: "run_inv n s consumed"
    using inv log_inv_run by blast
  let ?t = "after_work s c (writer_step c u (l_alive s) now (l_es s, l_writer s))"
  have "w_phase (l_writer s) = Finishing \<or> (\<exists>consumed'. run_inv n ?t consumed')"
  proof (cases "es_channel (l_es s)")
    case Nil
    show ?thesis
    proof (cases "w_phase (l_writer s)")
      case Draining
      then show ?thesis
        using run_inv_flush [OF run Draining, of c "es_session_id (l_es s)"] Nil
        by (auto simp: writer_step_def Let_def)
    qed (use run Nil False in \<open>auto simp: run_inv_def writer_step_def Let_def\<close>)
  next
    case (Cons m q)
    show ?thesis
    proof (cases m)
      case (Event r)
      then show ?thesis
        using run_inv_event [OF run, of r q "if w_phase (l_writer s) = ClosingDrain then ClosingDrain else Draining" c]
          Cons False
        by (cases "w_phase (l_writer s)") (auto simp: writer_step_def Let_def)
    next
      case Close
      then show ?thesis
        using run_inv_close [OF run, of q ClosingDrain c] run_inv_close [OF run, of q Finishing c] Cons False
        by (cases "w_phase (l_writer s)") (auto simp: writer_step_def Let_def)
    qed
  qed
  moreover have "w_phase (l_writer s) \<noteq> Finishing \<Longrightarrow> w_phase (l_writer ?t) \<noteq> Exited"
    using False by (cases "w_phase (l_writer s)")
      (auto simp: writer_step_def Let_def split: list.splits writer_msg.splits)
  ultimately show ?thesis
    using run_inv_finish [OF run] log_inv_run [of ?t n] by blast
qed

lemma log_step_inv:
  assumes "log_step s t" and "log_inv n s"
  shows "log_inv n t"
  using assms
proof (induction rule: log_step.induct)
  case (send s m)
  then show ?case
    by (intro log_inv_send)
next
  case (number s m)
  then show ?case
    by (rule log_inv_number)
next
  case (drop_handles s)
  then show ?case
    by (rule log_inv_drop)
next
  case (work commits updates s now es w)
  then show ?case
    using log_inv_work [of n s commits updates now] by simp
qed

lemma log_reachable_inv:
  "log_step\<^sup>*\<^sup>* (log_init session mode db) s \<Longrightarrow> log_inv (length (db_events db)) s"
  by (induction rule: rtranclp_induct) (auto intro: log_inv_init log_step_inv)

text \<open>Emitting is a run of the log, in which every message is accepted while the receiver is there.\<close>

lemma send_steps:
  assumes "l_alive s" "es_open (l_es s)"
  shows "log_step\<^sup>*\<^sup>* s (s\<lparr>l_sent := l_sent s @ ms, l_es := (l_es s)\<lparr>es_channel := es_channel (l_es s) @ ms\<rparr>\<rparr>)"
proof (induction ms rule: rev_induct)
  case (snoc m ms)
  let ?t = "s\<lparr>l_sent := l_sent s @ ms, l_es := (l_es s)\<lparr>es_channel := es_channel (l_es s) @ ms\<rparr>\<rparr>"
  have "log_step ?t (?t\<lparr>l_sent := l_sent ?t @ [m], l_es := tx_send m (l_es ?t)\<rparr>)"
    using send [of ?t m] assms by simp
  then have "log_step ?t (s\<lparr>l_sent := l_sent s @ ms @ [m], l_es := (l_es s)\<lparr>es_channel := es_channel (l_es s) @ ms @ [m]\<rparr>\<rparr>)"
    using assms(2) by (simp add: tx_send_def)
  with snoc show ?case
    by (rule rtranclp.rtrancl_into_rtrancl)
qed simp

lemma emits_log_steps:
  assumes "emits (l_es s) es'" and alive: "l_alive s"
  shows "log_step\<^sup>*\<^sup>* s (s\<lparr>l_sent := l_sent s @ sent_between (l_es s) es', l_es := es'\<rparr>)"
proof -
  obtain rs n where es': "es' = (l_es s)\<lparr>es_channel := es_channel (l_es s) @ map Event rs, es_next_id := n\<rparr>"
    and rs: "es_open (l_es s) \<or> rs = []"
    using assms(1) unfolding emits_def by blast
  let ?t = "s\<lparr>l_sent := l_sent s @ map Event rs, l_es := (l_es s)\<lparr>es_channel := es_channel (l_es s) @ map Event rs\<rparr>\<rparr>"
  have "log_step\<^sup>*\<^sup>* s ?t"
    using send_steps [OF alive, of "map Event rs"] rs by (cases "rs = []") simp_all
  moreover have "log_step ?t (s\<lparr>l_sent := l_sent s @ sent_between (l_es s) es', l_es := es'\<rparr>)"
    using number [of ?t n] by (simp add: es' sent_between_def)
  ultimately show ?thesis
    by (rule rtranclp.rtrancl_into_rtrancl)
qed

text \<open>While a handle is left, the writer exits only on request, so until then messages are accepted.\<close>

lemma log_step_exit:
  assumes "log_step s t" "log_inv n s" "l_alive t" "w_phase (l_writer t) = Exited"
  shows "l_alive s \<and> (w_phase (l_writer s) = Exited \<or> Close \<in> set (l_sent t))"
  using assms
proof (cases rule: log_step.cases)
  case (work commits updates now es w)
  show ?thesis
  proof (cases "w_phase (l_writer s) = Exited")
    case False
    then have "w_phase (l_writer s) = Finishing"
      using work assms(4) by (cases "w_phase (l_writer s)")
        (auto simp: writer_step_def Let_def split: list.splits writer_msg.splits if_splits)
    moreover obtain consumed where "run_inv n s consumed"
      using False assms(2) log_inv_run by blast
    ultimately show ?thesis
      using work assms(3) by (auto simp: run_inv_def)
  qed (use work assms(3) in simp)
qed auto

lemma log_step_sent: "log_step s t \<Longrightarrow> set (l_sent s) \<subseteq> set (l_sent t)"
  by (induction rule: log_step.induct) auto

lemma log_open:
  assumes "log_step\<^sup>*\<^sup>* (log_init session mode db) s" "l_alive s" "Close \<notin> set (l_sent s)"
  shows "es_open (l_es s)"
proof -
  have "l_alive s \<longrightarrow> w_phase (l_writer s) = Exited \<longrightarrow> Close \<in> set (l_sent s)"
    using assms(1)
  proof (induction rule: rtranclp_induct)
    case base
    then show ?case
      by (simp add: log_init_def writer_new_def)
  next
    case (step s t)
    then show ?case
      using log_step_exit [OF step(2) log_reachable_inv [OF step(1)]] log_step_sent [OF step(2)] by blast
  qed
  then show ?thesis
    using assms(2,3) log_reachable_inv [OF assms(1)] by (auto simp: log_inv_def Let_def)
qed

lemma log_steps_mode: "log_step\<^sup>*\<^sup>* s t \<Longrightarrow> es_persist_mode (l_es t) = es_persist_mode (l_es s)"
proof (induction rule: rtranclp_induct)
  case (step t u)
  have "es_persist_mode (l_es u) = es_persist_mode (l_es t)"
    using step(2) by (cases rule: log_step.cases)
      (auto simp: tx_send_def writer_step_def Let_def split: writer_phase.splits list.splits writer_msg.splits if_splits)
  with step(3) show ?case
    by simp
qed simp

text \<open>What the invariant says about the database.\<close>

lemma log_inv_stored:
  assumes "log_inv n s"
  shows "subseq (logged n (w_db (l_writer s))) (events_in (l_sent s))"
    "\<not> l_lost s \<Longrightarrow> prefix (logged n (w_db (l_writer s))) (events_in (l_sent s))"
    "\<not> l_lost s \<Longrightarrow> w_phase (l_writer s) = Exited \<Longrightarrow>
       prefix (events_in (takeWhile (\<lambda>m. m \<noteq> Close) (l_sent s))) (logged n (w_db (l_writer s)))"
proof -
  let ?stored = "logged n (w_db (l_writer s))"
  have "subseq ?stored (events_in (l_sent s)) \<and> (\<not> l_lost s \<longrightarrow> prefix ?stored (events_in (l_sent s)))"
  proof (cases "w_phase (l_writer s) = Exited")
    case True
    then show ?thesis
      using assms by (simp add: log_inv_def Let_def)
  next
    case False
    then obtain consumed where run: "run_inv n s consumed"
      using assms log_inv_run by blast
    have "subseq ?stored (?stored @ w_batch (l_writer s))"
      by (simp add: subseq_rev_drop_many)
    then have "subseq ?stored (events_in (l_sent s))"
      using run unfolding run_inv_def by (metis events_in_simps(4) subseq_order.trans subseq_rev_drop_many)
    moreover have "\<not> l_lost s \<longrightarrow> prefix ?stored (events_in (l_sent s))"
      using run unfolding run_inv_def by (metis append.assoc events_in_simps(4) prefixI)
    ultimately show ?thesis
      by blast
  qed
  then show "subseq ?stored (events_in (l_sent s))"
    "\<not> l_lost s \<Longrightarrow> prefix ?stored (events_in (l_sent s))"
    by blast+
  show "prefix (events_in (takeWhile (\<lambda>m. m \<noteq> Close) (l_sent s))) ?stored"
    if "\<not> l_lost s" "w_phase (l_writer s) = Exited"
    using assms that by (simp add: log_inv_def Let_def)
qed

text \<open>C9: The event log neither invents, duplicates nor reorders events, in every interleaving
  of senders and writer: what is stored is always a subsequence of what was sent; while every
  transaction commits it is a prefix, and nothing sent before a close request is missing once
  the writer has exited.\<close>

theorem event_log_faithful:
  assumes "log_step\<^sup>*\<^sup>* (log_init session mode db) s"
  shows "let stored = logged (length (db_events db)) (w_db (l_writer s)) in
    subseq stored (events_in (l_sent s)) \<and>
    (\<not> l_lost s \<longrightarrow> prefix stored (events_in (l_sent s))) \<and>
    (\<not> l_lost s \<longrightarrow> w_phase (l_writer s) = Exited \<longrightarrow>
       prefix (events_in (takeWhile (\<lambda>m. m \<noteq> Close) (l_sent s))) stored)"
  using log_inv_stored [OF log_reachable_inv [OF assms]] by (simp add: Let_def)

subsection \<open>Closing\<close>

text \<open>The writer alone, every transaction committing.\<close>

definition writer_alone :: "string \<Rightarrow> log_state \<Rightarrow> log_state" where
  "writer_alone now s = after_work s True (writer_step True True (l_alive s) now (l_es s, l_writer s))"

definition closing_rank :: "log_state \<Rightarrow> nat" where
  "closing_rank s = 2 * length (es_channel (l_es s)) +
     (case w_phase (l_writer s) of Receiving \<Rightarrow> 2 | Draining \<Rightarrow> 3 | ClosingDrain \<Rightarrow> 2 | Finishing \<Rightarrow> 1 | Exited \<Rightarrow> 0)"

text \<open>A close request is on its way to being served.\<close>

definition closing :: "log_state \<Rightarrow> bool" where
  "closing s \<longleftrightarrow> Close \<in> set (es_channel (l_es s)) \<or> w_phase (l_writer s) \<in> {ClosingDrain, Finishing, Exited}"

lemma closing_step:
  assumes "closing s" "w_phase (l_writer s) \<noteq> Exited"
  shows "closing (writer_alone now s) \<and> closing_rank (writer_alone now s) < closing_rank s"
  using assms
  by (cases "w_phase (l_writer s)"; cases "es_channel (l_es s)")
    (auto simp: closing_def closing_rank_def writer_alone_def writer_step_def Let_def w_flush_def
      flush_batch_def split: writer_msg.splits prod.splits)

lemma closing_exits:
  "closing s \<Longrightarrow> w_phase (l_writer ((writer_alone now ^^ closing_rank s) s)) = Exited"
proof (induction "closing_rank s" arbitrary: s rule: less_induct)
  case less
  have stay: "w_phase (l_writer ((writer_alone now ^^ k) t)) = Exited" if "w_phase (l_writer t) = Exited" for t k
    using that by (induction k) (auto simp: writer_alone_def writer_step_def Let_def)
  show ?case
  proof (cases "w_phase (l_writer s) = Exited")
    case True
    then show ?thesis
      by (rule stay)
  next
    case False
    let ?t = "writer_alone now s"
    have t: "closing ?t" "closing_rank ?t < closing_rank s"
      using closing_step [OF less.prems False] by auto
    then obtain d where d: "closing_rank s = d + Suc (closing_rank ?t)"
      by (metis add.commute less_iff_Suc_add add_Suc_right)
    have "(writer_alone now ^^ closing_rank s) s =
        (writer_alone now ^^ d) ((writer_alone now ^^ closing_rank ?t) ?t)"
      unfolding d funpow_add comp_def by (simp add: funpow_swap1)
    then show ?thesis
      using stay less.hyps [OF t(2,1)] by simp
  qed
qed

lemma writer_alone_steps: "log_step\<^sup>*\<^sup>* s ((writer_alone now ^^ k) s)"
proof (induction k)
  case (Suc k)
  have "log_step t (writer_alone now t)" for t
    using work [of True True t now] by (cases "writer_step True True (l_alive t) now (l_es t, l_writer t)")
      (auto simp: writer_alone_def)
  with Suc show ?case
    by (auto intro: rtranclp.rtrancl_into_rtrancl)
qed simp

lemma writer_alone_ghost:
  "l_sent ((writer_alone now ^^ k) s) = l_sent s" "l_lost ((writer_alone now ^^ k) s) = l_lost s"
  by (induction k) (simp_all add: writer_alone_def)

text \<open>A close request that was sent is being served.\<close>

lemma close_sent_closing:
  assumes "log_inv n s" "Close \<in> set (l_sent s)"
  shows "closing s"
proof (cases "w_phase (l_writer s) = Exited")
  case False
  then obtain consumed where "run_inv n s consumed"
    using assms(1) log_inv_run by blast
  then show ?thesis
    using assms(2) unfolding run_inv_def closing_def by (cases "w_phase (l_writer s)") auto
qed (simp add: closing_def)

text \<open>C24: Closing flushes and ends: once a close request is in the channel, the writer left to
  itself exits within the number of steps \<open>closing_rank\<close> counts, and if no transaction failed
  every event sent before the first close request is then stored, in order.\<close>

theorem close_session_flushes:
  assumes reach: "log_step\<^sup>*\<^sup>* (log_init session mode db) s" and "\<not> l_lost s"
    and close: "Close \<in> set (es_channel (l_es s))"
  shows "let t = (writer_alone now ^^ closing_rank s) s in
    w_phase (l_writer t) = Exited \<and>
    prefix (events_in (takeWhile (\<lambda>m. m \<noteq> Close) (l_sent s))) (logged (length (db_events db)) (w_db (l_writer t)))"
proof -
  let ?t = "(writer_alone now ^^ closing_rank s) s"
  have exit: "w_phase (l_writer ?t) = Exited"
    using close by (intro closing_exits) (simp add: closing_def)
  have "log_inv (length (db_events db)) ?t"
    using reach writer_alone_steps by (intro log_reachable_inv) (rule rtranclp_trans)
  then show ?thesis
    using exit assms(2) writer_alone_ghost [of "closing_rank s" now s] log_inv_stored(3) [of _ ?t]
    by (simp add: Let_def)
qed

subsection \<open>Examples\<close>

definition sample_record :: event_record where
  "sample_record =
     \<lparr>er_timestamp = ''2026-01-01T00:00:00.000Z'', er_category = ''vm'', er_event_type = ''vm.exec'',
      er_vm_id = Some ''v'', er_correlation_id = None, er_duration_ms = Some 3, er_success = Some True,
      er_data = ''{}''\<rparr>"

definition empty_db :: events_db where
  "empty_db = \<lparr>db_sessions = [], db_events = [], db_last_id = 0\<rparr>"

definition sample_log :: log_state where
  "sample_log =
     \<lparr>l_sent = [Event sample_record, Close], l_alive = True, l_lost = False,
      l_es = \<lparr>es_channel = [Event sample_record, Close], es_open = True, es_session_id = ''s'',
        es_persist_mode = All, es_next_id = 1\<rparr>, l_writer = writer_new empty_db\<rparr>"

lemma sample_log_reachable: "log_step\<^sup>*\<^sup>* (log_init ''s'' All empty_db) sample_log"
proof -
  let ?a = "log_init ''s'' All empty_db"
  let ?b = "?a\<lparr>l_sent := [Event sample_record], l_es := tx_send (Event sample_record) (l_es ?a)\<rparr>"
  have "log_step ?a ?b"
    using send [of ?a "Event sample_record"] by (simp add: log_init_def EventStore_new_def)
  moreover have "log_step ?b sample_log"
    using send [of ?b Close]
    by (simp add: log_init_def EventStore_new_def sample_log_def tx_send_def writer_new_def)
  ultimately show ?thesis
    by auto
qed

theorem event_log_faithful_witness:
  "prefix (logged 0 (w_db (l_writer sample_log))) [sample_record]"
  using event_log_faithful [OF sample_log_reachable]
  by (simp add: sample_log_def empty_db_def Let_def)

theorem close_session_flushes_witness:
  "prefix [sample_record]
     (logged 0 (w_db (l_writer ((writer_alone ''t'' ^^ closing_rank sample_log) sample_log))))"
proof -
  have "\<not> l_lost sample_log" "Close \<in> set (es_channel (l_es sample_log))"
    by (simp_all add: sample_log_def)
  from close_session_flushes [OF sample_log_reachable this, of "''t''"] show ?thesis
    by (simp add: Let_def empty_db_def) (simp add: sample_log_def)
qed

subsection \<open>Reading back\<close>

text \<open>The rows a batch becomes.\<close>

fun rows_from :: "string \<Rightarrow> int \<Rightarrow> event_record list \<Rightarrow> event_row list" where
  "rows_from sid i [] = []"
| "rows_from sid i (r # rs) =
     \<lparr>row_id = i + 1, row_session_id = sid, row_timestamp = er_timestamp r, row_category = er_category r,
      row_event_type = er_event_type r, row_vm_id = er_vm_id r, row_correlation_id = er_correlation_id r,
      row_duration_ms = er_duration_ms r, row_success = map_option (\<lambda>b. if b then 1 else 0) (er_success r),
      row_data = er_data r\<rparr> # rows_from sid (i + 1) rs"

lemma fold_insert_rows:
  "db_events (fold (insert_event sid) rs db) = db_events db @ rows_from sid (db_last_id db) rs"
  by (induction rs arbitrary: db) (simp_all add: insert_event_def)

lemma record_of_rows: "map record_of_row (rows_from sid i rs) = rs"
  by (induction rs arbitrary: i) (simp_all add: record_of_row_def option.map_comp o_def option.map_id [unfolded id_def])

lemma rows_from_session: "r \<in> set (rows_from sid i rs) \<Longrightarrow> row_session_id r = sid \<and> i < row_id r"
  by (induction rs arbitrary: i) force+

lemma rows_from_timestamp:
  "r \<in> set (rows_from sid i rs) \<Longrightarrow> row_timestamp r \<in> set (map er_timestamp rs)"
  by (induction rs arbitrary: i) auto

lemma rows_from_sorted:
  "sorted (map er_timestamp rs) \<Longrightarrow> sorted (map (\<lambda>r. (row_timestamp r, row_id r)) (rows_from sid i rs))"
proof (induction rs arbitrary: i)
  case (Cons a rs)
  have "(er_timestamp a, i + 1) \<le> (row_timestamp r, row_id r)" if "r \<in> set (rows_from sid (i + 1) rs)" for r
    using rows_from_session [OF that] rows_from_timestamp [OF that] Cons.prems
    by (auto simp: less_eq_prod_def order_le_less)
  with Cons show ?case
    by auto
qed simp

text \<open>The event of a session that a record is: its fields, under the number of its row.\<close>

definition event_of_record :: "libs \<Rightarrow> string \<Rightarrow> int \<Rightarrow> event_record \<Rightarrow> event" where
  "event_of_record X sid i r =
     \<lparr>q_id = i, q_session_id = sid, q_timestamp = er_timestamp r, q_category = er_category r,
      q_event_type = er_event_type r, q_vm_id = er_vm_id r, q_correlation_id = er_correlation_id r,
      q_duration_ms = er_duration_ms r, q_success = er_success r,
      q_data = unwrap_or (JObject []) (json_from_slice X (bytes_of (er_data r)))\<rparr>"

lemma event_of_rows_from:
  "map (event_of_row X) (rows_from sid (i + int n) rs) =
     map (\<lambda>(k, r). event_of_record X sid (i + 1 + int k) r) (enumerate n rs)"
proof (induction rs arbitrary: n)
  case (Cons r rs)
  have "i + int n + 1 = i + int (Suc n)"
    by simp
  then show ?case
    using Cons [of "Suc n"]
    by (simp add: event_of_row_def event_of_record_def option.map_comp o_def option.map_id [unfolded id_def]
        unwrap_or_def algebra_simps)
qed simp

text \<open>C30: Round trip of the log: a committed batch of a session that had no events, with
  timestamps in order, is what a query for the session returns on a connection without errors,
  event by event and in order, whatever else the database holds: each event has the fields of the
  record that was sent, the session, and the next number of the table.\<close>

theorem query_returns_batch:
  assumes "\<forall>r \<in> set (db_events db). row_session_id r \<noteq> sid" and "sorted (map er_timestamp rs)"
    and "cn_db C = flush_batch_inner True sid rs db"
    and "\<forall>sql params n. is_ok (cn_prepare C sql) \<and> is_ok (cn_query C params) \<and> is_ok (cn_row C n)"
  shows "query_events X C
      \<lparr>f_session_id = Some sid, f_vm_id = None, f_category = None, f_event_type = None, f_limit = None\<rparr>
    = Inr (map (\<lambda>(k, r). event_of_record X sid (db_last_id db + 1 + int k) r) (enumerate 0 rs))"
proof -
  let ?rows = "rows_from sid (db_last_id db) rs"
  let ?f = "\<lparr>f_session_id = Some sid, f_vm_id = None, f_category = None, f_event_type = None, f_limit = None\<rparr>"
  have "filter (row_matches ?f) (db_events db @ ?rows) = ?rows"
    using assms(1) rows_from_session by (fastforce simp: row_matches_def sql_eq_def filter_id_conv)
  then have "matching_rows ?f (cn_db C) = ?rows"
    using sort_key_id_if_sorted [OF rows_from_sorted [OF assms(2)], of sid "db_last_id db"]
    by (simp add: matching_rows_def assms(3) flush_batch_inner_def fold_insert_rows sql_limit_def)
  moreover have "conn_error C sql params n = None" for sql params n
  proof -
    have "List.find (\<lambda>r. \<not> is_ok r) (cn_prepare C sql # cn_query C params # map (cn_row C) [0..<Suc n]) = None"
      unfolding find_None_iff using assms(4) by auto
    then show ?thesis
      by (simp only: conn_error_def option.case)
  qed
  ultimately show ?thesis
    using event_of_rows_from [of X sid "db_last_id db" 0 rs] by (simp add: query_events_spec Let_def)
qed

definition good_conn :: "events_db \<Rightarrow> sqlite_conn" where
  "good_conn db = \<lparr>cn_prepare = (\<lambda>_. Inr ()), cn_query = (\<lambda>_. Inr ()), cn_row = (\<lambda>_. Inr ()), cn_db = db\<rparr>"

theorem query_returns_batch_witness:
  "query_events sample_libs (good_conn (flush_batch_inner True ''s'' [sample_record] empty_db))
      \<lparr>f_session_id = Some ''s'', f_vm_id = None, f_category = None, f_event_type = None, f_limit = None\<rparr>
    = Inr [\<lparr>q_id = 1, q_session_id = ''s'', q_timestamp = ''2026-01-01T00:00:00.000Z'', q_category = ''vm'',
        q_event_type = ''vm.exec'', q_vm_id = Some ''v'', q_correlation_id = None, q_duration_ms = Some 3,
        q_success = Some True, q_data = unwrap_or (JObject []) (json_from_slice sample_libs (bytes_of ''{}''))\<rparr>]"
  using query_returns_batch [of empty_db "''s''" "[sample_record]" "good_conn (flush_batch_inner True ''s'' [sample_record] empty_db)" sample_libs]
  by (simp add: empty_db_def good_conn_def event_of_record_def sample_record_def)

end
