(* ===== verification/CliLogs.thy ===== *)
theory CliLogs
  imports EventStore
begin

text \<open>
  \<^verbatim>\<open>clawpot-cli/src/commands/logs.rs\<close>: the log viewer. A command prints lines and returns a
  result; the model returns both. Opening the database file and setting the pragmas give an error or
  a connection. The viewer has its own copy of the queries of \<^verbatim>\<open>events/store.rs\<close>, with its own reading
  of the columns, and so has the model; what SQLite makes of a statement is in \<open>EventStore\<close>.
\<close>

subsection \<open>Opening the database\<close>

record cli_db =
  cd_exists :: bool
  cd_open :: "string + unit"
  cd_pragmas :: "string + unit"
  cd_conn :: sqlite_conn

definition open_db :: "cli_db \<Rightarrow> string \<Rightarrow> anyhow + unit" where
  "open_db D path =
     (case cd_open D of
        Inl e \<Rightarrow> Inl (err_context (''Failed to open events DB at '' @ path) (anyhow e))
      | Inr _ \<Rightarrow>
          (case cd_pragmas D of
             Inl e \<Rightarrow> Inl (err_context ''Failed to set pragmas'' (anyhow e))
           | Inr _ \<Rightarrow> Inr ()))"

definition default_db_path :: "string option \<Rightarrow> string" where
  "default_db_path clawpot_root = unwrap_or ''/workspaces/clawpot'' clawpot_root @ ''/data/events.db''"

subsection \<open>Queries\<close>

definition cli_build_query :: "event_filters \<Rightarrow> sql_builder" where
  "cli_build_query f =
     push_condition EventType (f_event_type f)
       (push_condition Category (f_category f)
         (push_condition VmId (f_vm_id f)
           (push_condition SessionId (f_session_id f) ([], []))))"

definition cli_event_of_row :: "libs \<Rightarrow> event_row \<Rightarrow> event" where
  "cli_event_of_row X r =
     (let success_int = row_success r; data_str = row_data r in
      \<lparr>q_id = row_id r, q_session_id = row_session_id r, q_timestamp = row_timestamp r,
       q_category = row_category r, q_event_type = row_event_type r, q_vm_id = row_vm_id r,
       q_correlation_id = row_correlation_id r, q_duration_ms = row_duration_ms r,
       q_success = map_option (\<lambda>v. v \<noteq> 0) success_int,
       q_data = unwrap_or (JObject []) (json_from_slice X (bytes_of data_str))\<rparr>)"

definition cli_query_events :: "libs \<Rightarrow> sqlite_conn \<Rightarrow> event_filters \<Rightarrow> anyhow + event list" where
  "cli_query_events X C f =
     (case cli_build_query f of (conds, params) \<Rightarrow>
        select_rows C (query_text conds (f_limit f)) params (cli_event_of_row X)
          (selected_rows (conds, params) (f_limit f) (cn_db C)))"

definition cli_session_info_of_row :: "session_row \<times> nat \<Rightarrow> session_info" where
  "cli_session_info_of_row row =
     \<lparr>si_id = sess_id (fst row), si_started_at = sess_started_at (fst row), si_stopped_at = sess_stopped_at (fst row),
      si_server_version = sess_server_version (fst row), si_event_count = snd row\<rparr>"

definition cli_list_sessions :: "sqlite_conn \<Rightarrow> anyhow + session_info list" where
  "cli_list_sessions C = select_rows C sessions_text [] cli_session_info_of_row (session_rows (cn_db C))"

text \<open>C31: The viewer and the server agree: on every connection, the two copies of each query give the
  same result or the same error. The \<^verbatim>\<open>SELECT\<close> for events, with its numbered placeholders, selects,
  orders and limits exactly what the filters ask for, and its first error, if there is one, is the
  result instead.\<close>

theorem cli_query_agrees:
  "cli_query_events X C f = query_events X C f \<and> cli_list_sessions C = list_sessions C \<and>
   cli_query_events X C f =
     (let q = build_query f; rows = matching_rows f (cn_db C) in
      case conn_error C (query_text (fst q) (f_limit f)) (snd q) (length rows) of
        Some e \<Rightarrow> Inl (anyhow e)
      | None \<Rightarrow> Inr (map (event_of_row X) rows))"
proof -
  have "cli_build_query f = build_query f"
    by (simp add: cli_build_query_def build_query_def)
  moreover have "cli_event_of_row X = event_of_row X"
    by (rule ext) (simp add: cli_event_of_row_def event_of_row_def Let_def unwrap_or_def)
  ultimately have "cli_query_events X C f = query_events X C f"
    by (simp add: cli_query_events_def query_events_def Let_def case_prod_beta)
  moreover have "cli_session_info_of_row = session_info_of_row"
    by (rule ext) (simp add: cli_session_info_of_row_def session_info_of_row_def case_prod_beta)
  ultimately show ?thesis
    using query_events_spec [of X C f] by (simp add: cli_list_sessions_def list_sessions_def)
qed

subsection \<open>Columns\<close>

text \<open>Characters, not bytes, are counted for padding.\<close>

definition char_count :: "string \<Rightarrow> nat" where
  "char_count s = length (filter (\<lambda>c. \<not> cont_byte (of_char c)) s)"

definition pad_left :: "nat \<Rightarrow> string \<Rightarrow> string" where
  "pad_left n s = s @ replicate (n - char_count s) CHR '' ''"

definition pad_right :: "nat \<Rightarrow> string \<Rightarrow> string" where
  "pad_right n s = replicate (n - char_count s) CHR '' '' @ s"

definition session_line :: "string \<Rightarrow> string \<Rightarrow> string \<Rightarrow> string \<Rightarrow> string \<Rightarrow> string" where
  "session_line a b c d e =
     join '' '' [pad_left 38 a, pad_left 26 b, pad_left 26 c, pad_left 10 d, pad_right 6 e]"

definition event_line :: "string \<Rightarrow> string \<Rightarrow> string \<Rightarrow> string \<Rightarrow> string \<Rightarrow> string \<Rightarrow> string" where
  "event_line a b c d e f =
     join '' '' [pad_left 26 a, pad_left 12 b, pad_left 32 c, pad_left 38 d, pad_right 8 e, pad_left 7 f]"

subsection \<open>The commands\<close>

type_synonym cli_result = "(anyhow + unit) \<times> string list"

definition no_database :: "string \<Rightarrow> string" where
  "no_database path = ''No events database found at '' @ path"

definition execute_sessions :: "string option \<Rightarrow> cli_db \<Rightarrow> string option \<Rightarrow> cli_result" where
  "execute_sessions root D db_path =
     (let path = unwrap_or (default_db_path root) db_path in
      if \<not> cd_exists D then (Inr (), [no_database path])
      else case open_db D path of
        Inl e \<Rightarrow> (Inl e, [])
      | Inr _ \<Rightarrow>
          (case cli_list_sessions (cd_conn D) of
             Inl e \<Rightarrow> (Inl e, [])
           | Inr sessions \<Rightarrow>
               if sessions = [] then (Inr (), [''No sessions found.''])
               else (Inr (),
                 session_line ''SESSION ID'' ''STARTED'' ''STOPPED'' ''VERSION'' ''EVENTS'' #
                 replicate 110 CHR ''-'' #
                 map (\<lambda>s. session_line (si_id s) (si_started_at s) (unwrap_or ''(running)'' (si_stopped_at s))
                   (si_server_version s) (show_nat (si_event_count s))) sessions)))"

definition yes_no :: "bool option \<Rightarrow> string" where
  "yes_no s = (case s of Some True \<Rightarrow> ''yes'' | Some False \<Rightarrow> ''no'' | None \<Rightarrow> ''-'')"

definition execute_show :: "libs \<Rightarrow> string option \<Rightarrow> cli_db \<Rightarrow> string option \<Rightarrow> event_filters \<Rightarrow> cli_result" where
  "execute_show X root D db_path f =
     (let path = unwrap_or (default_db_path root) db_path in
      if \<not> cd_exists D then (Inr (), [no_database path])
      else case open_db D path of
        Inl e \<Rightarrow> (Inl e, [])
      | Inr _ \<Rightarrow>
          (case cli_query_events X (cd_conn D) f of
             Inl e \<Rightarrow> (Inl e, [])
           | Inr events \<Rightarrow>
               if events = [] then (Inr (), [''No events found.''])
               else (Inr (),
                 event_line ''TIMESTAMP'' ''CATEGORY'' ''EVENT TYPE'' ''VM ID'' ''DUR(ms)'' ''OK'' #
                 replicate 130 CHR ''-'' #
                 map (\<lambda>e. event_line (q_timestamp e) (q_category e) (q_event_type e)
                   (unwrap_or ''-'' (q_vm_id e))
                   (case q_duration_ms e of None \<Rightarrow> ''-'' | Some d \<Rightarrow> show_int (sint d))
                   (yes_no (q_success e))) events @
                 [[CHR 0x0A] @ ''Total: '' @ show_nat (length events) @ '' event(s)''])))"

text \<open>The derived serialization of an event, and serde's printers (which can fail).\<close>

definition event_to_json :: "event \<Rightarrow> json" where
  "event_to_json e =
     JObject [(''id'', jint (q_id e)), (''session_id'', JString (q_session_id e)),
       (''timestamp'', JString (q_timestamp e)), (''category'', JString (q_category e)),
       (''event_type'', JString (q_event_type e)), (''vm_id'', jopt JString (q_vm_id e)),
       (''correlation_id'', jopt JString (q_correlation_id e)),
       (''duration_ms'', jopt (\<lambda>d. jint (sint d)) (q_duration_ms e)),
       (''success'', jopt JBool (q_success e)), (''data'', q_data e)]"

fun print_lines :: "(json \<Rightarrow> string + string) \<Rightarrow> event list \<Rightarrow> cli_result" where
  "print_lines ser [] = (Inr (), [])"
| "print_lines ser (e # es) =
     (case ser (event_to_json e) of
        Inl err \<Rightarrow> (Inl (anyhow err), [])
      | Inr line \<Rightarrow> (case print_lines ser es of (r, ls) \<Rightarrow> (r, line # ls)))"

definition execute_export ::
  "libs \<Rightarrow> (json \<Rightarrow> string + string) \<Rightarrow> (json \<Rightarrow> string + string) \<Rightarrow> string option \<Rightarrow> cli_db \<Rightarrow>
   string option \<Rightarrow> string option \<Rightarrow> string \<Rightarrow> cli_result" where
  "execute_export X pretty ser root D db_path session format =
     (let path = unwrap_or (default_db_path root) db_path in
      if \<not> cd_exists D then (Inl (anyhow (no_database path)), [])
      else case open_db D path of
        Inl e \<Rightarrow> (Inl e, [])
      | Inr _ \<Rightarrow>
          (case cli_query_events X (cd_conn D) \<lparr>f_session_id = session, f_vm_id = None, f_category = None,
               f_event_type = None, f_limit = None\<rparr> of
             Inl e \<Rightarrow> (Inl e, [])
           | Inr events \<Rightarrow>
               if format = ''json'' then
                 (case pretty (JArray (map event_to_json events)) of
                    Inl err \<Rightarrow> (Inl (anyhow err), [])
                  | Inr text \<Rightarrow> (Inr (), [text]))
               else print_lines ser events))"

subsection \<open>The timeline\<close>

definition field_str :: "string \<Rightarrow> string \<Rightarrow> json \<Rightarrow> string" where
  "field_str k d v = unwrap_or d (Option.bind (json_get k v) as_str)"

definition field_u64 :: "string \<Rightarrow> json \<Rightarrow> u64 option" where
  "field_u64 k v = Option.bind (json_get k v) as_u64"

definition show_u64 :: "u64 \<Rightarrow> string" where
  "show_u64 n = show_nat (unat n)"

definition opt_text :: "('a \<Rightarrow> string) \<Rightarrow> 'a option \<Rightarrow> string" where
  "opt_text f v = (case v of None \<Rightarrow> [] | Some x \<Rightarrow> f x)"

text \<open>Compact JSON, cut after 77 bytes; the slice panics inside a character.\<close>

definition compact_summary :: "libs \<Rightarrow> json \<Rightarrow> string outcome" where
  "compact_summary X data =
     (let s = unwrap_or [] (json_to_string X data) in
      if 80 < length s then bind_outcome (str_prefix s 77) (\<lambda>p. Ret (p @ ''...''))
      else Ret s)"

definition llm_request_summary :: "json \<Rightarrow> string" where
  "llm_request_summary data =
     field_str ''provider'' ''?'' data @ ''/'' @ field_str ''endpoint'' ''?'' data @ '' model='' @
     field_str ''model'' ''unknown'' data @
     opt_text (\<lambda>n. '' messages='' @ show_u64 n) (field_u64 ''message_count'' data) @
     opt_text (\<lambda>b. '' streaming='' @ show_bool b) (Option.bind (json_get ''streaming'' data) as_bool)"

definition llm_response_summary :: "json \<Rightarrow> string" where
  "llm_response_summary data =
     field_str ''provider'' ''?'' data @ ''/'' @ field_str ''endpoint'' ''?'' data @ '' model='' @
     field_str ''model'' ''unknown'' data @
     (case (field_u64 ''input_tokens'' data, field_u64 ''output_tokens'' data) of
        (Some i, Some o') \<Rightarrow> '' tokens='' @ show_u64 i @ ''+'' @ show_u64 o'
      | _ \<Rightarrow> []) @
     opt_text (\<lambda>s. '' status='' @ show_u64 s) (field_u64 ''status_code'' data)"

definition format_data_summary :: "libs \<Rightarrow> string \<Rightarrow> json \<Rightarrow> string outcome" where
  "format_data_summary X event_type data =
     (if event_type = ''log'' then Ret (field_str ''message'' [] data)
      else if event_type = ''network.http.request'' then
        Ret (field_str ''method'' ''?'' data @ '' '' @ field_str ''url'' ''?'' data)
      else if event_type = ''network.http.response'' then
        Ret (''status='' @ show_u64 (unwrap_or 0 (field_u64 ''status_code'' data)))
      else if event_type = ''network.dns.request'' then
        Ret (field_str ''query_name'' ''?'' data @ '' '' @ field_str ''query_type'' ''?'' data)
      else if event_type = ''vm.create.ip_allocated'' then Ret (field_str ''ip_address'' [] data)
      else if event_type = ''vm.exec'' then
        Ret (field_str ''command'' ''?'' data @ '' exit='' @
          show_int (unwrap_or (- 1) (Option.bind (json_get ''exit_code'' data) as_i64)))
      else if event_type = ''llm.request'' then Ret (llm_request_summary data)
      else if event_type = ''llm.response'' then Ret (llm_response_summary data)
      else compact_summary X data)"

definition timeline_line :: "libs \<Rightarrow> event \<Rightarrow> string outcome" where
  "timeline_line X e =
     bind_outcome (format_data_summary X (q_event_type e) (q_data e)) (\<lambda>data_summary.
       Ret (q_timestamp e @ '' ['' @ q_category e @ ''] '' @ q_event_type e @
         opt_text (\<lambda>v. '' vm='' @ v) (q_vm_id e) @
         opt_text (\<lambda>d. '' ('' @ show_int (sint d) @ ''ms)'') (q_duration_ms e) @
         (case q_success e of Some True \<Rightarrow> '' OK'' | Some False \<Rightarrow> '' FAIL'' | None \<Rightarrow> []) @ '' '' @ data_summary))"

text \<open>A panic ends the program after the lines printed so far.\<close>

fun timeline_lines :: "libs \<Rightarrow> event list \<Rightarrow> unit outcome \<times> string list" where
  "timeline_lines X [] = (Ret (), [])"
| "timeline_lines X (e # es) =
     (case timeline_line X e of
        Panic \<Rightarrow> (Panic, [])
      | Ret line \<Rightarrow> (case timeline_lines X es of (r, ls) \<Rightarrow> (r, line # ls)))"

definition execute_timeline ::
  "libs \<Rightarrow> string option \<Rightarrow> cli_db \<Rightarrow> string option \<Rightarrow> string option \<Rightarrow> string option \<Rightarrow>
   (anyhow + unit) outcome \<times> string list" where
  "execute_timeline X root D db_path session vm =
     (let path = unwrap_or (default_db_path root) db_path in
      if \<not> cd_exists D then (Ret (Inr ()), [no_database path])
      else case open_db D path of
        Inl e \<Rightarrow> (Ret (Inl e), [])
      | Inr _ \<Rightarrow>
          (case cli_query_events X (cd_conn D) \<lparr>f_session_id = session, f_vm_id = vm, f_category = None,
               f_event_type = None, f_limit = None\<rparr> of
             Inl e \<Rightarrow> (Ret (Inl e), [])
           | Inr events \<Rightarrow>
               if events = [] then (Ret (Inr ()), [''No events found.''])
               else (case timeline_lines X events of (r, ls) \<Rightarrow> (bind_outcome r (\<lambda>_. Ret (Inr ())), ls))))"

subsection \<open>Which events stop the timeline\<close>

definition summarised_types :: "string list" where
  "summarised_types = [''log'', ''network.http.request'', ''network.http.response'', ''network.dns.request'',
     ''vm.create.ip_allocated'', ''vm.exec'', ''llm.request'', ''llm.response'']"

text \<open>An event printed as compact JSON whose byte 77 is inside a character of a text longer than 80.\<close>

definition cut_inside_char :: "libs \<Rightarrow> event \<Rightarrow> bool" where
  "cut_inside_char X e \<longleftrightarrow> q_event_type e \<notin> set summarised_types \<and>
     80 < length (unwrap_or [] (json_to_string X (q_data e))) \<and>
     \<not> is_char_boundary (unwrap_or [] (json_to_string X (q_data e))) 77"

lemma format_data_summary_Panic:
  "format_data_summary X t v = Panic \<longleftrightarrow>
     t \<notin> set summarised_types \<and> 80 < length (unwrap_or [] (json_to_string X v)) \<and>
     \<not> is_char_boundary (unwrap_or [] (json_to_string X v)) 77"
  by (simp add: format_data_summary_def summarised_types_def compact_summary_def str_prefix_def Let_def)

lemma timeline_line_Panic: "timeline_line X e = Panic \<longleftrightarrow> cut_inside_char X e"
  using format_data_summary_Panic [of X "q_event_type e" "q_data e"]
  by (cases "format_data_summary X (q_event_type e) (q_data e)")
    (auto simp: timeline_line_def cut_inside_char_def)

definition ret_text :: "string outcome \<Rightarrow> string" where
  "ret_text r = (case r of Ret s \<Rightarrow> s | Panic \<Rightarrow> [])"

text \<open>C37: The timeline prints one line per event, in order, up to the first event whose compact JSON
  is cut inside a character; it panics exactly when there is such an event, and then the events
  from there on are not shown.\<close>

theorem timeline_lines_spec:
  "timeline_lines X es =
     (if \<exists>e \<in> set es. cut_inside_char X e then Panic else Ret (),
      map (\<lambda>e. ret_text (timeline_line X e)) (takeWhile (\<lambda>e. \<not> cut_inside_char X e) es))"
proof (induction es)
  case (Cons e es)
  show ?case
  proof (cases "timeline_line X e")
    case Panic
    then show ?thesis
      using timeline_line_Panic [of X e] by simp
  next
    case (Ret line)
    then have "\<not> cut_inside_char X e"
      using timeline_line_Panic [of X e] by simp
    then show ?thesis
      using Cons.IH Ret by (simp add: ret_text_def)
  qed
qed simp

text \<open>Such an event exists: a text of 76 letters, a two-byte character and more text.\<close>

theorem timeline_can_panic:
  "fst (timeline_lines (sample_libs\<lparr>json_to_string := (\<lambda>_. Some (replicate 76 CHR ''a'' @ [CHR 0xC3, CHR 0xA9] @ ''12345''))\<rparr>)
     [\<lparr>q_id = 1, q_session_id = [], q_timestamp = [], q_category = ''vm'', q_event_type = ''vm.create.started'',
       q_vm_id = None, q_correlation_id = None, q_duration_ms = None, q_success = None, q_data = JNull\<rparr>]) = Panic"
  by (simp add: timeline_line_def format_data_summary_def compact_summary_def str_prefix_def is_char_boundary_def
      cont_byte_def nth_append Let_def)

end
