(* ===== verification/Tasks.thy ===== *)
theory Tasks
  imports Interaction
begin

text \<open>
  Asynchronous handlers. A handler is a program whose steps are atomic on the state it shares
  with the others (a lock held for one method call, one send on a channel, one group of
  outside calls); between two steps any other task may run, and a task may be dropped (its
  client disconnects). \<open>run\<close> executes a handler alone; \<open>pool_step\<close> interleaves tasks.
\<close>

datatype ('s, 'a) prog = Done 'a | Step "'s \<Rightarrow> ('s, 'a) prog \<times> 's"

primrec bindP :: "('s, 'a) prog \<Rightarrow> ('a \<Rightarrow> ('s, 'b) prog) \<Rightarrow> ('s, 'b) prog" where
  "bindP (Done x) f = f x"
| "bindP (Step g) f = Step (map_prod (\<lambda>p. bindP p f) id \<circ> g)"

primrec run :: "('s, 'a) prog \<Rightarrow> 's \<Rightarrow> 'a \<times> 's" where
  "run (Done x) = (\<lambda>s. (x, s))"
| "run (Step g) = (\<lambda>s. case (map_prod run id \<circ> g) s of (k, s') \<Rightarrow> k s')"

definition atomic :: "('s \<Rightarrow> 'a \<times> 's) \<Rightarrow> ('s, 'a) prog" where
  "atomic m = Step (\<lambda>s. case m s of (x, s') \<Rightarrow> (Done x, s'))"

text \<open>The \<^verbatim>\<open>?\<close> operator on handlers.\<close>

definition bindPE :: "('s, 'e + 'a) prog \<Rightarrow> ('a \<Rightarrow> ('s, 'e + 'b) prog) \<Rightarrow> ('s, 'e + 'b) prog" where
  "bindPE p f = bindP p (\<lambda>r. case r of Inl e \<Rightarrow> Done (Inl e) | Inr x \<Rightarrow> f x)"

definition forget :: "('s, 'a) prog \<Rightarrow> ('s, unit) prog" where
  "forget p = bindP p (\<lambda>_. Done ())"

lemma prog_induct [case_names Done Step]:
  assumes "\<And>x. P (Done x)" and "\<And>g. (\<And>s. P (fst (g s))) \<Longrightarrow> P (Step g)"
  shows "P p"
proof (induction p)
  case (Step g)
  have "fst (g s) \<in> Basic_BNFs.fsts (g s)" for s
    by (cases "g s") (simp add: prod_set_simps)
  then show ?case
    using Step by (intro assms(2)) blast
qed (rule assms(1))

lemma run_Done [simp]: "run (Done x) s = (x, s)"
  by simp

lemma run_bindP: "run (bindP p f) s = (case run p s of (x, s') \<Rightarrow> run (f x) s')"
proof (induction p arbitrary: s rule: prog_induct)
  case (Step g)
  show ?case
    using Step [of s] by (simp add: case_prod_beta map_prod_def)
qed simp

lemma run_atomic [simp]: "run (atomic m) s = m s"
  by (simp add: atomic_def split: prod.split)

lemma run_bindPE:
  "run (bindPE p f) s = (case run p s of (Inl e, s') \<Rightarrow> (Inl e, s') | (Inr x, s') \<Rightarrow> run (f x) s')"
  by (auto simp: bindPE_def run_bindP split: prod.splits sum.splits)

lemma bindP_assoc: "bindP (bindP p f) g = bindP p (\<lambda>x. bindP (f x) g)"
  by (induction p rule: prog_induct) (auto simp: fun_eq_iff map_prod_def split: prod.split, metis fst_conv)

lemma bindP_Done: "bindP p Done = p"
  by (induction p rule: prog_induct) (auto simp: fun_eq_iff map_prod_def split: prod.split, metis fst_conv)

lemma bindP_sum:
  "bindP (case r of Inl e \<Rightarrow> f e | Inr x \<Rightarrow> g x) k = (case r of Inl e \<Rightarrow> bindP (f e) k | Inr x \<Rightarrow> bindP (g x) k)"
  by (cases r) simp_all

lemmas run_simps = run_bindP run_bindPE run_atomic run_Done

subsection \<open>Interleaving\<close>

text \<open>A pool of tasks over one shared state. \<open>P\<close> holds the programs a request may start.\<close>

inductive pool_step ::
  "('s, unit) prog set \<Rightarrow> ('s, unit) prog list \<times> 's \<Rightarrow> ('s, unit) prog list \<times> 's \<Rightarrow> bool"
  for P where
  advance: "i < length ts \<Longrightarrow> ts ! i = Step g \<Longrightarrow> g s = (p, s') \<Longrightarrow> pool_step P (ts, s) (ts[i := p], s')"
| spawn: "p \<in> P \<Longrightarrow> pool_step P (ts, s) (ts @ [p], s)"
| cancel: "i < length ts \<Longrightarrow> pool_step P (ts, s) (ts[i := Done ()], s)"

inductive_cases pool_stepE: "pool_step P a b"

text \<open>Running a program alone is one of the interleavings.\<close>

lemma pool_run_task: "(pool_step P)\<^sup>*\<^sup>* (ts @ [p], s) (ts @ [Done ()], snd (run p s))"
proof (induction p arbitrary: s rule: prog_induct)
  case (Step g)
  obtain q s' where g: "g s = (q, s')"
    by (cases "g s")
  have "pool_step P (ts @ [Step g], s) (ts @ [q], s')"
    using advance [of "length ts" "ts @ [Step g]" g s q s'] g by simp
  moreover have "(pool_step P)\<^sup>*\<^sup>* (ts @ [q], s') (ts @ [Done ()], snd (run q s'))"
    using Step [of s s'] g by simp
  ultimately show ?case
    using g by (simp add: converse_rtranclp_into_rtranclp)
qed simp

lemma pool_run:
  assumes "p \<in> P"
  shows "(pool_step P)\<^sup>*\<^sup>* (ts, s) (ts @ [Done ()], snd (run p s))"
  using converse_rtranclp_into_rtranclp [OF spawn [OF assms] pool_run_task] .

subsection \<open>Guarantees\<close>

text \<open>
  A relation every single step keeps. \<open>R s t\<close> says what a task may do to the shared state; if every
  step of every task keeps to it and it is reflexive and transitive, so does every interleaving.
\<close>

locale guarantee =
  fixes R :: "'s \<Rightarrow> 's \<Rightarrow> bool"
  assumes R_refl: "R s s"
    and R_trans: "R s t \<Longrightarrow> R t u \<Longrightarrow> R s u"
begin

primrec always :: "('s, 'a) prog \<Rightarrow> bool" where
  "always (Done x) \<longleftrightarrow> True"
| "always (Step g) \<longleftrightarrow> (\<forall>s. case (map_prod always id \<circ> g) s of (ok, s') \<Rightarrow> ok \<and> R s s')"

lemma always_Step: "always (Step g) \<longleftrightarrow> (\<forall>s. always (fst (g s)) \<and> R s (snd (g s)))"
  by (simp add: case_prod_beta map_prod_def)

lemma always_bind: "always p \<Longrightarrow> (\<And>x. always (f x)) \<Longrightarrow> always (bindP p f)"
proof (induction p rule: prog_induct)
  case (Step g)
  have "always (bindP (fst (g s)) f) \<and> R s (snd (g s))" for s
    using Step.IH [of s] Step.prems unfolding always_Step by auto
  then show ?case
    by (simp add: always_Step del: always.simps)
qed simp

lemma always_atomic: "(\<And>s. R s (snd (m s))) \<Longrightarrow> always (atomic m)"
  by (simp add: atomic_def always_Step case_prod_beta del: always.simps(2))

lemma always_forget: "always p \<Longrightarrow> always (forget p)"
  by (simp add: forget_def always_bind)

lemma always_sum: "(\<And>e. always (f e)) \<Longrightarrow> (\<And>x. always (g x)) \<Longrightarrow> always (case r of Inl e \<Rightarrow> f e | Inr x \<Rightarrow> g x)"
  by (cases r) simp_all

lemma always_step:
  assumes "pool_step P (ts, s) (ts', s')" and "\<forall>p \<in> P \<union> set ts. always p"
  shows "R s s' \<and> (\<forall>p \<in> P \<union> set ts'. always p)"
  using assms(1)
proof (cases rule: pool_step.cases)
  case (advance i g p)
  then have "always (Step g)"
    using assms(2) by (metis UnI2 nth_mem)
  then have "always p" "R s s'"
    using advance(4) unfolding always_Step by (metis fst_conv, metis snd_conv)
  then show ?thesis
    using assms(2) advance(1) set_update_subset_insert by fastforce
next
  case (cancel i)
  then show ?thesis
    using assms(2) R_refl set_update_subset_insert by fastforce
qed (use assms(2) R_refl in auto)

lemma always_pool:
  assumes "(pool_step P)\<^sup>*\<^sup>* (ts, s) (ts', s')" and "\<forall>p \<in> P \<union> set ts. always p"
  shows "R s s'"
proof -
  have "R s s' \<and> (\<forall>p \<in> P \<union> set ts'. always p)"
    using assms(1)
  proof (induction rule: rtranclp_induct2)
    case refl
    then show ?case
      using assms(2) R_refl by blast
  next
    case (step ts1 s1 ts2 s2)
    then show ?case
      using always_step [of P ts1 s1 ts2 s2] R_trans by blast
  qed
  then show ?thesis ..
qed

end

subsection \<open>Ownership\<close>

text \<open>
  A proof method for interleaved tasks. \<open>inv s k A\<close> is the shared invariant: \<open>A\<close> are the tokens
  the running tasks hold together (resources only the holder may give up) and \<open>k\<close> facts that
  only grow. A task is sound when each of its steps keeps the invariant for whatever tokens
  the others hold.
\<close>

locale ownership =
  fixes inv :: "'s \<Rightarrow> 'k \<Rightarrow> 'tok set \<Rightarrow> bool"
    and grows :: "'k \<Rightarrow> 'k \<Rightarrow> bool"
  assumes grows_refl: "grows k k"
    and grows_trans: "grows k l \<Longrightarrow> grows l m \<Longrightarrow> grows k m"
    and inv_drop: "inv s k A \<Longrightarrow> B \<subseteq> A \<Longrightarrow> inv s k B"
begin

primrec sound ::
  "('s, 'a) prog \<Rightarrow> 'tok set \<Rightarrow> 'k \<Rightarrow> ('a \<Rightarrow> 'tok set \<Rightarrow> 'k \<Rightarrow> bool) \<Rightarrow> bool" where
  "sound (Done x) = (\<lambda>A K Q. Q x A K)"
| "sound (Step g) = (\<lambda>A K Q. \<forall>s B k. inv s k (A \<union> B) \<and> A \<inter> B = {} \<and> grows K k \<longrightarrow>
     (case (map_prod sound id \<circ> g) s of (ok, s') \<Rightarrow>
        \<exists>A' k'. A' \<inter> B = {} \<and> grows k k' \<and> inv s' k' (A' \<union> B) \<and> ok A' k' Q))"

lemma sound_Step:
  "sound (Step g) A K Q \<longleftrightarrow> (\<forall>s B k. inv s k (A \<union> B) \<longrightarrow> A \<inter> B = {} \<longrightarrow> grows K k \<longrightarrow>
     (\<exists>A' k'. A' \<inter> B = {} \<and> grows k k' \<and> inv (snd (g s)) k' (A' \<union> B) \<and> sound (fst (g s)) A' k' Q))"
  by (simp add: case_prod_beta map_prod_def imp_conjL)

lemma sound_StepI:
  assumes "\<And>s B k. inv s k (A \<union> B) \<Longrightarrow> A \<inter> B = {} \<Longrightarrow> grows K k \<Longrightarrow>
    \<exists>A' k'. A' \<inter> B = {} \<and> grows k k' \<and> inv (snd (g s)) k' (A' \<union> B) \<and> sound (fst (g s)) A' k' Q"
  shows "sound (Step g) A K Q"
  unfolding sound_Step using assms by blast

lemma sound_StepD:
  assumes "sound (Step g) A K Q" "inv s k (A \<union> B)" "A \<inter> B = {}" "grows K k"
  shows "\<exists>A' k'. A' \<inter> B = {} \<and> grows k k' \<and> inv (snd (g s)) k' (A' \<union> B) \<and> sound (fst (g s)) A' k' Q"
  using assms unfolding sound_Step by blast

lemma sound_bind:
  assumes "sound p A K Q" and "\<And>x A' K'. Q x A' K' \<Longrightarrow> sound (f x) A' K' R"
  shows "sound (bindP p f) A K R"
  using assms(1)
proof (induction p arbitrary: A K rule: prog_induct)
  case (Done x)
  then show ?case
    using assms(2) by simp
next
  case (Step g)
  show ?case
    unfolding bindP.simps
  proof (rule sound_StepI)
    fix s B k
    assume inv: "inv s k (A \<union> B)" "A \<inter> B = {}" "grows K k"
    obtain A' k' where "A' \<inter> B = {}" "grows k k'" "inv (snd (g s)) k' (A' \<union> B)" "sound (fst (g s)) A' k' Q"
      using sound_StepD [OF Step.prems inv] by blast
    then show "\<exists>A' k'. A' \<inter> B = {} \<and> grows k k' \<and>
        inv (snd ((map_prod (\<lambda>p. bindP p f) id \<circ> g) s)) k' (A' \<union> B) \<and>
        sound (fst ((map_prod (\<lambda>p. bindP p f) id \<circ> g) s)) A' k' R"
      using Step.IH [of s] by (intro exI [of _ A'] exI [of _ k']) simp
  qed
qed

lemma sound_bindE:
  assumes "sound p A K Q" and "\<And>e A' K'. Q (Inl e) A' K' \<Longrightarrow> R (Inl e) A' K'"
    and "\<And>x A' K'. Q (Inr x) A' K' \<Longrightarrow> sound (f x) A' K' R"
  shows "sound (bindPE p f) A K R"
  unfolding bindPE_def
  by (rule sound_bind [OF assms(1)]) (auto split: sum.split intro: assms(2,3))

lemma sound_atomic:
  assumes "\<And>s B k. inv s k (A \<union> B) \<Longrightarrow> A \<inter> B = {} \<Longrightarrow> grows K k \<Longrightarrow>
    \<exists>A' k'. A' \<inter> B = {} \<and> grows k k' \<and> inv (snd (m s)) k' (A' \<union> B) \<and> Q (fst (m s)) A' k'"
  shows "sound (atomic m) A K Q"
  unfolding atomic_def by (rule sound_StepI) (use assms in \<open>simp add: case_prod_beta\<close>)

lemma sound_weaken:
  assumes "sound p A K Q" and "\<And>x A' K'. Q x A' K' \<Longrightarrow> R x A' K'"
  shows "sound p A K R"
  using sound_bind [OF assms(1), of Done R] assms(2) by (simp add: bindP_Done)

text \<open>The invariant of a pool: disjoint shares of the tokens, one for each task.\<close>

definition pool_ok :: "('s, unit) prog list \<times> 's \<Rightarrow> bool" where
  "pool_ok c \<longleftrightarrow> (case c of (ts, s) \<Rightarrow>
     \<exists>own k. (\<forall>i j. i \<noteq> j \<longrightarrow> own i \<inter> own j = {}) \<and> inv s k (\<Union>i. own i) \<and>
       (\<forall>i \<ge> length ts. own i = {}) \<and>
       (\<forall>i < length ts. \<exists>K. grows K k \<and> sound (ts ! i) (own i) K (\<lambda>_ _ _. True)))"

lemma pool_okI:
  assumes "\<And>i j. i \<noteq> j \<Longrightarrow> own i \<inter> own j = {}" "inv s k (\<Union>i. own i)" "\<And>i. i \<ge> length ts \<Longrightarrow> own i = {}"
    and "\<And>i. i < length ts \<Longrightarrow> \<exists>K. grows K k \<and> sound (ts ! i) (own i) K (\<lambda>_ _ _. True)"
  shows "pool_ok (ts, s)"
  using assms unfolding pool_ok_def by blast

lemma pool_okE:
  assumes "pool_ok (ts, s)"
  obtains own k where "\<forall>i j. i \<noteq> j \<longrightarrow> own i \<inter> own j = {}" "inv s k (\<Union>i. own i)"
    "\<forall>i \<ge> length ts. own i = {}"
    "\<forall>i < length ts. \<exists>K. grows K k \<and> sound (ts ! i) (own i) K (\<lambda>_ _ _. True)"
  using assms unfolding pool_ok_def by blast

lemma pool_ok_init: "inv s k {} \<Longrightarrow> pool_ok ([], s)"
  by (rule pool_okI [of "\<lambda>_. {}"]) auto

lemma pool_ok_advance:
  assumes ok: "pool_ok (ts, s)" and i: "i < length ts" "ts ! i = Step g" "g s = (p, s')"
  shows "pool_ok (ts[i := p], s')"
proof -
  obtain own k where own: "\<forall>i j. i \<noteq> j \<longrightarrow> own i \<inter> own j = {}" "inv s k (\<Union>i. own i)"
    "\<forall>i \<ge> length ts. own i = {}"
    and ts: "\<forall>i < length ts. \<exists>K. grows K k \<and> sound (ts ! i) (own i) K (\<lambda>_ _ _. True)"
    using pool_okE [OF ok] by metis
  define B where "B = (\<Union>j \<in> - {i}. own j)"
  have B: "own i \<union> B = (\<Union>i. own i)" "own i \<inter> B = {}"
    using own(1) unfolding B_def by blast+
  obtain K where K: "grows K k" "sound (Step g) (own i) K (\<lambda>_ _ _. True)"
    using ts i by metis
  obtain A' k' where A': "A' \<inter> B = {}" "grows k k'" "inv s' k' (A' \<union> B)" "sound p A' k' (\<lambda>_ _ _. True)"
    using sound_StepD [OF K(2) _ B(2) K(1), of s] own(2) B(1) i(3) by auto
  define own' where "own' = own(i := A')"
  have "own' a \<inter> own' b = {}" if "a \<noteq> b" for a b
    using that own(1) A'(1) unfolding own'_def B_def by (cases "a = i"; cases "b = i") auto
  moreover have "(\<Union>i. own' i) = A' \<union> B"
    unfolding own'_def B_def by (auto split: if_splits)
  moreover have "\<forall>j \<ge> length (ts[i := p]). own' j = {}"
    using own(3) i(1) by (simp add: own'_def)
  moreover have "\<exists>K. grows K k' \<and> sound (ts[i := p] ! j) (own' j) K (\<lambda>_ _ _. True)" if "j < length ts" for j
  proof (cases "j = i")
    case True
    then show ?thesis
      using A'(4) i(1) grows_refl by (auto simp: own'_def)
  next
    case False
    then show ?thesis
      using ts that A'(2) grows_trans by (simp add: own'_def) blast
  qed
  ultimately show ?thesis
    using A'(3) by (intro pool_okI [of own' _ k']) auto
qed

lemma pool_ok_spawn:
  assumes "pool_ok (ts, s)" and "\<And>K. sound p {} K (\<lambda>_ _ _. True)"
  shows "pool_ok (ts @ [p], s)"
proof -
  obtain own k where own: "\<forall>i j. i \<noteq> j \<longrightarrow> own i \<inter> own j = {}" "inv s k (\<Union>i. own i)"
    "\<forall>i \<ge> length ts. own i = {}"
    and ts: "\<forall>i < length ts. \<exists>K. grows K k \<and> sound (ts ! i) (own i) K (\<lambda>_ _ _. True)"
    using pool_okE [OF assms(1)] by metis
  have "\<exists>K. grows K k \<and> sound ((ts @ [p]) ! i) (own i) K (\<lambda>_ _ _. True)" if "i < Suc (length ts)" for i
  proof (cases "i = length ts")
    case True
    then show ?thesis
      using own(3) assms(2) grows_refl [of k] by (intro exI [of _ k]) simp
  next
    case False
    then show ?thesis
      using ts that by (simp add: nth_append)
  qed
  then show ?thesis
    using own by (intro pool_okI [of own _ k]) auto
qed

lemma pool_ok_cancel:
  assumes "pool_ok (ts, s)" "i < length ts"
  shows "pool_ok (ts[i := Done ()], s)"
proof -
  obtain own k where own: "\<forall>i j. i \<noteq> j \<longrightarrow> own i \<inter> own j = {}" "inv s k (\<Union>i. own i)"
    "\<forall>i \<ge> length ts. own i = {}"
    and ts: "\<forall>i < length ts. \<exists>K. grows K k \<and> sound (ts ! i) (own i) K (\<lambda>_ _ _. True)"
    using pool_okE [OF assms(1)] by metis
  have "inv s k (\<Union>j. (own(i := {})) j)"
    by (rule inv_drop [OF own(2)]) auto
  moreover have "\<exists>K. grows K k \<and> sound (ts[i := Done ()] ! j) ((own(i := {})) j) K (\<lambda>_ _ _. True)"
    if "j < length ts" for j
  proof (cases "j = i")
    case True
    then show ?thesis
      using assms(2) grows_refl [of k] by (intro exI [of _ k]) simp
  next
    case False
    then show ?thesis
      using ts that by simp
  qed
  ultimately show ?thesis
    using own by (intro pool_okI [of "own(i := {})" _ k]) auto
qed

text \<open>Every state of every interleaving satisfies the shared invariant.\<close>

lemma pool_safe:
  assumes "(pool_step P)\<^sup>*\<^sup>* ([], s0) (ts, s)" and "inv s0 k0 {}"
    and "\<And>p K. p \<in> P \<Longrightarrow> sound p {} K (\<lambda>_ _ _. True)"
  shows "\<exists>k A. inv s k A"
proof -
  have "pool_ok (ts, s)"
    using assms(1)
  proof (induction "(ts, s)" arbitrary: ts s rule: rtranclp_induct)
    case base
    then show ?case
      using pool_ok_init [OF assms(2)] by simp
  next
    case (step c)
    then show ?case
      by (cases c) (auto elim!: pool_stepE intro: pool_ok_advance pool_ok_spawn pool_ok_cancel assms(3))
  qed
  then show ?thesis
    unfolding pool_ok_def by auto
qed

lemma sound_forget: "sound p {} K (\<lambda>_ _ _. True) \<Longrightarrow> sound (forget p) {} K (\<lambda>_ _ _. True)"
  unfolding forget_def by (rule sound_bind) auto

end

end
