(* ===== verification/AgentClient.thy ===== *)
theory AgentClient
  imports HostCalls
begin

text \<open>
  \<^verbatim>\<open>clawpot-server/src/agent/client.rs\<close>: reaching the agent inside a VM through
  Firecracker's vsock socket. The gRPC channel itself is tonic's; the connector passed to it
  (connect, the \<^verbatim>\<open>CONNECT\<close> handshake, the answer line) is this program's.
\<close>

abbreviation AGENT_VSOCK_PORT :: nat where
  "AGENT_VSOCK_PORT \<equiv> 10051"

definition connect_cmd :: string where
  "connect_cmd = ''CONNECT '' @ show_nat AGENT_VSOCK_PORT @ [CHR 0x0A]"

definition vsock_connector :: "sys_host \<Rightarrow> string \<Rightarrow> (io_error + unit) sys" where
  "vsock_connector host path =
     bindE (map_io reply_unit (ask host (UnixConnect path))) (\<lambda>_.
     bindE (map_io reply_unit (ask host (StreamWrite (bytes_of connect_cmd)))) (\<lambda>_.
     bindE (map_io reply_text (ask host StreamReadLine)) (\<lambda>response.
     if \<not> starts_with ''OK'' response then
       ret_io (Inl (IoError ConnectionRefused (''vsock CONNECT failed: '' @ trim response)))
     else ret_io (Inr ()))))"

definition agent_connect :: "sys_host \<Rightarrow> string \<Rightarrow> (anyhow + unit) sys" where
  "agent_connect host path =
     ctx_io ''Failed to connect to agent via vsock'' (map_io to_anyhow (vsock_connector host path))"

text \<open>One round of \<^verbatim>\<open>wait_ready\<close>: connect and check the agent's health.\<close>

definition agent_probe :: "sys_host \<Rightarrow> string \<Rightarrow> bool sys" where
  "agent_probe host path =
     bind_io (agent_connect host path) (\<lambda>r.
     case r of
       Inl _ \<Rightarrow> ret_io False
     | Inr _ \<Rightarrow> map_io (\<lambda>r. is_ok (reply_unit r)) (ask host AgentHealth))"

text \<open>\<^verbatim>\<open>Duration\<close>'s \<^verbatim>\<open>{:?}\<close> of a whole number of seconds.\<close>

definition show_secs :: "nat \<Rightarrow> string" where
  "show_secs ms = show_nat (ms div 1000) @ ''s''"

text \<open>
  \<^verbatim>\<open>wait_ready\<close>. \<open>slept\<close> is the time slept so far. A sleep never ends early and the clock never
  runs backwards, so the elapsed time is what was slept and whatever the host reports on top of
  it; this is why the loop ends.
\<close>

function wait_ready_loop :: "sys_host \<Rightarrow> string \<Rightarrow> nat \<Rightarrow> nat \<Rightarrow> (anyhow + unit) sys" where
  "wait_ready_loop host path timeout slept =
     bind_io (agent_probe host path) (\<lambda>ready.
     if ready then ret_io (Inr ())
     else
       bind_io (map_io reply_millis (ask host ElapsedMs)) (\<lambda>extra.
       if slept + extra \<ge> timeout then
         ret_io (Inl (anyhow (''Agent did not become ready within '' @ show_secs timeout)))
       else
         bind_io (ask host (SleepMs 500)) (\<lambda>_.
         wait_ready_loop host path timeout (slept + 500))))"
  by pat_completeness auto
termination
  by (relation "measure (\<lambda>(host, path, timeout, slept). timeout - slept)") auto

declare wait_ready_loop.simps [simp del]

definition wait_ready :: "sys_host \<Rightarrow> string \<Rightarrow> nat \<Rightarrow> (anyhow + unit) sys" where
  "wait_ready host path timeout = wait_ready_loop host path timeout 0"

definition agent_exec :: "sys_host \<Rightarrow> exec_request \<Rightarrow> (anyhow + exec_response) sys" where
  "agent_exec host req =
     map_io (\<lambda>r. case reply_exec r of
         Inl e \<Rightarrow> Inl (anyhow (''Agent exec failed: '' @ io_message e))
       | Inr resp \<Rightarrow> Inr resp)
       (ask host (AgentExec req))"

subsection \<open>Bounded waiting\<close>

definition probes :: "sys_history \<Rightarrow> nat" where
  "probes k = length (filter (\<lambda>(c, _). case c of UnixConnect _ \<Rightarrow> True | _ \<Rightarrow> False) k)"

lemma probes_append [simp]: "probes (k @ l) = probes k + probes l"
  by (simp add: probes_def)

lemma probes_simps [simp]:
  "probes [] = 0" "probes ((UnixConnect p, r) # k) = Suc (probes k)"
  "probes ((StreamWrite b, r) # k) = probes k" "probes ((StreamReadLine, r) # k) = probes k"
  "probes ((AgentHealth, r) # k) = probes k" "probes ((SleepMs n, r) # k) = probes k"
  "probes ((ElapsedMs, r) # k) = probes k"
  by (simp_all add: probes_def)

lemma vsock_connector_trace: "traces (vsock_connector host path) (\<lambda>_ k. probes k = 1)"
  unfolding vsock_connector_def
  apply (rule traces_bindE [OF traces_map_ask [where P = "\<lambda>_ k. probes k = 1"]], simp, simp)
  apply (rule traces_bindE [OF traces_map_ask [where P = "\<lambda>_ k. probes k = 0"]], simp, simp)
  apply (rule traces_bindE [OF traces_map_ask [where P = "\<lambda>_ k. probes k = 0"]], simp, simp)
  apply (auto intro: traces_ret)
  done

lemma agent_probe_trace: "traces (agent_probe host path) (\<lambda>_ k. probes k = 1)"
proof -
  have "traces (agent_connect host path) (\<lambda>_ k. probes k = 1)"
    unfolding agent_connect_def using vsock_connector_trace by (intro traces_ctx traces_map)
  then show ?thesis
    unfolding agent_probe_def
    by (rule traces_bind) (auto intro!: traces_ret traces_map traces_ask split: sum.split)
qed

lemma wait_ready_loop_trace:
  "traces (wait_ready_loop host path timeout slept)
     (\<lambda>_ k. probes k \<le> Suc ((timeout - slept + 499) div 500))"
proof (induction host path timeout slept rule: wait_ready_loop.induct)
  case (1 host path timeout slept)
  have rounds: "Suc (Suc ((timeout - (slept + 500) + 499) div 500)) \<le> Suc ((timeout - slept + 499) div 500)"
    if "slept < timeout"
  proof (cases "timeout - slept \<ge> 500")
    case True
    then have "timeout - slept + 499 = (timeout - (slept + 500) + 499) + 500"
      by simp
    then show ?thesis
      by (simp only: div_add_self2)
  next
    case False
    with that have "timeout - slept + 499 \<ge> 500"
      by simp
    then show ?thesis
      using False by simp
  qed
  show ?case
    apply (subst wait_ready_loop.simps)
    apply (rule traces_bind [OF agent_probe_trace])
    apply (auto intro!: traces_ret)
    apply (rule traces_bind [OF traces_map_ask [where P = "\<lambda>_ k. probes k = 0"]], simp)
    apply (auto intro!: traces_ret)
    apply (rule traces_bind [OF traces_ask [where P = "\<lambda>_ k. probes k = 0"]], simp)
    subgoal for k extra k' r k''
      using rounds by (intro traces_weaken [OF 1]) auto
    done
qed

text \<open>C39: Waiting for the guest agent ends: for the 30 seconds \<^verbatim>\<open>create_vm\<close> allows it makes at
  most 61 attempts to connect, whatever the socket and the agent do.\<close>

theorem wait_ready_bounded:
  "case wait_ready host path 30000 h of (r, h') \<Rightarrow> \<exists>k. h' = h @ k \<and> probes k \<le> 61"
  unfolding wait_ready_def
  by (rule traces_case, rule traces_weaken [OF wait_ready_loop_trace]) simp

end
