(* ===== verification/FirecrackerApi.thy ===== *)
theory FirecrackerApi
  imports HostCalls
begin

text \<open>
  \<^verbatim>\<open>clawpot-common/src/firecracker\<close>: the VM configuration builder (config.rs), the request
  bodies of the Firecracker API (models.rs) and the HTTP client over the API socket
  (client.rs). A \<^verbatim>\<open>PathBuf\<close> is the list of its bytes; \<^verbatim>\<open>to_str\<close> fails when they are not
  UTF-8. Each request body is the JSON value its \<^verbatim>\<open>Serialize\<close> derivation describes.
\<close>

subsection \<open>config.rs\<close>

record vm_config =
  cfg_kernel_path :: string
  cfg_rootfs_path :: string
  cfg_vcpu_count :: u8
  cfg_mem_size_mib :: u32
  cfg_boot_args :: string
  cfg_tap_device :: "string option"
  cfg_ip_address :: "string option"
  cfg_guest_cid :: "u32 option"
  cfg_vsock_uds_path :: "string option"

definition VmConfig_new :: "string \<Rightarrow> string \<Rightarrow> vm_config" where
  "VmConfig_new kernel_path rootfs_path =
     \<lparr>cfg_kernel_path = kernel_path,
      cfg_rootfs_path = rootfs_path,
      cfg_vcpu_count = 1,
      cfg_mem_size_mib = 256,
      cfg_boot_args = ''console=ttyS0 reboot=k panic=1 pci=off'',
      cfg_tap_device = None,
      cfg_ip_address = None,
      cfg_guest_cid = None,
      cfg_vsock_uds_path = None\<rparr>"

definition with_vcpus :: "u8 \<Rightarrow> vm_config \<Rightarrow> vm_config" where
  "with_vcpus count c = c\<lparr>cfg_vcpu_count := count\<rparr>"

definition with_memory :: "u32 \<Rightarrow> vm_config \<Rightarrow> vm_config" where
  "with_memory mib c = c\<lparr>cfg_mem_size_mib := mib\<rparr>"

definition with_boot_args :: "string \<Rightarrow> vm_config \<Rightarrow> vm_config" where
  "with_boot_args args c = c\<lparr>cfg_boot_args := args\<rparr>"

definition with_network :: "string \<Rightarrow> string \<Rightarrow> vm_config \<Rightarrow> vm_config" where
  "with_network tap_device ip_address c =
     (let ip_config = ''ip='' @ ip_address @ ''::192.168.100.1:255.255.255.0::eth0:off'' in
      c\<lparr>cfg_tap_device := Some tap_device,
        cfg_boot_args := ''console=ttyS0 reboot=k panic=1 pci=off '' @ ip_config,
        cfg_ip_address := Some ip_address\<rparr>)"

definition with_vsock :: "u32 \<Rightarrow> string \<Rightarrow> vm_config \<Rightarrow> vm_config" where
  "with_vsock guest_cid uds_path c =
     c\<lparr>cfg_guest_cid := Some guest_cid, cfg_vsock_uds_path := Some uds_path\<rparr>"

text \<open>\<^verbatim>\<open>Path::display\<close> and \<^verbatim>\<open>Path::to_str\<close>.\<close>

definition path_display :: "string \<Rightarrow> string" where
  "path_display p = from_utf8_lossy (bytes_of p)"

definition path_to_str :: "string \<Rightarrow> string option" where
  "path_to_str p = (if is_utf8 p then Some p else None)"

definition validate :: "sys_host \<Rightarrow> vm_config \<Rightarrow> (anyhow + unit) sys" where
  "validate host c =
     bind_io (path_exists host (cfg_kernel_path c)) (\<lambda>kernel.
     if \<not> kernel then
       ret_io (Inl (anyhow (''Kernel image not found: '' @ path_display (cfg_kernel_path c))))
     else
     bind_io (path_exists host (cfg_rootfs_path c)) (\<lambda>rootfs.
     if \<not> rootfs then
       ret_io (Inl (anyhow (''Rootfs image not found: '' @ path_display (cfg_rootfs_path c))))
     else if cfg_vcpu_count c = 0 then
       ret_io (Inl (anyhow ''vCPU count must be at least 1''))
     else if cfg_mem_size_mib c < 128 then
       ret_io (Inl (anyhow ''Memory size must be at least 128 MiB''))
     else ret_io (Inr ())))"

subsection \<open>models.rs\<close>

record boot_source =
  kernel_image_path :: string
  boot_args :: string

record drive =
  drive_id :: string
  path_on_host :: string
  is_root_device :: bool
  is_read_only :: bool

record machine_config =
  mc_vcpu_count :: u8
  mc_mem_size_mib :: u32

record network_interface =
  iface_id :: string
  host_dev_name :: string
  guest_mac :: "string option"

record vsock_device =
  vsock_guest_cid :: u32
  vsock_path :: string

record instance_info =
  info_id :: string
  info_state :: string
  info_vmm_version :: string
  info_app_name :: string

definition boot_source_json :: "boot_source \<Rightarrow> json" where
  "boot_source_json b =
     JObject [(''kernel_image_path'', JString (kernel_image_path b)),
              (''boot_args'', JString (boot_args b))]"

definition drive_json :: "drive \<Rightarrow> json" where
  "drive_json d =
     JObject [(''drive_id'', JString (drive_id d)), (''path_on_host'', JString (path_on_host d)),
              (''is_root_device'', JBool (is_root_device d)),
              (''is_read_only'', JBool (is_read_only d))]"

definition machine_config_json :: "machine_config \<Rightarrow> json" where
  "machine_config_json c =
     JObject [(''vcpu_count'', jnat (unat (mc_vcpu_count c))),
              (''mem_size_mib'', jnat (unat (mc_mem_size_mib c)))]"

text \<open>\<^verbatim>\<open>guest_mac\<close> is skipped when it is \<^verbatim>\<open>None\<close>.\<close>

definition network_interface_json :: "network_interface \<Rightarrow> json" where
  "network_interface_json i =
     JObject ([(''iface_id'', JString (iface_id i)),
               (''host_dev_name'', JString (host_dev_name i))] @
              (case guest_mac i of None \<Rightarrow> [] | Some mac \<Rightarrow> [(''guest_mac'', JString mac)]))"

definition vsock_device_json :: "vsock_device \<Rightarrow> json" where
  "vsock_device_json v =
     JObject [(''guest_cid'', jnat (unat (vsock_guest_cid v))),
              (''uds_path'', JString (vsock_path v))]"

definition InstanceActionInfo_start :: json where
  "InstanceActionInfo_start = JObject [(''action_type'', JString ''InstanceStart'')]"

definition InstanceActionInfo_send_ctrl_alt_del :: json where
  "InstanceActionInfo_send_ctrl_alt_del = JObject [(''action_type'', JString ''SendCtrlAltDel'')]"

text \<open>\<^verbatim>\<open>#[serde(default)]\<close>: a missing field is the empty string, a field of another type an
  error.\<close>

definition de_default :: "string \<Rightarrow> json \<Rightarrow> string option" where
  "de_default k j = (case json_get k j of None \<Rightarrow> Some [] | Some v \<Rightarrow> as_str v)"

definition de_instance_info :: "json \<Rightarrow> instance_info option" where
  "de_instance_info j =
     (case (de_default ''id'' j, Option.bind (json_get ''state'' j) as_str,
            de_default ''vmm_version'' j, de_default ''app_name'' j) of
        (Some i, Some s, Some v, Some a) \<Rightarrow>
          Some \<lparr>info_id = i, info_state = s, info_vmm_version = v, info_app_name = a\<rparr>
      | _ \<Rightarrow> None)"

definition de_error_response :: "json \<Rightarrow> string option" where
  "de_error_response j = Option.bind (json_get ''fault_message'' j) as_str"

subsection \<open>client.rs\<close>

definition is_success :: "u16 \<Rightarrow> bool" where
  "is_success status \<longleftrightarrow> 200 \<le> status \<and> status < 300"

text \<open>The error of an unsuccessful response, shared text of \<^verbatim>\<open>put\<close> and \<^verbatim>\<open>get\<close>.\<close>

definition api_error :: "libs \<Rightarrow> u16 \<Rightarrow> bytes \<Rightarrow> anyhow" where
  "api_error X status body =
     (case Option.bind (json_from_slice X body) de_error_response of
        Some fault_message \<Rightarrow>
          anyhow (''Firecracker API error ('' @ status_display X status @ ''): '' @ fault_message)
      | None \<Rightarrow>
          anyhow (''Request failed with status '' @ status_display X status @ '': '' @
            from_utf8_lossy body))"

definition send_request ::
  "libs \<Rightarrow> sys_host \<Rightarrow> string \<Rightarrow> string \<Rightarrow> string \<Rightarrow> json option \<Rightarrow> (anyhow + bytes) sys" where
  "send_request X host method socket path body =
     (case path_to_str socket of
        None \<Rightarrow> ret_io (Inl (anyhow ''Invalid socket path''))
      | Some socket_str \<Rightarrow>
          map_io (\<lambda>r.
            case reply_http r of
              Inl e \<Rightarrow> Inl (err_context ''Failed to send request'' (anyhow_of_io e))
            | Inr (status, Inl e) \<Rightarrow>
                Inl (err_context ''Failed to read response body'' (anyhow_of_io e))
            | Inr (status, Inr body_bytes) \<Rightarrow>
                if \<not> is_success status then Inl (api_error X status body_bytes)
                else Inr body_bytes)
            (ask host (FcRequest method socket_str path body)))"

definition fc_put :: "libs \<Rightarrow> sys_host \<Rightarrow> string \<Rightarrow> string \<Rightarrow> json \<Rightarrow> (anyhow + unit) sys" where
  "fc_put X host socket path body =
     bindE (send_request X host ''PUT'' socket path (Some body)) (\<lambda>_. ret_io (Inr ()))"

definition fc_get :: "libs \<Rightarrow> sys_host \<Rightarrow> string \<Rightarrow> string \<Rightarrow> (anyhow + json) sys" where
  "fc_get X host socket path =
     bindE (send_request X host ''GET'' socket path None) (\<lambda>body.
       ret_io (case json_from_slice X body of
                 Some j \<Rightarrow> Inr j
               | None \<Rightarrow> Inl (anyhow ''Failed to deserialize response'')))"

definition set_boot_source where
  "set_boot_source X host socket config =
     ctx_io ''Failed to set boot source'' (fc_put X host socket ''/boot-source'' (boot_source_json config))"

definition set_drive where
  "set_drive X host socket d =
     ctx_io ''Failed to set drive''
       (fc_put X host socket (''/drives/'' @ drive_id d) (drive_json d))"

definition set_machine_config where
  "set_machine_config X host socket config =
     ctx_io ''Failed to set machine config''
       (fc_put X host socket ''/machine-config'' (machine_config_json config))"

definition start_instance where
  "start_instance X host socket =
     ctx_io ''Failed to start instance'' (fc_put X host socket ''/actions'' InstanceActionInfo_start)"

definition send_ctrl_alt_del where
  "send_ctrl_alt_del X host socket =
     ctx_io ''Failed to send Ctrl+Alt+Del''
       (fc_put X host socket ''/actions'' InstanceActionInfo_send_ctrl_alt_del)"

definition get_instance_info :: "libs \<Rightarrow> sys_host \<Rightarrow> string \<Rightarrow> (anyhow + instance_info) sys" where
  "get_instance_info X host socket =
     ctx_io ''Failed to get instance info''
       (bindE (fc_get X host socket ''/'') (\<lambda>j.
          ret_io (case de_instance_info j of
                    Some i \<Rightarrow> Inr i
                  | None \<Rightarrow> Inl (anyhow ''Failed to deserialize response''))))"

definition set_network_interface where
  "set_network_interface X host socket i =
     ctx_io ''Failed to set network interface''
       (fc_put X host socket (''/network-interfaces/'' @ iface_id i) (network_interface_json i))"

definition set_vsock where
  "set_vsock X host socket v =
     ctx_io ''Failed to set vsock device'' (fc_put X host socket ''/vsock'' (vsock_device_json v))"

definition set_entropy where
  "set_entropy X host socket =
     ctx_io ''Failed to set entropy device'' (fc_put X host socket ''/entropy'' (JObject []))"

lemmas client_call_defs =
  set_boot_source_def set_drive_def set_machine_config_def start_instance_def
  send_ctrl_alt_del_def set_network_interface_def set_vsock_def set_entropy_def

subsection \<open>What the client sends\<close>

text \<open>The requests of a piece of history that reached the API and were accepted, as
  (path, body) pairs in order.\<close>

definition accepted :: "sys_reply \<Rightarrow> bool" where
  "accepted r = (case reply_http r of Inr (status, Inr _) \<Rightarrow> is_success status | _ \<Rightarrow> False)"

fun api_puts :: "sys_history \<Rightarrow> (string \<times> json) list" where
  "api_puts [] = []"
| "api_puts ((FcRequest m socket path (Some body), r) # k) =
     (if m = ''PUT'' \<and> accepted r then (path, body) # api_puts k else api_puts k)"
| "api_puts (_ # k) = api_puts k"

lemma api_puts_append [simp]: "api_puts (k @ l) = api_puts k @ api_puts l"
  by (induction k rule: api_puts.induct) auto

lemma fc_put_trace:
  "traces (fc_put X host socket path body)
     (\<lambda>r k. api_puts k = (if is_ok r then [(path, body)] else []))"
  unfolding fc_put_def send_request_def
  by (auto intro!: traces_bindE [where P = "\<lambda>r k. api_puts k = (if is_ok r then [(path, body)] else [])"]
      traces_map traces_ask traces_ret simp: accepted_def split: option.splits sum.splits)

text \<open>The set-up calls of the API client, each of which sends one accepted request or fails.\<close>

lemma client_put_trace:
  "traces (ctx_io c (fc_put X host socket path body))
     (\<lambda>r k. api_puts k = (if is_ok r then [(path, body)] else []))"
  by (rule traces_ctx) (use fc_put_trace in simp)

lemma only_fc_put [only_intros]:
  "(\<And>s. FcRequest ''PUT'' s path (Some body) \<in> S) \<Longrightarrow> only (fc_put X host socket path body) S"
  unfolding fc_put_def send_request_def by (auto intro!: only_intros)

end
