(* ===== verification/VmLifecycle.thy ===== *)
theory VmLifecycle
  imports Prelude
begin

text \<open>
  \<^verbatim>\<open>clawpot-common/src/vm/lifecycle.rs\<close>: the states of a VM and the transitions
  \<^verbatim>\<open>transition_to\<close> admits. The legal moves are also stated as an inductive relation, the
  state diagram, which the code's pattern match is shown to decide.
\<close>

datatype vm_state = NotStarted | Starting | Running | Stopping | Stopped | Error

definition vm_state_display :: "vm_state \<Rightarrow> string" where
  "vm_state_display s =
     (case s of
        NotStarted \<Rightarrow> ''Not Started''
      | Starting \<Rightarrow> ''Starting''
      | Running \<Rightarrow> ''Running''
      | Stopping \<Rightarrow> ''Stopping''
      | Stopped \<Rightarrow> ''Stopped''
      | Error \<Rightarrow> ''Error'')"

definition VmLifecycle_new :: vm_state where
  "VmLifecycle_new = NotStarted"

definition is_valid :: "vm_state \<Rightarrow> vm_state \<Rightarrow> bool" where
  "is_valid state new_state \<longleftrightarrow>
     (case (state, new_state) of
        (_, Error) \<Rightarrow> True
      | (NotStarted, Starting) \<Rightarrow> True
      | (Stopped, Starting) \<Rightarrow> True
      | (Starting, Running) \<Rightarrow> True
      | (Starting, Stopping) \<Rightarrow> True
      | (Starting, Stopped) \<Rightarrow> True
      | (Running, Stopping) \<Rightarrow> True
      | (Stopping, Stopped) \<Rightarrow> True
      | _ \<Rightarrow> False)
     \<or> state = new_state"

definition transition_to :: "vm_state \<Rightarrow> vm_state \<Rightarrow> anyhow + vm_state" where
  "transition_to new_state state =
     (if \<not> is_valid state new_state then
        Inl (anyhow (''Invalid state transition from '' @ vm_state_display state @ '' to '' @
          vm_state_display new_state))
      else Inr new_state)"

subsection \<open>The state diagram\<close>

inductive vm_edge :: "vm_state \<Rightarrow> vm_state \<Rightarrow> bool" where
  fail: "vm_edge s Error"
| start: "vm_edge NotStarted Starting"
| restart: "vm_edge Stopped Starting"
| started: "vm_edge Starting Running"
| abort: "vm_edge Starting Stopping"
| abandon: "vm_edge Starting Stopped"
| stop: "vm_edge Running Stopping"
| halt: "vm_edge Stopping Stopped"
| stay: "vm_edge s s"

inductive_simps vm_edge_simps: "vm_edge s t"

lemma is_valid_iff: "is_valid s t \<longleftrightarrow> vm_edge s t"
  by (cases s; cases t) (simp_all add: is_valid_def vm_edge_simps)

text \<open>Following a list of requests, ignoring the rejected ones, as a client that only logs
  the error does.\<close>

fun follow :: "vm_state \<Rightarrow> vm_state list \<Rightarrow> vm_state list" where
  "follow s [] = []"
| "follow s (t # ts) =
     (case transition_to t s of Inl _ \<Rightarrow> follow s ts | Inr s' \<Rightarrow> s' # follow s' ts)"

lemma follow_Running:
  "Running \<in> set (follow s ts) \<Longrightarrow> s \<notin> {Starting, Running} \<Longrightarrow> Starting \<in> set (follow s ts)"
proof (induction ts arbitrary: s)
  case (Cons t ts)
  show ?case
  proof (cases "transition_to t s")
    case (Inr s')
    then have "s' = t" "vm_edge s t"
      by (auto simp: transition_to_def is_valid_iff split: if_splits)
    with Cons Inr show ?thesis
      by (cases "t \<in> {Starting, Running}") (auto simp: vm_edge_simps)
  qed (use Cons in auto)
qed simp

text \<open>\<^verbatim>\<open>transition_to\<close> accepts exactly the edges of the state diagram, moves to the
  requested state when it accepts, and reports both states when it rejects.\<close>

lemma transition_to_diagram:
  "transition_to t s =
     (if vm_edge s t then Inr t
      else Inl (anyhow (''Invalid state transition from '' @ vm_state_display s @ '' to '' @
        vm_state_display t)))"
  by (simp add: transition_to_def is_valid_iff)

text \<open>A VM that has not begun to start never becomes running without passing through
  the starting state, whatever sequence of transitions is requested.\<close>

theorem running_only_after_starting:
  assumes "Running \<in> set (follow VmLifecycle_new ts)"
  shows "Starting \<in> set (follow VmLifecycle_new ts)"
  using follow_Running [OF assms] by (simp add: VmLifecycle_new_def)

theorem running_only_after_starting_witness:
  "Running \<in> set (follow VmLifecycle_new [Running, Starting, Running]) \<and>
   Starting \<in> set (follow VmLifecycle_new [Running, Starting, Running])"
proof -
  have "Running \<in> set (follow VmLifecycle_new [Running, Starting, Running])"
    by (simp add: VmLifecycle_new_def transition_to_def is_valid_def)
  then show ?thesis
    using running_only_after_starting by blast
qed

end
