(* ===== verification/VmManager.thy ===== *)
theory VmManager
  imports FirecrackerApi VmLifecycle
begin

text \<open>
  \<^verbatim>\<open>clawpot-common/src/vm/manager.rs\<close>: the manager that starts a Firecracker process, waits
  for its API socket, configures the machine, boots it and later stops it. A method on
  \<^verbatim>\<open>&mut self\<close> threads the manager together with the history of outside calls; a method on
  \<^verbatim>\<open>&self\<close> only reads it. The API client of the manager is its socket path.
\<close>

record vm_manager =
  socket_path :: string
  firecracker_process :: "nat option"
  lifecycle :: vm_state

type_synonym 'a mgr = "(vm_manager \<times> sys_history, 'a) io"

definition VmManager_new :: "string \<Rightarrow> vm_manager" where
  "VmManager_new path =
     \<lparr>socket_path = path, firecracker_process = None, lifecycle = VmLifecycle_new\<rparr>"

definition set_state :: "vm_state \<Rightarrow> (anyhow + unit) mgr" where
  "set_state new_state =
     (\<lambda>(m, h). case transition_to new_state (lifecycle m) of
        Inl e \<Rightarrow> (Inl e, (m, h))
      | Inr s \<Rightarrow> (Inr (), (m\<lparr>lifecycle := s\<rparr>, h)))"

text \<open>Lines 55 to 63 of \<^verbatim>\<open>start\<close>: remove a stale API socket.\<close>

definition remove_existing_socket :: "sys_host \<Rightarrow> string \<Rightarrow> (anyhow + unit) sys" where
  "remove_existing_socket host path =
     bind_io (path_exists host path) (\<lambda>exists.
     if exists then
       ctx_io ''Failed to remove existing socket file'' (call_unit host (RemoveFile path))
     else ret_io (Inr ()))"

definition start_firecracker_process :: "sys_host \<Rightarrow> (anyhow + unit) mgr" where
  "start_firecracker_process host =
     bind_io (gets_io socket_path) (\<lambda>path.
     bindE (ctx_io ''Failed to spawn firecracker process''
              (lift_io (map_io (\<lambda>r. to_anyhow (reply_pid r)) (ask host (SpawnFirecracker path))))) (\<lambda>child.
     bind_io (modify_io (\<lambda>m. m\<lparr>firecracker_process := Some child\<rparr>)) (\<lambda>_.
     ret_io (Inr ()))))"

fun wait_attempts :: "sys_host \<Rightarrow> string \<Rightarrow> nat \<Rightarrow> (anyhow + unit) sys" where
  "wait_attempts host path 0 =
     ret_io (Inl (anyhow (''Socket did not become ready after '' @ show_nat 50 @ '' attempts ('' @
       show_nat (50 * 100) @ '' ms)'')))"
| "wait_attempts host path (Suc n) =
     bind_io (path_exists host path) (\<lambda>exists.
     if exists then bind_io (sleep_ms host 50) (\<lambda>_. ret_io (Inr ()))
     else bind_io (sleep_ms host 100) (\<lambda>_. wait_attempts host path n))"

definition wait_for_socket :: "sys_host \<Rightarrow> string \<Rightarrow> (anyhow + unit) sys" where
  "wait_for_socket host path = wait_attempts host path 50"

definition configure_vm :: "libs \<Rightarrow> sys_host \<Rightarrow> string \<Rightarrow> vm_config \<Rightarrow> (anyhow + unit) sys" where
  "configure_vm X host socket config =
     (case path_to_str (cfg_kernel_path config) of
        None \<Rightarrow> ret_io (Inl (anyhow ''Invalid kernel path''))
      | Some kernel_str \<Rightarrow>
     bindE (ctx_io ''Failed to set boot source''
              (set_boot_source X host socket
                 \<lparr>kernel_image_path = kernel_str, boot_args = cfg_boot_args config\<rparr>)) (\<lambda>_.
     (case path_to_str (cfg_rootfs_path config) of
        None \<Rightarrow> ret_io (Inl (anyhow ''Invalid rootfs path''))
      | Some rootfs \<Rightarrow>
     bindE (ctx_io ''Failed to set root drive''
              (set_drive X host socket
                 \<lparr>drive_id = ''rootfs'', path_on_host = rootfs, is_root_device = True,
                  is_read_only = False\<rparr>)) (\<lambda>_.
     bindE (ctx_io ''Failed to set machine config''
              (set_machine_config X host socket
                 \<lparr>mc_vcpu_count = cfg_vcpu_count config,
                  mc_mem_size_mib = cfg_mem_size_mib config\<rparr>)) (\<lambda>_.
     bindE (case (cfg_tap_device config, cfg_ip_address config) of
              (Some tap_device, Some _) \<Rightarrow>
                ctx_io ''Failed to set network interface''
                  (set_network_interface X host socket
                     \<lparr>iface_id = ''eth0'', host_dev_name = tap_device, guest_mac = None\<rparr>)
            | _ \<Rightarrow> ret_io (Inr ())) (\<lambda>_.
     bindE (ctx_io ''Failed to enable entropy device'' (set_entropy X host socket)) (\<lambda>_.
     (case (cfg_guest_cid config, cfg_vsock_uds_path config) of
        (Some guest_cid, Some uds_path) \<Rightarrow>
          ctx_io ''Failed to set vsock device''
            (set_vsock X host socket \<lparr>vsock_guest_cid = guest_cid, vsock_path = uds_path\<rparr>)
      | _ \<Rightarrow> ret_io (Inr ())))))))))"

definition start :: "libs \<Rightarrow> sys_host \<Rightarrow> vm_config \<Rightarrow> (anyhow + unit) mgr" where
  "start X host config =
     bindE (ctx_io ''Invalid VM configuration'' (lift_io (validate host config))) (\<lambda>_.
     bindE (ctx_io ''Failed to transition to Starting state'' (set_state Starting)) (\<lambda>_.
     bind_io (gets_io socket_path) (\<lambda>path.
     bindE (lift_io (remove_existing_socket host path)) (\<lambda>_.
     bindE (ctx_io ''Failed to start Firecracker process'' (start_firecracker_process host)) (\<lambda>_.
     bindE (ctx_io ''Socket did not become ready'' (lift_io (wait_for_socket host path))) (\<lambda>_.
     bindE (ctx_io ''Failed to configure VM'' (lift_io (configure_vm X host path config))) (\<lambda>_.
     bindE (ctx_io ''Failed to start instance'' (lift_io (start_instance X host path))) (\<lambda>_.
     ctx_io ''Failed to transition to Running state'' (set_state Running)))))))))"

text \<open>Lines 252 to 262 of \<^verbatim>\<open>stop\<close>: take the child, kill it and reap it, errors only logged.\<close>

definition kill_process :: "sys_host \<Rightarrow> unit mgr" where
  "kill_process host =
     bind_io (gets_io firecracker_process) (\<lambda>p.
     case p of
       None \<Rightarrow> ret_io ()
     | Some child \<Rightarrow>
         bind_io (modify_io (\<lambda>m. m\<lparr>firecracker_process := None\<rparr>)) (\<lambda>_.
         bind_io (lift_io (ask host (KillChild child))) (\<lambda>_.
         bind_io (lift_io (ask host (WaitChild child))) (\<lambda>_. ret_io ()))))"

definition remove_socket_file :: "sys_host \<Rightarrow> string \<Rightarrow> unit sys" where
  "remove_socket_file host path =
     bind_io (path_exists host path) (\<lambda>exists.
     if exists then map_io (\<lambda>_. ()) (ask host (RemoveFile path)) else ret_io ())"

definition stop :: "libs \<Rightarrow> sys_host \<Rightarrow> (anyhow + unit) mgr" where
  "stop X host =
     bind_io (set_state Stopping) (\<lambda>_.
     bind_io (gets_io socket_path) (\<lambda>path.
     bind_io (lift_io (send_ctrl_alt_del X host path)) (\<lambda>_.
     bind_io (lift_io (sleep_ms host 2000)) (\<lambda>_.
     bind_io (kill_process host) (\<lambda>_.
     bind_io (lift_io (remove_socket_file host path)) (\<lambda>_.
     ctx_io ''Failed to transition to Stopped state'' (set_state Stopped)))))))"

definition status :: "libs \<Rightarrow> sys_host \<Rightarrow> vm_manager \<Rightarrow> (anyhow + string) sys" where
  "status X host m =
     bindE (ctx_io ''Failed to get instance info'' (get_instance_info X host (socket_path m))) (\<lambda>info.
     ret_io (Inr (''State: '' @ vm_state_display (lifecycle m) @ [CHR 0x0A] @ ''Firecracker State: '' @
       info_state info @ [CHR 0x0A] @ ''VMM Version: '' @ info_vmm_version info)))"

text \<open>\<^verbatim>\<open>impl Drop for VmManager\<close>.\<close>

definition drop_manager :: "sys_host \<Rightarrow> unit mgr" where
  "drop_manager host =
     bind_io (gets_io firecracker_process) (\<lambda>p.
     bind_io (case p of
         None \<Rightarrow> ret_io ()
       | Some child \<Rightarrow>
           bind_io (modify_io (\<lambda>m. m\<lparr>firecracker_process := None\<rparr>)) (\<lambda>_.
           bind_io (lift_io (ask host (KillChild child))) (\<lambda>_. ret_io ()))) (\<lambda>_.
     bind_io (gets_io socket_path) (\<lambda>path. lift_io (remove_socket_file host path))))"

subsection \<open>Waiting for the socket\<close>

text \<open>Polls of the socket in a piece of history, with what they answered, and the time slept.\<close>

definition polls :: "sys_history \<Rightarrow> bool list" where
  "polls k = List.map_filter (\<lambda>(c, r). case c of PathExists _ \<Rightarrow> Some (reply_true r) | _ \<Rightarrow> None) k"

definition slept :: "sys_history \<Rightarrow> nat" where
  "slept k = sum_list (List.map_filter (\<lambda>(c, _). case c of SleepMs n \<Rightarrow> Some n | _ \<Rightarrow> None) k)"

lemma polls_append [simp]: "polls (k @ l) = polls k @ polls l"
  by (simp add: polls_def map_filter_def)

lemma polls_Cons [simp]:
  "polls ((c, r) # k) = (case c of PathExists _ \<Rightarrow> [reply_true r] | _ \<Rightarrow> []) @ polls k"
  by (simp add: polls_def map_filter_def split: sys_call.splits)

lemma polls_Nil [simp]: "polls [] = []"
  by (simp add: polls_def map_filter_def)

lemma slept_append [simp]: "slept (k @ l) = slept k + slept l"
  by (simp add: slept_def map_filter_def)

lemma slept_Cons [simp]:
  "slept ((c, r) # k) = (case c of SleepMs n \<Rightarrow> n | _ \<Rightarrow> 0) + slept k"
  by (simp add: slept_def map_filter_def split: sys_call.splits)

lemma slept_Nil [simp]: "slept [] = 0"
  by (simp add: slept_def map_filter_def)

lemma path_exists_trace:
  "traces (path_exists host p) (\<lambda>b k. polls k = [b] \<and> slept k = 0 \<and> api_puts k = [])"
  unfolding path_exists_def by (auto intro!: traces_map traces_ask)

lemma sleep_ms_trace:
  "traces (sleep_ms host m) (\<lambda>_ k. polls k = [] \<and> slept k = m \<and> api_puts k = [])"
  unfolding sleep_ms_def by (auto intro!: traces_map traces_ask)

text \<open>Every poll but the last is negative; the last one is positive exactly when waiting
  succeeds; at most \<open>n\<close> polls and 100 milliseconds of sleep for each.\<close>

lemma wait_attempts_trace:
  "traces (wait_attempts host path n)
     (\<lambda>r k. slept k \<le> 100 * n \<and> api_puts k = [] \<and>
       (if is_ok r then \<exists>j<n. polls k = replicate j False @ [True]
        else polls k = replicate n False))"
proof (induction n)
  case 0
  show ?case
    by (auto intro!: traces_ret)
next
  case (Suc n)
  show ?case
    unfolding wait_attempts.simps
  proof (rule traces_bind [OF path_exists_trace])
    fix b k
    assume k: "polls k = [b] \<and> slept k = 0 \<and> api_puts k = []"
    show "traces (if b then bind_io (sleep_ms host 50) (\<lambda>_. ret_io (Inr ()))
        else bind_io (sleep_ms host 100) (\<lambda>_. wait_attempts host path n))
       (\<lambda>r k'. slept (k @ k') \<le> 100 * Suc n \<and> api_puts (k @ k') = [] \<and>
         (if is_ok r then \<exists>j<Suc n. polls (k @ k') = replicate j False @ [True]
          else polls (k @ k') = replicate (Suc n) False))"
    proof (cases b)
      case True
      then show ?thesis
        using k by (auto intro!: traces_bind [OF sleep_ms_trace] traces_ret)
    next
      case False
      have "traces (bind_io (sleep_ms host 100) (\<lambda>_. wait_attempts host path n))
         (\<lambda>r k'. slept (k @ k') \<le> 100 * Suc n \<and> api_puts (k @ k') = [] \<and>
           (if is_ok r then \<exists>j<Suc n. polls (k @ k') = replicate j False @ [True]
            else polls (k @ k') = replicate (Suc n) False))"
        by (rule traces_bind [OF sleep_ms_trace], rule traces_weaken [OF Suc])
          (use k False in \<open>auto split: if_splits intro: exI [of _ "Suc _"]\<close>)
      with False show ?thesis
        by simp
    qed
  qed
qed

subsection \<open>The accepted API requests of a boot\<close>

text \<open>What \<^verbatim>\<open>configure_vm\<close> is meant to send, in order.\<close>

definition setup_puts :: "vm_config \<Rightarrow> (string \<times> json) list" where
  "setup_puts c =
     [(''/boot-source'', boot_source_json
         \<lparr>kernel_image_path = cfg_kernel_path c, boot_args = cfg_boot_args c\<rparr>),
      (''/drives/rootfs'', drive_json
         \<lparr>drive_id = ''rootfs'', path_on_host = cfg_rootfs_path c, is_root_device = True,
          is_read_only = False\<rparr>),
      (''/machine-config'', machine_config_json
         \<lparr>mc_vcpu_count = cfg_vcpu_count c, mc_mem_size_mib = cfg_mem_size_mib c\<rparr>)] @
     (case (cfg_tap_device c, cfg_ip_address c) of
        (Some tap, Some _) \<Rightarrow>
          [(''/network-interfaces/eth0'', network_interface_json
              \<lparr>iface_id = ''eth0'', host_dev_name = tap, guest_mac = None\<rparr>)]
      | _ \<Rightarrow> []) @
     [(''/entropy'', JObject [])] @
     (case (cfg_guest_cid c, cfg_vsock_uds_path c) of
        (Some cid, Some uds) \<Rightarrow>
          [(''/vsock'', vsock_device_json \<lparr>vsock_guest_cid = cid, vsock_path = uds\<rparr>)]
      | _ \<Rightarrow> [])"

abbreviation boot_put :: "string \<times> json" where
  "boot_put \<equiv> (''/actions'', InstanceActionInfo_start)"

definition boot_sequence :: "vm_config \<Rightarrow> (string \<times> json) list" where
  "boot_sequence c = setup_puts c @ [boot_put]"

text \<open>\<open>sends m ps\<close>: the accepted requests of \<open>m\<close> are a prefix of \<open>ps\<close>, and all of \<open>ps\<close>
  exactly when \<open>m\<close> succeeds.\<close>

definition sends :: "(anyhow + unit) sys \<Rightarrow> (string \<times> json) list \<Rightarrow> bool" where
  "sends m ps \<longleftrightarrow> traces m (\<lambda>r k. prefix (api_puts k) ps \<and> (is_ok r \<longleftrightarrow> api_puts k = ps))"

named_theorems send_intros "the request sequences of the API calls"

lemma sends_put [send_intros]: "sends (fc_put X host socket path body) [(path, body)]"
  unfolding sends_def by (rule traces_weaken [OF fc_put_trace]) auto

lemma sends_ctx [send_intros]: "sends m ps \<Longrightarrow> sends (ctx_io c m) ps"
  unfolding sends_def by (rule traces_ctx) simp

lemma sends_done [send_intros]: "sends (ret_io (Inr ())) []"
  unfolding sends_def by (rule traces_ret) simp

lemma sends_fail [send_intros]: "ps \<noteq> [] \<Longrightarrow> sends (ret_io (Inl e)) ps"
  unfolding sends_def by (rule traces_ret) simp

lemma sends_bindE [send_intros]:
  assumes "sends m ps" and "sends (f ()) qs"
  shows "sends (bindE m f) (ps @ qs)"
  unfolding sends_def
proof (rule traces_bindE [OF assms(1) [unfolded sends_def]])
  fix e k
  assume "prefix (api_puts k) ps \<and> (is_ok (Inl e) \<longleftrightarrow> api_puts k = ps)"
  then show "prefix (api_puts k) (ps @ qs) \<and> (is_ok (Inl e) \<longleftrightarrow> api_puts k = ps @ qs)"
    by (auto simp: prefix_def)
next
  fix x :: unit and k
  assume k: "prefix (api_puts k) ps \<and> (is_ok (Inr x) \<longleftrightarrow> api_puts k = ps)"
  show "traces (f x) (\<lambda>y k'. prefix (api_puts (k @ k')) (ps @ qs) \<and>
      (is_ok y \<longleftrightarrow> api_puts (k @ k') = ps @ qs))"
    unfolding unit_eq [of x]
    by (rule traces_weaken [OF assms(2) [unfolded sends_def]]) (use k in auto)
qed

lemma sends_path:
  assumes "\<And>s. sends (f s) (ps s)" and "ps p \<noteq> []"
  shows "sends (case path_to_str p of None \<Rightarrow> ret_io (Inl e) | Some s \<Rightarrow> f s) (ps p)"
  using assms by (auto simp: path_to_str_def intro: sends_fail)

lemma sends_configure_vm: "sends (configure_vm X host socket c) (setup_puts c)"
proof -
  let ?net = "case (cfg_tap_device c, cfg_ip_address c) of
      (Some tap, Some _) \<Rightarrow>
        [(''/network-interfaces/eth0'', network_interface_json
            \<lparr>iface_id = ''eth0'', host_dev_name = tap, guest_mac = None\<rparr>)]
    | _ \<Rightarrow> []"
  let ?vsock = "case (cfg_guest_cid c, cfg_vsock_uds_path c) of
      (Some cid, Some uds) \<Rightarrow>
        [(''/vsock'', vsock_device_json \<lparr>vsock_guest_cid = cid, vsock_path = uds\<rparr>)]
    | _ \<Rightarrow> []"
  have "sends (configure_vm X host socket c)
     ([(''/boot-source'', boot_source_json
         \<lparr>kernel_image_path = cfg_kernel_path c, boot_args = cfg_boot_args c\<rparr>)] @
      [(''/drives/'' @ ''rootfs'', drive_json
         \<lparr>drive_id = ''rootfs'', path_on_host = cfg_rootfs_path c, is_root_device = True,
          is_read_only = False\<rparr>)] @
      [(''/machine-config'', machine_config_json
         \<lparr>mc_vcpu_count = cfg_vcpu_count c, mc_mem_size_mib = cfg_mem_size_mib c\<rparr>)] @
      ?net @ [(''/entropy'', JObject [])] @ ?vsock)"
    unfolding configure_vm_def client_call_defs
    by (rule sends_path sends_bindE sends_ctx sends_put | simp
      | (simp split: option.split, intro conjI allI impI, rule sends_done, rule sends_done,
          rule sends_ctx, rule sends_ctx, rule sends_put))+
  then show ?thesis
    by (simp add: setup_puts_def)
qed

definition non_api :: "sys_call set" where
  "non_api = {c. \<forall>m s p b. c \<noteq> FcRequest m s p b}"

lemma non_api_simps [simp]:
  "PathExists p \<in> non_api" "RemoveFile p \<in> non_api" "SpawnFirecracker p \<in> non_api"
  "KillChild n \<in> non_api" "WaitChild n \<in> non_api" "SleepMs n \<in> non_api"
  by (simp_all add: non_api_def)

lemma api_puts_non_api: "fst ` set k \<subseteq> non_api \<Longrightarrow> api_puts k = []"
  by (induction k rule: api_puts.induct) (auto simp: non_api_def)

lemma only_silent: "only m non_api \<Longrightarrow> traces m (\<lambda>_ k. api_puts k = [])"
  unfolding only_def by (erule traces_weaken) (auto intro: api_puts_non_api)

lemma only_validate: "only (validate host c) non_api"
  unfolding validate_def by (intro only_intros) auto

lemma only_remove_existing_socket: "only (remove_existing_socket host p) non_api"
  unfolding remove_existing_socket_def by (intro only_intros) auto

lemma only_remove_socket_file: "only (remove_socket_file host p) non_api"
  unfolding remove_socket_file_def by (intro only_intros) auto

lemma only_wait_attempts: "only (wait_attempts host p n) non_api"
  by (induction n) (auto intro!: only_intros)

lemmas silent_steps =
  only_silent [OF only_validate] only_silent [OF only_remove_existing_socket]
  only_silent [OF only_remove_socket_file] only_silent [OF only_wait_attempts]

lemma straces_set_state:
  "straces (set_state t) m
     (\<lambda>r m' k. k = [] \<and> (is_ok r \<longleftrightarrow> is_valid (lifecycle m) t) \<and>
       m' = (if is_ok r then m\<lparr>lifecycle := t\<rparr> else m))"
  by (auto simp: straces_def set_state_def transition_to_def)

lemma straces_start_firecracker_process:
  "straces (start_firecracker_process host) m
     (\<lambda>r m' k. api_puts k = [] \<and>
       (if is_ok r then \<exists>pid. m' = m\<lparr>firecracker_process := Some pid\<rparr> else m' = m))"
proof (rule stracesI)
  fix h
  show "\<exists>k. snd (snd (start_firecracker_process host (m, h))) = h @ k \<and> api_puts k = [] \<and>
      (if is_ok (fst (start_firecracker_process host (m, h)))
       then \<exists>pid. fst (snd (start_firecracker_process host (m, h))) = m\<lparr>firecracker_process := Some pid\<rparr>
       else fst (snd (start_firecracker_process host (m, h))) = m)"
    by (cases "reply_pid (host h (SpawnFirecracker (socket_path m)))")
      (auto simp: start_firecracker_process_def io_simps)
qed

subsection \<open>Booting\<close>

text \<open>Steps that send nothing leave a property of the requests to the rest.\<close>

lemma quiet_bindE:
  assumes "straces m s (\<lambda>r s' k. api_puts k = [] \<and> P r s')"
    and "\<And>e s'. P (Inl e) s' \<Longrightarrow> R (Inl e) s' []"
    and "\<And>x s'. P (Inr x) s' \<Longrightarrow> straces (f x) s' (\<lambda>y s'' k. R y s'' (api_puts k))"
  shows "straces (bindE m f) s (\<lambda>y s'' k. R y s'' (api_puts k))"
  by (rule straces_bindE [OF assms(1)])
    (auto simp: assms(2) intro: assms(3))

lemma quiet_lift:
  "traces m (\<lambda>_ k. api_puts k = []) \<Longrightarrow>
   straces (ctx_io c (lift_io m)) s (\<lambda>r s' k. api_puts k = [] \<and> s' = s)"
  by (rule straces_ctx, erule straces_lift) simp

lemma quiet_lift_plain:
  "traces m (\<lambda>_ k. api_puts k = []) \<Longrightarrow>
   straces (lift_io m) s (\<lambda>r s' k. api_puts k = [] \<and> s' = s)"
  by (erule straces_lift) simp

definition boot_outcome ::
  "vm_config \<Rightarrow> vm_manager \<Rightarrow> anyhow + unit \<Rightarrow> vm_manager \<Rightarrow> (string \<times> json) list \<Rightarrow> bool" where
  "boot_outcome c m r m' ps \<longleftrightarrow>
     prefix ps (boot_sequence c) \<and> (is_ok r \<longleftrightarrow> ps = boot_sequence c) \<and>
     socket_path m' = socket_path m \<and>
     (if is_ok r then lifecycle m' = Running \<and> firecracker_process m' \<noteq> None
      else lifecycle m' = lifecycle m \<or> lifecycle m' = Starting)"

lemma boot_outcome_fail:
  "socket_path m' = socket_path m \<Longrightarrow> lifecycle m' = lifecycle m \<or> lifecycle m' = Starting \<Longrightarrow>
   boot_outcome c m (Inl e) m' []"
  by (simp add: boot_outcome_def boot_sequence_def)

text \<open>Configuring and booting a machine whose process runs and answers.\<close>

lemma boot_requests:
  assumes m1: "m1 = m\<lparr>lifecycle := Starting, firecracker_process := Some pid\<rparr>"
  shows "straces
     (bindE (ctx_io c1 (lift_io (configure_vm X host p c))) (\<lambda>_.
      bindE (ctx_io c2 (lift_io (start_instance X host p))) (\<lambda>_. ctx_io c3 (set_state Running)))) m1
     (\<lambda>r m' k. boot_outcome c m r m' (api_puts k))"
proof -
  have conf: "straces (ctx_io c1 (lift_io (configure_vm X host p c))) m1
      (\<lambda>r s k. s = m1 \<and> prefix (api_puts k) (setup_puts c) \<and> (is_ok r \<longleftrightarrow> api_puts k = setup_puts c))"
    by (rule straces_ctx, rule straces_lift [OF sends_configure_vm [unfolded sends_def]]) simp
  have inst: "straces (ctx_io c2 (lift_io (start_instance X host p))) m1
      (\<lambda>r s k. s = m1 \<and> api_puts k = (if is_ok r then [boot_put] else []))"
    unfolding start_instance_def
    by (rule straces_ctx, rule straces_lift [OF client_put_trace]) simp
  have run: "straces (ctx_io c3 (set_state Running)) m1
      (\<lambda>r s k. k = [] \<and> is_ok r \<and> s = m1\<lparr>lifecycle := Running\<rparr>)"
    by (rule straces_ctx, rule straces_weaken [OF straces_set_state])
      (auto simp: m1 is_valid_def)
  show ?thesis
  proof (rule straces_bindE [OF conf], goal_cases)
    case (1 e s' k)
    then show ?case
      by (auto simp: boot_outcome_def boot_sequence_def m1)
  next
    case (2 x s' k)
    then have 2: "s' = m1" "api_puts k = setup_puts c"
      by auto
    show ?case
      unfolding 2(1)
    proof (rule straces_bindE [OF inst], goal_cases)
      case (1 e s'' k')
      then show ?case
        by (simp add: boot_outcome_def boot_sequence_def m1 2(2))
    next
      case (2 x s'' k')
      then have "s'' = m1" "api_puts k' = [boot_put]"
        by auto
      then show ?case
        using \<open>api_puts k = setup_puts c\<close>
        by (auto intro!: straces_weaken [OF run] simp: boot_outcome_def boot_sequence_def)
          (simp_all add: m1)
    qed
  qed
qed

lemma straces_start:
  "straces (start X host c) m (\<lambda>r m' k. boot_outcome c m r m' (api_puts k))"
proof -
  have set_starting: "straces (ctx_io t (set_state Starting)) m
      (\<lambda>r s k. api_puts k = [] \<and> s = (if is_ok r then m\<lparr>lifecycle := Starting\<rparr> else m))" for t
    by (rule straces_ctx, rule straces_weaken [OF straces_set_state]) simp
  have spawn: "straces (ctx_io t (start_firecracker_process host)) s
      (\<lambda>r s' k. api_puts k = [] \<and>
        (if is_ok r then \<exists>pid. s' = s\<lparr>firecracker_process := Some pid\<rparr> else s' = s))" for t s
    by (rule straces_ctx, rule straces_weaken [OF straces_start_firecracker_process]) simp
  show ?thesis
    unfolding start_def wait_for_socket_def
    apply (rule quiet_bindE [OF quiet_lift [OF silent_steps(1)]], simp add: boot_outcome_fail)
    apply (simp only:)
    apply (rule quiet_bindE [OF set_starting], simp add: boot_outcome_fail)
    apply (rule straces_bind [OF straces_gets [where P = "\<lambda>p s k. s = m\<lparr>lifecycle := Starting\<rparr> \<and> k = []"]],
        simp, simp)
    apply (rule quiet_bindE [OF quiet_lift_plain [OF silent_steps(2)]], simp add: boot_outcome_fail)
    apply (rule quiet_bindE [OF spawn], simp add: boot_outcome_fail)
    apply clarsimp
    apply (rule quiet_bindE [OF quiet_lift [OF silent_steps(4)]], simp add: boot_outcome_fail)
    apply (rule boot_requests, simp)
    done
qed

subsection \<open>Stopping\<close>

text \<open>The children signalled and the children reaped in a piece of history, in order.\<close>

definition killed :: "sys_history \<Rightarrow> nat list" where
  "killed k = List.map_filter (\<lambda>(c, _). case c of KillChild p \<Rightarrow> Some p | _ \<Rightarrow> None) k"

definition waited :: "sys_history \<Rightarrow> nat list" where
  "waited k = List.map_filter (\<lambda>(c, _). case c of WaitChild p \<Rightarrow> Some p | _ \<Rightarrow> None) k"

lemma killed_append [simp]: "killed (k @ l) = killed k @ killed l"
  by (simp add: killed_def map_filter_def)

lemma waited_append [simp]: "waited (k @ l) = waited k @ waited l"
  by (simp add: waited_def map_filter_def)

definition non_child :: "sys_call set" where
  "non_child = {c. \<forall>p. c \<noteq> KillChild p \<and> c \<noteq> WaitChild p}"

lemma non_child_simps [simp]:
  "PathExists p \<in> non_child" "RemoveFile p \<in> non_child" "SleepMs n \<in> non_child"
  "FcRequest m s p b \<in> non_child"
  by (simp_all add: non_child_def)

lemma children_non_child: "fst ` set k \<subseteq> non_child \<Longrightarrow> killed k = [] \<and> waited k = []"
  by (induction k)
    (auto simp: killed_def waited_def map_filter_def non_child_def split: sys_call.splits)

lemma lift_non_child:
  assumes "only m non_child"
  shows "straces (lift_io m) s (\<lambda>_ s' k. s' = s \<and> killed k = [] \<and> waited k = [])"
  by (rule straces_lift [OF assms [unfolded only_def]]) (auto dest: children_non_child)

lemma straces_kill_process:
  "straces (kill_process host) m
     (\<lambda>_ m' k. m' = m\<lparr>firecracker_process := None\<rparr> \<and>
       killed k = (case firecracker_process m of None \<Rightarrow> [] | Some p \<Rightarrow> [p]) \<and> waited k = killed k)"
  by (rule stracesI, cases "firecracker_process m")
    (auto simp: kill_process_def io_simps killed_def waited_def map_filter_def)

definition stoppable :: "vm_state \<Rightarrow> bool" where
  "stoppable s \<longleftrightarrow> s \<noteq> NotStarted \<and> s \<noteq> Error"

lemma straces_stop:
  "straces (stop X host) m
     (\<lambda>r m' k. socket_path m' = socket_path m \<and> firecracker_process m' = None \<and>
       killed k = (case firecracker_process m of None \<Rightarrow> [] | Some p \<Rightarrow> [p]) \<and> waited k = killed k \<and>
       is_ok r = stoppable (lifecycle m) \<and>
       lifecycle m' = (if is_ok r then Stopped else lifecycle m))"
proof -
  define s1 where "s1 = (if is_valid (lifecycle m) Stopping then m\<lparr>lifecycle := Stopping\<rparr> else m)"
  have "straces (set_state Stopping) m (\<lambda>_ s k. s = s1 \<and> killed k = [] \<and> waited k = [])"
    by (rule straces_weaken [OF straces_set_state]) (auto simp: s1_def killed_def waited_def map_filter_def)
  note steps = this
    straces_gets [where P = "\<lambda>_ s k. s = s1 \<and> killed k = [] \<and> waited k = []"]
    lift_non_child straces_kill_process
  have last: "straces (ctx_io c (set_state Stopped)) (s1\<lparr>firecracker_process := None\<rparr>)
     (\<lambda>r m' k. killed k = [] \<and> waited k = [] \<and> is_ok r = stoppable (lifecycle m) \<and>
       m' = s1\<lparr>firecracker_process := None, lifecycle := if is_ok r then Stopped else lifecycle m\<rparr>)" for c
    by (rule straces_ctx, rule straces_weaken [OF straces_set_state], cases "lifecycle m")
      (auto simp: s1_def killed_def waited_def map_filter_def stoppable_def is_valid_def)
  have [simp]: "socket_path s1 = socket_path m" "firecracker_process s1 = firecracker_process m"
    by (simp_all add: s1_def)
  have "only (send_ctrl_alt_del X host p) non_child" "only (sleep_ms host n) non_child"
    "only (remove_socket_file host p) non_child" for p n
    unfolding send_ctrl_alt_del_def remove_socket_file_def by (auto intro!: only_intros)
  note lifts = this [THEN lift_non_child]
  show ?thesis
    unfolding stop_def
    apply (rule straces_bind [OF steps(1)])
    apply (rule straces_bind [OF steps(2)], simp add: killed_def waited_def map_filter_def)
    apply (rule straces_bind [OF lifts(1)])
    apply (rule straces_bind [OF lifts(2)])
    apply (rule straces_bind [OF steps(4)])
    apply (rule straces_bind [OF lifts(3)])
    apply clarsimp
    apply (rule straces_weaken [OF last])
    apply simp
    done
qed

text \<open>The kinds of calls the manager makes.\<close>

definition manager_calls :: "sys_call set" where
  "manager_calls = {c. case c of PathExists _ \<Rightarrow> True | RemoveFile _ \<Rightarrow> True | SleepMs _ \<Rightarrow> True
     | SpawnFirecracker _ \<Rightarrow> True | KillChild _ \<Rightarrow> True | WaitChild _ \<Rightarrow> True
     | FcRequest _ _ _ _ \<Rightarrow> True | _ \<Rightarrow> False}"

lemma manager_calls_simps [simp]:
  "PathExists p \<in> manager_calls" "RemoveFile p \<in> manager_calls" "SleepMs n \<in> manager_calls"
  "SpawnFirecracker p \<in> manager_calls" "KillChild n \<in> manager_calls" "WaitChild n \<in> manager_calls"
  "FcRequest m s p b \<in> manager_calls"
  by (simp_all add: manager_calls_def)

lemma sonly_set_state [only_intros]: "sonly (set_state t) S"
  unfolding sonly_def using straces_weaken [OF straces_set_state] by fastforce

lemma only_configure_vm: "only (configure_vm X host p c) manager_calls"
  unfolding configure_vm_def client_call_defs
  by (auto intro!: only_intros split: option.split)

lemma only_wait_manager: "only (wait_attempts host p n) manager_calls"
  by (induction n) (auto intro!: only_intros)

lemma sonly_manager:
  "sonly (start X host c) manager_calls" "sonly (stop X host) manager_calls"
  "sonly (drop_manager host) manager_calls"
  unfolding start_def stop_def drop_manager_def validate_def remove_existing_socket_def
    start_firecracker_process_def wait_for_socket_def kill_process_def remove_socket_file_def
    client_call_defs
  by (auto intro!: only_intros only_configure_vm only_wait_manager)

subsection \<open>Properties\<close>

text \<open>C13: Whatever the host answers, the requests Firecracker accepts during a start are a
  prefix of the boot sequence (boot source, root drive, machine configuration, network
  interface when networking is configured, entropy, vsock when configured, and the
  instance start last), and start succeeds exactly when all of it was accepted. Then the
  manager is Running and owns a process; after a failure the lifecycle is unchanged or
  Starting, never Running unless it was.\<close>

theorem start_boots:
  "case start X host c (m, h) of (r, m', h') \<Rightarrow>
     \<exists>k. h' = h @ k \<and> prefix (api_puts k) (boot_sequence c) \<and>
       (is_ok r \<longleftrightarrow> api_puts k = boot_sequence c) \<and>
       socket_path m' = socket_path m \<and>
       (if is_ok r then lifecycle m' = Running \<and> firecracker_process m' \<noteq> None
        else lifecycle m' = lifecycle m \<or> lifecycle m' = Starting)"
  using straces_case [OF straces_start] unfolding boot_outcome_def .

text \<open>C25: Stop always gives up the process: exactly the child the manager owned, if any, is
  killed and then reaped, once; it succeeds (in state Stopped) from every state but NotStarted
  and Error, where the state is left as it was, whatever the API and the kernel answer.\<close>

theorem stop_releases:
  "case stop X host (m, h) of (r, m', h') \<Rightarrow>
     \<exists>k. h' = h @ k \<and> firecracker_process m' = None \<and>
       killed k = (case firecracker_process m of None \<Rightarrow> [] | Some p \<Rightarrow> [p]) \<and> waited k = killed k \<and>
       is_ok r = stoppable (lifecycle m) \<and>
       lifecycle m' = (if is_ok r then Stopped else lifecycle m)"
  by (rule straces_case, rule straces_weaken [OF straces_stop]) simp

text \<open>C38: Waiting for the API socket always ends: after at most 50 polls and 5 seconds of
  sleep, successfully exactly when a poll found the socket, which is then the last poll.\<close>

theorem wait_for_socket_bounded:
  "case wait_for_socket host path h of (r, h') \<Rightarrow>
     \<exists>k. h' = h @ k \<and> slept k \<le> 5000 \<and>
       (if is_ok r then \<exists>j<50. polls k = replicate j False @ [True]
        else polls k = replicate 50 False)"
  unfolding wait_for_socket_def
  by (rule traces_case, rule traces_weaken [OF wait_attempts_trace]) simp

end
