(* ===== verification/VmRegistry.thy ===== *)
theory VmRegistry
  imports VmManager
begin

text \<open>
  \<^verbatim>\<open>clawpot-server/src/vm/registry.rs\<close>: the table of running VMs. Each method holds the
  lock for its whole body, so each is one atomic operation on a map from VM ids to entries.
  A \<^verbatim>\<open>HashMap\<close> iterates in an unspecified order: the methods that iterate take the order as
  an argument, and what they return is shown not to depend on it where the callers rely on
  that.
\<close>

type_synonym vm_id = u128

record vm_entry =
  e_id :: vm_id
  e_manager :: vm_manager
  e_ip_address :: ip_addr
  e_tap_name :: string
  e_created_at :: int
  e_vcpu_count :: u8
  e_mem_size_mib :: u32
  e_vsock_uds_path :: string

type_synonym vm_registry = "vm_id \<rightharpoonup> vm_entry"

definition VmRegistry_new :: vm_registry where
  "VmRegistry_new = Map.empty"

definition registry_insert :: "libs \<Rightarrow> vm_id \<Rightarrow> vm_entry \<Rightarrow> vm_registry \<Rightarrow> anyhow + vm_registry" where
  "registry_insert X i entry vms =
     (if vms i \<noteq> None then
        Inl (anyhow (''VM with ID '' @ uuid_to_string X i @ '' already exists''))
      else Inr (vms(i \<mapsto> entry)))"

definition not_found :: "libs \<Rightarrow> vm_id \<Rightarrow> anyhow" where
  "not_found X i = anyhow (''VM with ID '' @ uuid_to_string X i @ '' not found'')"

definition registry_remove :: "libs \<Rightarrow> vm_id \<Rightarrow> vm_registry \<Rightarrow> anyhow + vm_entry \<times> vm_registry" where
  "registry_remove X i vms =
     (case vms i of
        None \<Rightarrow> Inl (not_found X i)
      | Some entry \<Rightarrow> Inr (entry, vms(i := None)))"

definition registry_get :: "libs \<Rightarrow> vm_id \<Rightarrow> vm_registry \<Rightarrow> anyhow + vm_id" where
  "registry_get X i vms = (if vms i \<noteq> None then Inr i else Inl (not_found X i))"

text \<open>An iteration order of the table: every key once.\<close>

definition iterates :: "vm_id list \<Rightarrow> vm_registry \<Rightarrow> bool" where
  "iterates order vms \<longleftrightarrow> distinct order \<and> set order = dom vms"

type_synonym vm_row = "vm_id \<times> ip_addr \<times> string \<times> u8 \<times> u32 \<times> int"

definition entry_row :: "vm_id \<Rightarrow> vm_entry \<Rightarrow> vm_row" where
  "entry_row i e =
     (i, e_ip_address e, e_tap_name e, e_vcpu_count e, e_mem_size_mib e, e_created_at e)"

definition registry_list :: "vm_id list \<Rightarrow> vm_registry \<Rightarrow> vm_row list" where
  "registry_list order vms = map (\<lambda>i. entry_row i (the (vms i))) order"

definition registry_count :: "vm_id list \<Rightarrow> vm_registry \<Rightarrow> nat" where
  "registry_count order vms = length order"

definition get_vm_info ::
  "libs \<Rightarrow> vm_id \<Rightarrow> vm_registry \<Rightarrow> anyhow + ip_addr \<times> string \<times> u8 \<times> u32 \<times> int" where
  "get_vm_info X i vms =
     (case vms i of
        None \<Rightarrow> Inl (not_found X i)
      | Some entry \<Rightarrow>
          Inr (e_ip_address entry, e_tap_name entry, e_vcpu_count entry, e_mem_size_mib entry,
               e_created_at entry))"

definition get_vsock_path :: "libs \<Rightarrow> vm_id \<Rightarrow> vm_registry \<Rightarrow> anyhow + string" where
  "get_vsock_path X i vms =
     (case vms i of None \<Rightarrow> Inl (not_found X i) | Some entry \<Rightarrow> Inr (e_vsock_uds_path entry))"

definition find_by_ip :: "vm_id list \<Rightarrow> vm_registry \<Rightarrow> ip_addr \<Rightarrow> vm_id option" where
  "find_by_ip order vms ip = find (\<lambda>i. e_ip_address (the (vms i)) = ip) order"

subsection \<open>Well-formed registries\<close>

text \<open>Entries carry their key, and no two VMs share an address.\<close>

definition registry_inv :: "vm_registry \<Rightarrow> bool" where
  "registry_inv vms \<longleftrightarrow> finite (dom vms) \<and>
     (\<forall>i e. vms i = Some e \<longrightarrow> e_id e = i) \<and>
     (\<forall>i j e f. vms i = Some e \<longrightarrow> vms j = Some f \<longrightarrow> e_ip_address e = e_ip_address f \<longrightarrow> i = j)"

definition registry_ips :: "vm_registry \<Rightarrow> ip_addr set" where
  "registry_ips vms = e_ip_address ` ran vms"

lemma registry_inv_new [inv_intros]: "registry_inv VmRegistry_new"
  by (simp add: registry_inv_def VmRegistry_new_def)

lemma registry_ips_new [simp]: "registry_ips VmRegistry_new = {}"
  by (simp add: registry_ips_def VmRegistry_new_def)

lemma registry_insert_Inr:
  "registry_insert X i e vms = Inr vms' \<longleftrightarrow> vms i = None \<and> vms' = vms(i \<mapsto> e)"
  by (auto simp: registry_insert_def)

lemma registry_remove_Inr:
  "registry_remove X i vms = Inr (e, vms') \<longleftrightarrow> vms i = Some e \<and> vms' = vms(i := None)"
  by (auto simp: registry_remove_def split: option.splits)

lemma registry_ips_mem: "ip \<in> registry_ips vms \<longleftrightarrow> (\<exists>i e. vms i = Some e \<and> e_ip_address e = ip)"
  by (auto simp: registry_ips_def ran_def)

lemma registry_insert_inv [inv_intros]:
  assumes "registry_inv vms" "registry_insert X i e vms = Inr vms'" "e_id e = i"
    "e_ip_address e \<notin> registry_ips vms"
  shows "registry_inv vms'"
  using assms by (auto simp: registry_inv_def registry_insert_Inr registry_ips_mem) metis

lemma registry_remove_inv [inv_intros]:
  "registry_inv vms \<Longrightarrow> registry_remove X i vms = Inr (e, vms') \<Longrightarrow> registry_inv vms'"
  by (auto simp: registry_inv_def registry_remove_Inr)

lemma registry_insert_ips:
  "registry_insert X i e vms = Inr vms' \<Longrightarrow>
   registry_ips vms' = insert (e_ip_address e) (registry_ips vms)"
  by (auto simp: registry_ips_def registry_insert_Inr)

lemma registry_remove_ips:
  assumes "registry_inv vms" "registry_remove X i vms = Inr (e, vms')"
  shows "registry_ips vms' = registry_ips vms - {e_ip_address e}"
proof -
  have e: "vms i = Some e" and vms': "vms' = vms(i := None)"
    using assms(2) by (simp_all add: registry_remove_Inr)
  have other: "e_ip_address f \<noteq> e_ip_address e" if "vms j = Some f" "j \<noteq> i" for j f
    using assms(1) that e unfolding registry_inv_def by blast
  have "ip \<in> registry_ips vms' \<longleftrightarrow> ip \<in> registry_ips vms \<and> ip \<noteq> e_ip_address e" for ip
    unfolding registry_ips_mem vms' fun_upd_apply by (metis e other option.distinct(1) option.inject)
  then show ?thesis
    by blast
qed

subsection \<open>The reverse lookup\<close>

text \<open>
  The contract the proxies rely on: which VM a packet's source address belongs to. \<open>owner\<close>
  is the table, \<open>lookup\<close> the search.
\<close>

locale vm_directory =
  fixes ok :: "'o \<Rightarrow> 'r \<Rightarrow> bool"
    and owner :: "'r \<Rightarrow> 'v \<Rightarrow> 'a option"
    and lookup :: "'o \<Rightarrow> 'r \<Rightarrow> 'a \<Rightarrow> 'v option"
  assumes lookup_sound: "ok ord r \<Longrightarrow> lookup ord r a = Some v \<Longrightarrow> owner r v = Some a"
    and lookup_complete: "ok ord r \<Longrightarrow> owner r v = Some a \<Longrightarrow> lookup ord r a \<noteq> None"
    and owner_inj: "ok ord r \<Longrightarrow> owner r v = Some a \<Longrightarrow> owner r w = Some a \<Longrightarrow> v = w"
begin

lemma lookup_iff: "ok ord r \<Longrightarrow> lookup ord r a = Some v \<longleftrightarrow> owner r v = Some a"
  by (metis lookup_sound lookup_complete owner_inj not_None_eq)

lemma lookup_none: "ok ord r \<Longrightarrow> lookup ord r a = None \<longleftrightarrow> (\<forall>v. owner r v \<noteq> Some a)"
  using lookup_iff by (metis not_None_eq)

text \<open>The answer does not depend on the iteration order.\<close>

lemma lookup_order: "ok ord r \<Longrightarrow> ok ord' r \<Longrightarrow> lookup ord r a = lookup ord' r a"
  by (metis lookup_iff not_None_eq)

end

definition registry_owner :: "vm_registry \<Rightarrow> vm_id \<Rightarrow> ip_addr option" where
  "registry_owner vms i = map_option e_ip_address (vms i)"

interpretation directory:
  vm_directory "\<lambda>order vms. iterates order vms \<and> registry_inv vms" registry_owner find_by_ip
proof (unfold_locales, goal_cases)
  case (1 ord r a v)
  then have "v \<in> set ord" "e_ip_address (the (r v)) = a"
    by (auto simp: find_by_ip_def find_Some_iff)
  then show ?case
    using 1 by (auto simp: registry_owner_def iterates_def)
next
  case (2 ord r v a)
  then show ?case
    by (auto simp: find_by_ip_def find_None_iff registry_owner_def iterates_def domI)
next
  case (3 ord r v a w)
  then show ?case
    by (auto simp: registry_owner_def registry_inv_def)
qed

text \<open>C29: The proxies' reverse lookup is exact and deterministic: on a well-formed registry
  and in every iteration order, an address finds a VM exactly when that VM has the address.\<close>

theorem find_by_ip_exact:
  assumes "registry_inv vms" and "iterates order vms"
  shows "find_by_ip order vms ip = Some i \<longleftrightarrow> (\<exists>e. vms i = Some e \<and> e_ip_address e = ip)"
  using directory.lookup_iff [of order vms ip i] assms by (auto simp: registry_owner_def)

definition sample_entry :: "vm_id \<Rightarrow> u32 \<Rightarrow> vm_entry" where
  "sample_entry i ip =
     \<lparr>e_id = i, e_manager = VmManager_new ''/tmp/fc.sock'', e_ip_address = V4 ip,
      e_tap_name = ''tap-1'', e_created_at = 0, e_vcpu_count = 1, e_mem_size_mib = 256,
      e_vsock_uds_path = ''/tmp/v.sock''\<rparr>"

theorem find_by_ip_exact_witness:
  "find_by_ip [2, 1] [1 \<mapsto> sample_entry 1 7, 2 \<mapsto> sample_entry 2 8] (V4 7) = Some 1"
proof -
  have "registry_inv [1 \<mapsto> sample_entry 1 7, 2 \<mapsto> sample_entry 2 8]"
    by (simp add: registry_inv_def sample_entry_def)
  moreover have "iterates [2, 1] [1 \<mapsto> sample_entry 1 7, 2 \<mapsto> sample_entry 2 8]"
    by (auto simp: iterates_def)
  ultimately show ?thesis
    using find_by_ip_exact [of "[1 \<mapsto> sample_entry 1 7, 2 \<mapsto> sample_entry 2 8]" "[2, 1]" "V4 7" 1]
    by (simp add: sample_entry_def)
qed

end
