(* ===== verification/NetworkRules.thy ===== *)
theory NetworkRules
  imports HostCalls
begin

text \<open>
  \<^verbatim>\<open>clawpot-server/src/network/iptables.rs\<close>: the packet-filter rules of the bridge and of
  each TAP device. The \<^verbatim>\<open>iptables\<close> crate runs the \<^verbatim>\<open>iptables\<close> program, so its calls go to
  the host; the effect of the rule calls on the kernel's table is the function \<open>table_after\<close>,
  and a host is \<open>ipt_faithful\<close> when its existence checks answer from that table.
\<close>

type_synonym ipt_rule = "string \<times> string \<times> string"

definition ipt_new :: "sys_host \<Rightarrow> (anyhow + unit) sys" where
  "ipt_new host =
     map_io (\<lambda>r. case reply_unit r of
         Inl e \<Rightarrow> Inl (anyhow (''Failed to initialize iptables: '' @ io_message e))
       | Inr _ \<Rightarrow> Inr ())
       (ask host IptNew)"

definition ipt_append ::
  "sys_host \<Rightarrow> string \<Rightarrow> string \<Rightarrow> string \<Rightarrow> string \<Rightarrow> (anyhow + unit) sys" where
  "ipt_append host table chain rule description =
     map_io (\<lambda>r. case reply_unit r of
         Inl e \<Rightarrow> Inl (anyhow (''iptables rule '' @ [CHR 0x27] @ description @ [CHR 0x27] @
                     '' failed: '' @ io_message e))
       | Inr _ \<Rightarrow> Inr ())
       (ask host (IptAppend table chain rule))"

definition source_ip_rule :: "string \<Rightarrow> ip_addr \<Rightarrow> string" where
  "source_ip_rule tap ip = ''-i '' @ tap @ '' ! -s '' @ show_ip ip @ '' -j DROP''"

definition add_source_ip_rule :: "sys_host \<Rightarrow> string \<Rightarrow> ip_addr \<Rightarrow> (anyhow + unit) sys" where
  "add_source_ip_rule host tap ip =
     bindE (ipt_new host) (\<lambda>_.
     bindE (ipt_append host ''filter'' ''FORWARD'' (source_ip_rule tap ip)
       (''enforce source IP '' @ show_ip ip @ '' on '' @ tap)) (\<lambda>_.
     ret_io (Inr ())))"

definition remove_source_ip_rule :: "sys_host \<Rightarrow> string \<Rightarrow> ip_addr \<Rightarrow> (anyhow + unit) sys" where
  "remove_source_ip_rule host tap ip =
     bind_io (ask host IptNew) (\<lambda>r.
     case reply_unit r of
       Inl _ \<Rightarrow> ret_io (Inr ())
     | Inr _ \<Rightarrow>
         bind_io (ask host (IptDelete ''filter'' ''FORWARD'' (source_ip_rule tap ip))) (\<lambda>_.
         ret_io (Inr ())))"

definition redirect_rule :: "string \<Rightarrow> string \<Rightarrow> nat \<Rightarrow> nat \<Rightarrow> string" where
  "redirect_rule bridge proto port target =
     ''-i '' @ bridge @ '' -p '' @ proto @ '' --dport '' @ show_nat port @
     '' -j REDIRECT --to-port '' @ show_nat target"

definition drop_rule :: "string \<Rightarrow> string" where
  "drop_rule bridge = ''-i '' @ bridge @ '' -j DROP''"

definition add_proxy_redirect_rules :: "sys_host \<Rightarrow> string \<Rightarrow> (anyhow + unit) sys" where
  "add_proxy_redirect_rules host bridge =
     bindE (ipt_new host) (\<lambda>_.
     bindE (ipt_append host ''nat'' ''PREROUTING'' (redirect_rule bridge ''tcp'' 80 10080)
       ''REDIRECT port 80 -> 10080'') (\<lambda>_.
     bindE (ipt_append host ''nat'' ''PREROUTING'' (redirect_rule bridge ''tcp'' 443 10443)
       ''REDIRECT port 443 -> 10443'') (\<lambda>_.
     ret_io (Inr ()))))"

text \<open>The arrow of some descriptions is U+2192.\<close>

definition arrow :: string where
  "arrow = [CHR 0xE2, CHR 0x86, CHR 0x92]"

definition add_egress_filter_rules :: "sys_host \<Rightarrow> string \<Rightarrow> (anyhow + unit) sys" where
  "add_egress_filter_rules host bridge =
     bindE (ipt_new host) (\<lambda>_.
     bindE (ipt_append host ''nat'' ''PREROUTING'' (redirect_rule bridge ''udp'' 53 10053)
       (''REDIRECT DNS UDP '' @ arrow @ '' 10053'')) (\<lambda>_.
     bindE (ipt_append host ''nat'' ''PREROUTING'' (redirect_rule bridge ''tcp'' 53 10053)
       (''REDIRECT DNS TCP '' @ arrow @ '' 10053'')) (\<lambda>_.
     bindE (ipt_append host ''filter'' ''FORWARD'' (drop_rule bridge)
       ''DROP all other forwarded traffic'') (\<lambda>_.
     ret_io (Inr ())))))"

definition ensure_iptables_rule ::
  "sys_host \<Rightarrow> string \<Rightarrow> string \<Rightarrow> string \<Rightarrow> string \<Rightarrow> (anyhow + unit) sys" where
  "ensure_iptables_rule host table chain rule description =
     bindE (map_io (\<lambda>r. case reply_bool r of
         Inl e \<Rightarrow> Inl (anyhow (''iptables exists check for '' @ [CHR 0x27] @ description @
                     [CHR 0x27] @ '' failed: '' @ io_message e))
       | Inr b \<Rightarrow> Inr b)
       (ask host (IptExists table chain rule))) (\<lambda>exists.
     if exists then ret_io (Inr ()) else ipt_append host table chain rule description)"

text \<open>The loop over the rules of the two \<^verbatim>\<open>ensure_\<close> functions.\<close>

fun ensure_all :: "sys_host \<Rightarrow> (ipt_rule \<times> string) list \<Rightarrow> (anyhow + unit) sys" where
  "ensure_all host [] = ret_io (Inr ())"
| "ensure_all host (((table, chain, rule), desc) # rules) =
     bindE (ensure_iptables_rule host table chain rule desc) (\<lambda>_. ensure_all host rules)"

definition proxy_redirect_rules :: "string \<Rightarrow> (ipt_rule \<times> string) list" where
  "proxy_redirect_rules bridge =
     [((''nat'', ''PREROUTING'', redirect_rule bridge ''tcp'' 80 10080),
       ''REDIRECT port 80 '' @ arrow @ '' 10080''),
      ((''nat'', ''PREROUTING'', redirect_rule bridge ''tcp'' 443 10443),
       ''REDIRECT port 443 '' @ arrow @ '' 10443'')]"

definition ensure_proxy_redirect_rules :: "sys_host \<Rightarrow> string \<Rightarrow> (anyhow + unit) sys" where
  "ensure_proxy_redirect_rules host bridge =
     bindE (ipt_new host) (\<lambda>_. ensure_all host (proxy_redirect_rules bridge))"

definition egress_filter_rules :: "string \<Rightarrow> (ipt_rule \<times> string) list" where
  "egress_filter_rules bridge =
     [((''nat'', ''PREROUTING'', redirect_rule bridge ''udp'' 53 10053),
       ''REDIRECT DNS UDP '' @ arrow @ '' 10053''),
      ((''nat'', ''PREROUTING'', redirect_rule bridge ''tcp'' 53 10053),
       ''REDIRECT DNS TCP '' @ arrow @ '' 10053''),
      ((''filter'', ''FORWARD'', drop_rule bridge), ''DROP all other forwarded traffic'')]"

definition ensure_egress_filter_rules :: "sys_host \<Rightarrow> string \<Rightarrow> (anyhow + unit) sys" where
  "ensure_egress_filter_rules host bridge =
     bindE (ipt_new host) (\<lambda>_. ensure_all host (egress_filter_rules bridge))"

fun delete_all :: "sys_host \<Rightarrow> ipt_rule list \<Rightarrow> unit sys" where
  "delete_all host [] = ret_io ()"
| "delete_all host ((table, chain, rule) # rules) =
     bind_io (ask host (IptDelete table chain rule)) (\<lambda>_. delete_all host rules)"

definition remove_proxy_rules :: "sys_host \<Rightarrow> string \<Rightarrow> unit sys" where
  "remove_proxy_rules host bridge =
     bind_io (ask host IptNew) (\<lambda>r.
     case reply_unit r of
       Inl _ \<Rightarrow> ret_io ()
     | Inr _ \<Rightarrow>
         delete_all host
           [(''nat'', ''PREROUTING'', redirect_rule bridge ''tcp'' 80 10080),
            (''nat'', ''PREROUTING'', redirect_rule bridge ''tcp'' 443 10443),
            (''nat'', ''PREROUTING'', redirect_rule bridge ''udp'' 53 10053),
            (''nat'', ''PREROUTING'', redirect_rule bridge ''tcp'' 53 10053),
            (''filter'', ''FORWARD'', drop_rule bridge)])"

subsection \<open>The kernel's rule table\<close>

text \<open>The rules in force after a piece of history, in order: an accepted append adds a rule
  at the end, an accepted delete removes its first occurrence.\<close>

fun table_after :: "ipt_rule list \<Rightarrow> sys_history \<Rightarrow> ipt_rule list" where
  "table_after T [] = T"
| "table_after T ((IptAppend t c r, reply) # k) =
     table_after (if is_ok (reply_unit reply) then T @ [(t, c, r)] else T) k"
| "table_after T ((IptDelete t c r, reply) # k) =
     table_after (if is_ok (reply_unit reply) then remove1 (t, c, r) T else T) k"
| "table_after T (_ # k) = table_after T k"

lemma table_after_append [simp]: "table_after T (k @ l) = table_after (table_after T k) l"
  by (induction T k rule: table_after.induct) simp_all

text \<open>\<^verbatim>\<open>iptables --check\<close>: an existence check that succeeds tells whether the rule is there.\<close>

definition ipt_faithful :: "ipt_rule list \<Rightarrow> sys_host \<Rightarrow> bool" where
  "ipt_faithful T0 host \<longleftrightarrow>
     (\<forall>h t c r b. host h (IptExists t c r) = RBool b \<longrightarrow> b = ((t, c, r) \<in> set (table_after T0 h)))"

text \<open>The specification of ensuring a rule: it is added unless it is there.\<close>

fun add_missing :: "ipt_rule list \<Rightarrow> ipt_rule list \<Rightarrow> ipt_rule list" where
  "add_missing T [] = T"
| "add_missing T (r # rs) = add_missing (if r \<in> set T then T else T @ [r]) rs"

lemma add_missing_distinct:
  "distinct rs \<Longrightarrow> add_missing T rs = T @ filter (\<lambda>r. r \<notin> set T) rs"
proof (induction rs arbitrary: T)
  case Nil
  show ?case
    by simp
next
  case (Cons r rs)
  have "filter (\<lambda>x. x \<noteq> r \<and> x \<notin> set T) rs = filter (\<lambda>x. x \<notin> set T) rs"
    using Cons.prems by (intro filter_cong) auto
  with Cons show ?case
    by simp
qed

lemma set_add_missing [simp]: "set (add_missing T rs) = set T \<union> set rs"
  by (induction T rs rule: add_missing.induct) auto

lemma add_missing_id: "set rs \<subseteq> set T \<Longrightarrow> add_missing T rs = T"
  by (induction T rs rule: add_missing.induct) auto

lemma ipt_new_trace [trace_intros]: "traces (ipt_new host) (\<lambda>_ k. \<forall>T. table_after T k = T)"
  unfolding ipt_new_def by (auto intro!: traces_map traces_ask)

lemma ipt_append_trace [trace_intros]:
  "traces (ipt_append host t c r d)
     (\<lambda>res k. \<forall>T. table_after T k = (if is_ok res then T @ [(t, c, r)] else T))"
  unfolding ipt_append_def by (auto intro!: traces_map traces_ask split: sum.splits)

lemma ensure_iptables_rule_table:
  assumes host: "ipt_faithful T0 host" and run: "ensure_iptables_rule host t c r d h = (res, h')"
  shows "\<exists>k. h' = h @ k \<and>
    table_after T0 h' = (if is_ok res then add_missing (table_after T0 h) [(t, c, r)] else table_after T0 h)"
proof (cases "host h (IptExists t c r)")
  case (RBool b)
  then have b: "b \<longleftrightarrow> (t, c, r) \<in> set (table_after T0 h)"
    using host unfolding ipt_faithful_def by blast
  show ?thesis
  proof (cases b)
    case True
    then show ?thesis
      using run RBool b by (auto simp: ensure_iptables_rule_def io_simps reply_bool_def)
  next
    case False
    let ?h1 = "h @ [(IptExists t c r, RBool b)]"
    have "ipt_append host t c r d ?h1 = (res, h')"
      using run RBool False by (simp add: ensure_iptables_rule_def io_simps reply_bool_def)
    then obtain k where "h' = ?h1 @ k"
      "\<forall>T. table_after T k = (if is_ok res then T @ [(t, c, r)] else T)"
      using tracesD [OF ipt_append_trace] by blast
    then show ?thesis
      using b False by simp
  qed
qed (use run in \<open>auto simp: ensure_iptables_rule_def io_simps reply_bool_def\<close>)

lemma ensure_all_table:
  assumes host: "ipt_faithful T0 host"
  shows "ensure_all host rules h = (Inr (), h') \<Longrightarrow>
    \<exists>k. h' = h @ k \<and> table_after T0 h' = add_missing (table_after T0 h) (map fst rules)"
proof (induction rules arbitrary: h)
  case Nil
  then show ?case
    by (simp add: io_simps)
next
  case (Cons x rules)
  obtain table chain rule desc where x: "x = ((table, chain, rule), desc)"
    by (metis prod.collapse)
  obtain r h1 where r: "ensure_iptables_rule host table chain rule desc h = (r, h1)"
    by (cases "ensure_iptables_rule host table chain rule desc h")
  with Cons.prems x have ok: "r = Inr ()" and rest: "ensure_all host rules h1 = (Inr (), h')"
    by (auto simp: io_simps split: sum.splits)
  obtain k where "h1 = h @ k"
    "table_after T0 h1 = add_missing (table_after T0 h) [(table, chain, rule)]"
    using ensure_iptables_rule_table [OF host r] ok by auto
  then show ?case
    using Cons.IH [OF rest] x by auto
qed

definition bridge_rules :: "string \<Rightarrow> ipt_rule list" where
  "bridge_rules bridge = map fst (proxy_redirect_rules bridge @ egress_filter_rules bridge)"

lemma show_nat_ports [simp]:
  "show_nat 80 = ''80''" "show_nat 443 = ''443''" "show_nat 53 = ''53''" "show_nat 10080 = ''10080''"
  "show_nat 10443 = ''10443''" "show_nat 10053 = ''10053''"
  by (simp_all add: show_radix_step)

lemma distinct_bridge_rules: "distinct (bridge_rules bridge)"
  by (simp add: bridge_rules_def proxy_redirect_rules_def egress_filter_rules_def redirect_rule_def
      drop_rule_def)

lemma ipt_new_table:
  assumes "ipt_new host h = (r, h')"
  shows "\<exists>k. h' = h @ k \<and> table_after T h' = table_after T h"
  by (rule tracesD [OF ipt_new_trace assms]) auto

lemma ensure_rules_table:
  assumes host: "ipt_faithful T0 host"
    and run: "bindE (ipt_new host) (\<lambda>_. ensure_all host rules) h = (Inr (), h')"
  shows "\<exists>k. h' = h @ k \<and> table_after T0 h' = add_missing (table_after T0 h) (map fst rules)"
proof -
  obtain r h1 where new: "ipt_new host h = (r, h1)"
    by (cases "ipt_new host h")
  with run have "ensure_all host rules h1 = (Inr (), h')"
    by (auto simp: io_simps split: sum.splits)
  from ensure_all_table [OF host this] ipt_new_table [OF new, of T0] show ?thesis
    by auto
qed

text \<open>Making sure of both rule groups, as \<^verbatim>\<open>ensure_bridge\<close> ends.\<close>

lemma ensure_both_table:
  assumes host: "ipt_faithful T0 host"
    and run: "bindE (ensure_proxy_redirect_rules host bridge)
      (\<lambda>_. ensure_egress_filter_rules host bridge) h = (Inr (), h')"
  shows "\<exists>k. h' = h @ k \<and> table_after T0 h' = table_after T0 h @
    filter (\<lambda>r. r \<notin> set (table_after T0 h)) (bridge_rules bridge)"
proof -
  obtain r h1 where first: "ensure_proxy_redirect_rules host bridge h = (r, h1)"
    by (cases "ensure_proxy_redirect_rules host bridge h")
  with run have r: "r = Inr ()" and second: "ensure_egress_filter_rules host bridge h1 = (Inr (), h')"
    by (auto simp: io_simps split: sum.splits)
  have add: "add_missing (add_missing T xs) ys = add_missing T (xs @ ys)" for T xs ys
    by (induction T xs rule: add_missing.induct) simp_all
  obtain k where "h1 = h @ k"
    "table_after T0 h1 = add_missing (table_after T0 h) (map fst (proxy_redirect_rules bridge))"
    using ensure_rules_table [OF host] first r unfolding ensure_proxy_redirect_rules_def by blast
  moreover obtain k' where "h' = h1 @ k'"
    "table_after T0 h' = add_missing (table_after T0 h1) (map fst (egress_filter_rules bridge))"
    using ensure_rules_table [OF host] second unfolding ensure_egress_filter_rules_def by blast
  ultimately have "h' = h @ k @ k'"
    "table_after T0 h' = add_missing (table_after T0 h) (bridge_rules bridge)"
    by (simp_all add: add bridge_rules_def)
  then show ?thesis
    using add_missing_distinct [OF distinct_bridge_rules] by auto
qed

end
