(* ===== verification/NetworkDevices.thy ===== *)
theory NetworkDevices
  imports NetworkRules
begin

text \<open>
  The host side of a VM's network: \<^verbatim>\<open>network/tap.rs\<close> (TAP devices by ioctl and netlink),
  \<^verbatim>\<open>network/bridge.rs\<close> (the bridge, its address and IP forwarding) and the
  \<^verbatim>\<open>NetworkManager\<close> of \<^verbatim>\<open>network/mod.rs\<close> that combines them with the rules of
  \<open>NetworkRules\<close>.
\<close>

subsection \<open>bridge.rs\<close>

definition get_link_index :: "sys_host \<Rightarrow> string \<Rightarrow> (anyhow + u32) sys" where
  "get_link_index host name =
     map_io (\<lambda>r. case reply_index r of
         Inl e \<Rightarrow> Inl (err_context (''Failed to query link '' @ name) (anyhow_of_io e))
       | Inr None \<Rightarrow> Inl (anyhow (''Link '' @ name @ '' not found''))
       | Inr (Some idx) \<Rightarrow> Inr idx)
       (ask host (LinkGet name))"

definition ip_forward_file :: string where
  "ip_forward_file = ''/proc/sys/net/ipv4/ip_forward''"

definition enable_ip_forwarding :: "sys_host \<Rightarrow> (anyhow + unit) sys" where
  "enable_ip_forwarding host =
     bind_io (ask host (WriteFile ip_forward_file (bytes_of ''1''))) (\<lambda>r.
     case reply_unit r of
       Inr _ \<Rightarrow> ret_io (Inr ())
     | Inl e \<Rightarrow>
         if io_kind e = PermissionDenied then
           bindE (ctx_io ''Failed to read IP forwarding status''
                    (map_io (\<lambda>r. to_anyhow (reply_text r)) (ask host (ReadToString ip_forward_file)))) (\<lambda>current.
           if trim current = ''1'' then ret_io (Inr ())
           else ret_io (Inl (anyhow (''IP forwarding is disabled and cannot be enabled: '' @ io_message e))))
         else ret_io (Inl (anyhow (''Failed to enable IP forwarding: '' @ io_message e))))"

definition create_bridge :: "sys_host \<Rightarrow> string \<Rightarrow> ip_addr \<Rightarrow> (anyhow + unit) sys" where
  "create_bridge host name gw =
     bindE (ctx_io (''Failed to create bridge '' @ name) (call_unit host (LinkAddBridge name))) (\<lambda>_.
     bindE (ctx_io (''Failed to get index for bridge '' @ name) (get_link_index host name)) (\<lambda>idx.
     bindE (ctx_io (''Failed to assign IP '' @ show_ip gw @ ''/24 to bridge '' @ name)
              (call_unit host (AddressAdd idx gw 24))) (\<lambda>_.
     bindE (ctx_io (''Failed to bring up bridge '' @ name) (call_unit host (LinkSetUp idx))) (\<lambda>_.
     bindE (enable_ip_forwarding host) (\<lambda>_.
     bindE (add_proxy_redirect_rules host name) (\<lambda>_.
     bindE (add_egress_filter_rules host name) (\<lambda>_.
     ret_io (Inr ()))))))))"

text \<open>The bridge counts as present whenever the netlink query does not fail, an empty answer
  included.\<close>

definition ensure_bridge :: "sys_host \<Rightarrow> string \<Rightarrow> ip_addr \<Rightarrow> (anyhow + unit) sys" where
  "ensure_bridge host name gw =
     bind_io (map_io (\<lambda>r. is_ok (reply_index r)) (ask host (LinkGet name))) (\<lambda>present.
     bindE (if present then ret_io (Inr ()) else create_bridge host name gw) (\<lambda>_.
     bindE (enable_ip_forwarding host) (\<lambda>_.
     bindE (ensure_proxy_redirect_rules host name) (\<lambda>_.
     bindE (ensure_egress_filter_rules host name) (\<lambda>_.
     ret_io (Inr ()))))))"

definition attach_tap_to_bridge :: "sys_host \<Rightarrow> string \<Rightarrow> string \<Rightarrow> (anyhow + unit) sys" where
  "attach_tap_to_bridge host bridge tap =
     bindE (ctx_io (''Failed to get index for bridge '' @ bridge) (get_link_index host bridge)) (\<lambda>bridge_index.
     bindE (ctx_io (''Failed to get index for TAP '' @ tap) (get_link_index host tap)) (\<lambda>tap_index.
     bindE (ctx_io (''Failed to attach TAP '' @ tap @ '' to bridge '' @ bridge)
              (call_unit host (LinkSetController tap_index bridge_index))) (\<lambda>_.
     ret_io (Inr ()))))"

subsection \<open>tap.rs\<close>

abbreviation IFNAMSIZ :: nat where
  "IFNAMSIZ \<equiv> 16"

abbreviation IFF_TAP :: u16 where
  "IFF_TAP \<equiv> 0x0002"

abbreviation IFF_NO_PI :: u16 where
  "IFF_NO_PI \<equiv> 0x1000"

text \<open>The name copied byte by byte into a zeroed array of \<open>IFNAMSIZ\<close> bytes.\<close>

definition tap_ifreq :: "string \<Rightarrow> ifreq" where
  "tap_ifreq name =
     \<lparr>ifr_name = bytes_of name @ replicate (IFNAMSIZ - length name) 0,
      ifr_flags = or IFF_TAP IFF_NO_PI\<rparr>"

definition bring_up :: "sys_host \<Rightarrow> string \<Rightarrow> (anyhow + unit) sys" where
  "bring_up host name =
     bindE (ctx_io (''Failed to get index for device '' @ name) (get_link_index host name)) (\<lambda>idx.
     bindE (ctx_io (''Failed to bring up device '' @ name) (call_unit host (LinkSetUp idx))) (\<lambda>_.
     ret_io (Inr ())))"

definition create_tap :: "sys_host \<Rightarrow> string \<Rightarrow> (anyhow + unit) sys" where
  "create_tap host name =
     (if \<not> length name < IFNAMSIZ then
        ret_io (Inl (anyhow (''TAP device name '' @ [CHR 0x27] @ name @ [CHR 0x27] @
          '' too long (max '' @ show_nat (IFNAMSIZ - 1) @ '' chars)'')))
      else
     bindE (ctx_io ''Failed to open /dev/net/tun'' (call_unit host OpenTun)) (\<lambda>_.
     bindE (ctx_io (''ioctl TUNSETIFF failed for TAP device '' @ name)
              (call_unit host (TunSetIff (tap_ifreq name)))) (\<lambda>_.
     bindE (map_io (\<lambda>r. case reply_unit r of
                Inl e \<Rightarrow> Inl (anyhow (''ioctl TUNSETPERSIST failed for TAP device '' @ name @ '': '' @
                           io_message e))
              | Inr _ \<Rightarrow> Inr ()) (ask host TunSetPersist)) (\<lambda>_.
     bindE (bring_up host name) (\<lambda>_.
     ret_io (Inr ()))))))"

definition delete_tap :: "sys_host \<Rightarrow> string \<Rightarrow> (anyhow + unit) sys" where
  "delete_tap host name =
     bind_io (get_link_index host name) (\<lambda>r.
     case r of
       Inr idx \<Rightarrow>
         bindE (ctx_io (''Failed to delete TAP device '' @ name) (call_unit host (LinkDel idx))) (\<lambda>_.
         ret_io (Inr ()))
     | Inl _ \<Rightarrow> ret_io (Inr ()))"

subsection \<open>mod.rs\<close>

text \<open>The manager's fields are the constant bridge name and the netlink handle.\<close>

definition bridge_name :: string where
  "bridge_name = ''br0''"

definition NetworkManager_ensure_bridge :: "sys_host \<Rightarrow> (anyhow + unit) sys" where
  "NetworkManager_ensure_bridge host =
     bindE (ensure_bridge host bridge_name (V4 (ipv4_new 192 168 100 1))) (\<lambda>_.
     ret_io (Inr ()))"

definition NetworkManager_create_tap :: "sys_host \<Rightarrow> string \<Rightarrow> ip_addr \<Rightarrow> (anyhow + unit) sys" where
  "NetworkManager_create_tap host tap_name ip =
     bindE (create_tap host tap_name) (\<lambda>_.
     bindE (attach_tap_to_bridge host bridge_name tap_name) (\<lambda>_.
     bindE (add_source_ip_rule host tap_name ip) (\<lambda>_.
     ret_io (Inr ()))))"

definition NetworkManager_delete_tap :: "sys_host \<Rightarrow> string \<Rightarrow> ip_addr \<Rightarrow> (anyhow + unit) sys" where
  "NetworkManager_delete_tap host tap_name ip =
     bind_io (remove_source_ip_rule host tap_name ip) (\<lambda>_.
     bindE (delete_tap host tap_name) (\<lambda>_.
     ret_io (Inr ())))"

subsection \<open>Effect on the rule table\<close>

text \<open>Calls that are not rule changes leave the table alone.\<close>

definition non_rule :: "sys_call set" where
  "non_rule = {c. \<forall>t ch r. c \<noteq> IptAppend t ch r \<and> c \<noteq> IptDelete t ch r}"

lemma table_after_non_rule: "fst ` set k \<subseteq> non_rule \<Longrightarrow> table_after T k = T"
  by (induction T k rule: table_after.induct) (auto simp: non_rule_def)

lemma non_rule_simps [simp]:
  "LinkGet n \<in> non_rule" "LinkAddBridge n \<in> non_rule" "AddressAdd i ip l \<in> non_rule"
  "LinkSetUp i \<in> non_rule" "LinkSetController i j \<in> non_rule" "LinkDel i \<in> non_rule"
  "OpenTun \<in> non_rule" "TunSetIff r \<in> non_rule" "TunSetPersist \<in> non_rule"
  "WriteFile f b \<in> non_rule" "ReadToString f \<in> non_rule" "IptNew \<in> non_rule"
  by (simp_all add: non_rule_def)

lemma only_get_link_index [only_intros]: "LinkGet name \<in> S \<Longrightarrow> only (get_link_index host name) S"
  unfolding get_link_index_def by (intro only_intros)

lemma only_enable_ip_forwarding: "only (enable_ip_forwarding host) non_rule"
  unfolding enable_ip_forwarding_def by (intro only_intros) simp_all

lemma only_create_tap: "only (create_tap host name) non_rule"
  unfolding create_tap_def bring_up_def by (intro only_intros) simp_all

lemma only_attach_tap: "only (attach_tap_to_bridge host bridge tap) non_rule"
  unfolding attach_tap_to_bridge_def by (intro only_intros) simp_all

lemma only_delete_tap: "only (delete_tap host name) non_rule"
  unfolding delete_tap_def by (intro only_intros) simp_all

text \<open>\<open>adds m rs\<close>: a run of \<open>m\<close> adds a prefix of the rules \<open>rs\<close> at the end of the table, all
  of them exactly when it succeeds.\<close>

definition adds :: "(anyhow + 'a) sys \<Rightarrow> ipt_rule list \<Rightarrow> bool" where
  "adds m rs \<longleftrightarrow> traces m (\<lambda>res k. \<exists>rs'. prefix rs' rs \<and> (is_ok res \<longrightarrow> rs' = rs) \<and>
     (\<forall>T. table_after T k = T @ rs'))"

named_theorems adds_intros "the rules an operation adds"

lemma adds_only: "only m non_rule \<Longrightarrow> adds m []"
  unfolding only_def adds_def by (erule traces_weaken) (auto simp: table_after_non_rule)

lemma adds_ret [adds_intros]: "adds (ret_io (Inr x)) []"
  unfolding adds_def by (rule traces_ret) simp

lemma adds_append [adds_intros]: "adds (ipt_append host t c r d) [(t, c, r)]"
  unfolding adds_def
proof (rule traces_weaken [OF ipt_append_trace], goal_cases)
  case (1 res k)
  then show ?case
    by (intro exI [of _ "if is_ok res then [(t, c, r)] else []"]) auto
qed

lemma adds_bindE:
  assumes "adds m rs" and "\<And>x. adds (f x) qs"
  shows "adds (bindE m f) (rs @ qs)"
  unfolding adds_def
proof (rule traces_bindE [OF assms(1) [unfolded adds_def]], goal_cases)
  case (1 e k)
  then show ?case
    by auto
next
  case (2 x k)
  then have k: "table_after T k = T @ rs" for T
    by auto
  show ?case
    by (rule traces_weaken [OF assms(2) [unfolded adds_def]]) (use k in auto)
qed

lemma adds_skip [adds_intros]: "adds m [] \<Longrightarrow> (\<And>x. adds (f x) qs) \<Longrightarrow> adds (bindE m f) qs"
  using adds_bindE [of m "[]" f qs] by simp

lemma adds_more [adds_intros]:
  "adds m [r] \<Longrightarrow> (\<And>x. adds (f x) qs) \<Longrightarrow> adds (bindE m f) (r # qs)"
  using adds_bindE [of m "[r]" f qs] by simp

lemma adds_table:
  assumes "adds m rs" and "m h = (res, h')"
  shows "\<exists>k rs'. h' = h @ k \<and> prefix rs' rs \<and> (is_ok res \<longrightarrow> rs' = rs) \<and>
    table_after T0 h' = table_after T0 h @ rs'"
  by (rule tracesD [OF assms(1) [unfolded adds_def] assms(2)]) auto

lemma adds_ipt_new [adds_intros]: "adds (ipt_new host) []"
  by (rule adds_only, unfold ipt_new_def, intro only_intros) simp

lemma adds_source_ip_rule: "adds (add_source_ip_rule host tap ip) [(''filter'', ''FORWARD'', source_ip_rule tap ip)]"
  unfolding add_source_ip_rule_def by (intro adds_intros)

lemma adds_create_bridge: "adds (create_bridge host name gw) (bridge_rules name)"
proof -
  have "adds (add_proxy_redirect_rules host name) (map fst (proxy_redirect_rules name))"
    unfolding add_proxy_redirect_rules_def proxy_redirect_rules_def by (simp, intro adds_intros)
  moreover have "adds (add_egress_filter_rules host name) (map fst (egress_filter_rules name))"
    unfolding add_egress_filter_rules_def egress_filter_rules_def by (simp, intro adds_intros)
  then have "adds (bindE (add_egress_filter_rules host name) (\<lambda>_. ret_io (Inr ())))
      (map fst (egress_filter_rules name) @ [])"
    by (rule adds_bindE) (rule adds_ret)
  ultimately have rules: "adds (bindE (add_proxy_redirect_rules host name) (\<lambda>_.
      bindE (add_egress_filter_rules host name) (\<lambda>_. ret_io (Inr ())))) (bridge_rules name)"
    unfolding bridge_rules_def map_append
    by (intro adds_bindE) simp_all
  have [adds_intros]: "adds (ctx_io c (call_unit host (LinkAddBridge n))) []"
    "adds (ctx_io c (get_link_index host n)) []" "adds (ctx_io c (call_unit host (AddressAdd i ip l))) []"
    "adds (ctx_io c (call_unit host (LinkSetUp i))) []" for c n i ip l
    by (auto intro!: adds_only only_intros)
  show ?thesis
    unfolding create_bridge_def
    by (intro adds_skip rules adds_only [OF only_enable_ip_forwarding]) (fact adds_intros)+
qed

lemma ensure_bridge_ends:
  assumes host: "ipt_faithful T0 host"
    and run: "bindE (enable_ip_forwarding host) (\<lambda>_.
      bindE (ensure_proxy_redirect_rules host name) (\<lambda>_.
      bindE (ensure_egress_filter_rules host name) (\<lambda>_. ret_io (Inr ())))) h = (Inr (), h')"
  shows "table_after T0 h' = table_after T0 h @
    filter (\<lambda>r. r \<notin> set (table_after T0 h)) (bridge_rules name)"
proof -
  obtain u h1 where fwd: "enable_ip_forwarding host h = (u, h1)"
    by (cases "enable_ip_forwarding host h")
  with run have "bindE (ensure_proxy_redirect_rules host name)
      (\<lambda>_. ensure_egress_filter_rules host name) h1 = (Inr (), h')"
    by (auto simp: io_simps split: sum.splits prod.splits)
  from ensure_both_table [OF host this] have "table_after T0 h' = table_after T0 h1 @
    filter (\<lambda>r. r \<notin> set (table_after T0 h1)) (bridge_rules name)"
    by blast
  moreover have "table_after T0 h1 = table_after T0 h"
    by (rule onlyD [OF only_enable_ip_forwarding fwd]) (simp add: table_after_non_rule)
  ultimately show ?thesis
    by simp
qed

lemma ensure_bridge_rules_after:
  assumes host: "ipt_faithful T0 host" and run: "ensure_bridge host name gw h = (Inr (), h')"
  shows "table_after T0 h' = table_after T0 h @
    (if is_ok (reply_index (host h (LinkGet name)))
     then filter (\<lambda>r. r \<notin> set (table_after T0 h)) (bridge_rules name)
     else bridge_rules name)"
proof -
  let ?h1 = "h @ [(LinkGet name, host h (LinkGet name))]"
  let ?rest = "bindE (enable_ip_forwarding host) (\<lambda>_.
      bindE (ensure_proxy_redirect_rules host name) (\<lambda>_.
      bindE (ensure_egress_filter_rules host name) (\<lambda>_. ret_io (Inr ()))))"
  show ?thesis
  proof (cases "is_ok (reply_index (host h (LinkGet name)))")
    case True
    with run have "?rest ?h1 = (Inr (), h')"
      unfolding ensure_bridge_def by (simp add: bind_io_def map_io_def ask_def bindE_apply ret_io_def)
    with ensure_bridge_ends [OF host this] True show ?thesis
      by simp
  next
    case False
    obtain u h2 where new: "create_bridge host name gw ?h1 = (u, h2)"
      by (cases "create_bridge host name gw ?h1")
    with run False have u: "u = Inr ()" and rest: "?rest h2 = (Inr (), h')"
      unfolding ensure_bridge_def
      by (auto simp: bind_io_def map_io_def ask_def bindE_apply split: sum.splits)
    have "table_after T0 h2 = table_after T0 h @ bridge_rules name"
      using adds_table [OF adds_create_bridge new, of T0] u by auto
    with ensure_bridge_ends [OF host rest] False show ?thesis
      by simp
  qed
qed

text \<open>C16: Start-up leaves the packet filter right. When \<^verbatim>\<open>ensure_bridge\<close> succeeds and the
  existence checks tell the truth, the rules in force before keep their order and the bridge's
  five rules (HTTP, HTTPS and DNS redirects, then the drop rule) are in force after them: on an
  existing bridge only the missing ones are added, so a restart duplicates nothing; a bridge
  that had to be created gets all five.\<close>

theorem ensure_bridge_table:
  assumes host: "ipt_faithful T0 host" and run: "ensure_bridge host name gw h = (Inr (), h')"
  shows "table_after T0 h' = table_after T0 h @
    (if is_ok (reply_index (host h (LinkGet name)))
     then filter (\<lambda>r. r \<notin> set (table_after T0 h)) (bridge_rules name)
     else bridge_rules name)"
  using ensure_bridge_rules_after [OF host run] .

text \<open>A host that accepts every rule change, knows its table, has the bridge exactly when
  \<open>present\<close>, and every file.\<close>

definition rule_host :: "bool \<Rightarrow> ipt_rule list \<Rightarrow> sys_host" where
  "rule_host present T0 h c =
     (case c of
        IptExists t ch r \<Rightarrow> RBool ((t, ch, r) \<in> set (table_after T0 h))
      | LinkGet n \<Rightarrow> if present \<or> LinkAddBridge n \<in> fst ` set h then RIndex (Some 7) else
          RErr (IoError OtherKind ''no such device'')
      | PathExists _ \<Rightarrow> RBool True
      | ReadToString _ \<Rightarrow> RText ''1''
      | _ \<Rightarrow> ROk)"

lemma rule_host_faithful: "ipt_faithful T0 (rule_host present T0)"
  by (simp add: ipt_faithful_def rule_host_def)

lemma rule_host_ensure_all: "fst (ensure_all (rule_host p T0) rules h) = Inr ()"
proof (induction rules arbitrary: h)
  case (Cons x rules)
  then show ?case
    by (cases x) (auto simp: ensure_iptables_rule_def ipt_append_def io_simps rule_host_def
        reply_bool_def reply_unit_def split: prod.splits)
qed (simp add: io_simps)

lemma rule_host_ensure:
  "fst (ensure_proxy_redirect_rules (rule_host p T0) name h) = Inr ()"
  "fst (ensure_egress_filter_rules (rule_host p T0) name h) = Inr ()"
  using rule_host_ensure_all [of p T0]
  by (auto simp: ensure_proxy_redirect_rules_def ensure_egress_filter_rules_def ipt_new_def io_simps
      rule_host_def reply_unit_def)

lemma rule_host_ensure_bridge: "fst (ensure_bridge (rule_host True T0) name gw h) = Inr ()"
  using rule_host_ensure [of True T0 name]
  by (auto simp: ensure_bridge_def enable_ip_forwarding_def io_simps rule_host_def reply_unit_def
      reply_index_def split: prod.splits sum.splits) (metis fst_conv sum.distinct(1))+

theorem ensure_bridge_table_witness:
  "table_after [] (snd (ensure_bridge (rule_host True []) ''br0'' (V4 1) [])) = bridge_rules ''br0''"
proof -
  let ?host = "rule_host True []"
  have "ensure_bridge ?host ''br0'' (V4 1) [] = (Inr (), snd (ensure_bridge ?host ''br0'' (V4 1) []))"
    using rule_host_ensure_bridge by (metis prod.collapse)
  then show ?thesis
    using ensure_bridge_table [OF rule_host_faithful, of True "[]" "''br0''" "V4 1" "[]"]
    by (simp add: rule_host_def reply_index_def)
qed

text \<open>\<open>adds_iff m r\<close>: the rule \<open>r\<close> is added exactly when \<open>m\<close> succeeds.\<close>

definition adds_iff :: "(anyhow + 'a) sys \<Rightarrow> ipt_rule \<Rightarrow> bool" where
  "adds_iff m r \<longleftrightarrow> traces m (\<lambda>res k. \<forall>T. table_after T k = T @ (if is_ok res then [r] else []))"

lemma adds_iff_skip:
  assumes "only m non_rule" and "\<And>x. adds_iff (f x) r"
  shows "adds_iff (bindE m f) r"
  unfolding adds_iff_def
proof (rule traces_bindE [OF assms(1) [unfolded only_def]], goal_cases)
  case (2 x k)
  then show ?case
    by (intro traces_weaken [OF assms(2) [unfolded adds_iff_def]]) (simp add: table_after_non_rule)
qed (simp add: table_after_non_rule)

lemma adds_iff_last:
  assumes "adds_iff m r"
  shows "adds_iff (bindE m (\<lambda>_. ret_io (Inr x))) r"
  unfolding adds_iff_def
  by (rule traces_bindE [OF assms [unfolded adds_iff_def]]) (auto intro: traces_ret)

lemma adds_iff_append: "adds_iff (ipt_append host t c r d) (t, c, r)"
  unfolding adds_iff_def by (rule traces_weaken [OF ipt_append_trace]) simp

lemma adds_iff_create_tap:
  "adds_iff (NetworkManager_create_tap host tap ip) (''filter'', ''FORWARD'', source_ip_rule tap ip)"
proof -
  have new: "only (ipt_new host) non_rule"
    unfolding ipt_new_def by (intro only_intros) simp
  show ?thesis
    unfolding NetworkManager_create_tap_def add_source_ip_rule_def
    by (intro adds_iff_skip [OF only_create_tap] adds_iff_skip [OF only_attach_tap]
        adds_iff_skip [OF new] adds_iff_last adds_iff_append)
qed

text \<open>C17: Configuring a TAP device is closed against address spoofing: it reports success only
  when the rule that drops packets with any other source address is in force, and a failed
  attempt leaves the rule table as it was.\<close>

theorem create_tap_enforces_source:
  "case NetworkManager_create_tap host tap ip h of (res, h') \<Rightarrow>
     table_after T0 h' = table_after T0 h @
       (if is_ok res then [(''filter'', ''FORWARD'', source_ip_rule tap ip)] else [])"
  using traces_case [OF adds_iff_create_tap [unfolded adds_iff_def, of host tap ip], of h]
  by (auto split: prod.splits)

end
