(* ===== verification/IpAllocator.thy ===== *)
theory IpAllocator
  imports NetAddr
begin

text \<open>
  \<^verbatim>\<open>clawpot-server/src/network/ip_allocator.rs\<close>: the pool of guest addresses
  192.168.100.2 to 192.168.100.254, a bitmap searched round-robin from a hint.

  The \<^verbatim>\<open>BitVec\<close> is a list of booleans and the \<^verbatim>\<open>usize\<close> hint a natural number; the
  addresses keep their 32-bit width. \<open>allocate\<close> and \<open>release\<close> take the allocator (the
  value behind the server's mutex) and return it updated.
\<close>

record ip_allocator =
  network_base :: u32
  gateway :: u32
  allocated :: "bool list"
  next_index :: nat

definition IpAllocator_new :: ip_allocator where
  "IpAllocator_new =
     \<lparr>network_base = ipv4_new 192 168 100 0,
      gateway = ipv4_new 192 168 100 1,
      allocated = replicate 253 False,
      next_index = 0\<rparr>"

text \<open>The \<^verbatim>\<open>for\<close> loop of \<^verbatim>\<open>allocate\<close> over the offsets still to try, then its fall-through.\<close>

fun allocate_loop :: "nat list \<Rightarrow> ip_allocator \<Rightarrow> (anyhow + ip_addr) \<times> ip_allocator" where
  "allocate_loop [] s = (Inl (anyhow ''No available IP addresses in the pool''), s)"
| "allocate_loop (i # is) s =
     (let index = (next_index s + i) mod length (allocated s) in
      if \<not> allocated s ! index then
        (Inr (V4 (network_base s + 2 + of_nat index)),
         s\<lparr>allocated := (allocated s)[index := True],
           next_index := (index + 1) mod length (allocated s)\<rparr>)
      else allocate_loop is s)"

definition allocate :: "ip_allocator \<Rightarrow> (anyhow + ip_addr) \<times> ip_allocator" where
  "allocate s = allocate_loop [0..<length (allocated s)] s"

definition release :: "ip_addr \<Rightarrow> ip_allocator \<Rightarrow> (anyhow + unit) \<times> ip_allocator" where
  "release ip s =
     (case ip of
        V6 _ \<Rightarrow> (Inl (anyhow ''IPv6 addresses are not supported''), s)
      | V4 ip_u32 \<Rightarrow>
          if ip_u32 < network_base s + 2 \<or> network_base s + 254 < ip_u32 then
            (Inl (anyhow (''IP address '' @ show_ipv4 ip_u32 @
               '' is not in the allocatable range (192.168.100.2-254)'')), s)
          else
            let index = unat (ip_u32 - network_base s - 2) in
            if length (allocated s) \<le> index then
              (Inl (anyhow (''IP address '' @ show_ipv4 ip_u32 @ '' is out of range'')), s)
            else (Inr (), s\<lparr>allocated := (allocated s)[index := False]\<rparr>))"

definition gateway_ip :: "ip_allocator \<Rightarrow> ip_addr" where
  "gateway_ip s = V4 (gateway s)"

definition allocated_count :: "ip_allocator \<Rightarrow> nat" where
  "allocated_count s = length (filter id (allocated s))"

definition available_count :: "ip_allocator \<Rightarrow> nat" where
  "available_count s = length (allocated s) - allocated_count s"

subsection \<open>Invariant and abstraction\<close>

text \<open>
  The allocator always manages the same 253 addresses. \<open>pool_ip i\<close> is the address of bitmap
  index \<open>i\<close> and \<open>leased\<close> the set of addresses handed out and not yet returned.
\<close>

definition pool_inv :: "ip_allocator \<Rightarrow> bool" where
  "pool_inv s \<longleftrightarrow> network_base s = 0xC0A86400 \<and> gateway s = 0xC0A86401 \<and>
     length (allocated s) = 253 \<and> next_index s < 253"

definition pool_ip :: "nat \<Rightarrow> ip_addr" where
  "pool_ip i = V4 (0xC0A86402 + of_nat i)"

definition pool_range :: "ip_addr set" where
  "pool_range = pool_ip ` {..<253}"

definition leased :: "ip_allocator \<Rightarrow> ip_addr set" where
  "leased s = pool_ip ` {i. i < length (allocated s) \<and> allocated s ! i}"

lemma pool_inv_new [simp]: "pool_inv IpAllocator_new"
  by (simp add: pool_inv_def IpAllocator_new_def)

lemma leased_new [simp]: "leased IpAllocator_new = {}"
  by (simp add: leased_def IpAllocator_new_def)

lemma unat_pool_u32: "i < 253 \<Longrightarrow> unat (0xC0A86402 + of_nat i :: u32) = 0xC0A86402 + i"
  by (simp add: unat_word_ariths unat_of_nat)

lemma pool_ip_inj: "inj_on pool_ip {..<253}"
proof (rule inj_onI)
  fix i j :: nat
  assume "i \<in> {..<253}" "j \<in> {..<253}" and "pool_ip i = pool_ip j"
  then have "unat (0xC0A86402 + of_nat i :: u32) = unat (0xC0A86402 + of_nat j :: u32)"
    by (simp add: pool_ip_def)
  with \<open>i \<in> _\<close> \<open>j \<in> _\<close> show "i = j"
    by (simp add: unat_pool_u32)
qed

lemma pool_ip_eq_iff [simp]: "i < 253 \<Longrightarrow> j < 253 \<Longrightarrow> pool_ip i = pool_ip j \<longleftrightarrow> i = j"
  using pool_ip_inj by (auto simp: inj_on_def)

lemma pool_ip_in_leased:
  "pool_inv s \<Longrightarrow> i < 253 \<Longrightarrow> pool_ip i \<in> leased s \<longleftrightarrow> allocated s ! i"
  by (auto simp: leased_def pool_inv_def)

lemma leased_subset: "pool_inv s \<Longrightarrow> leased s \<subseteq> pool_range"
  by (auto simp: leased_def pool_range_def pool_inv_def)

lemma leased_update:
  assumes "pool_inv s" and "i < 253" and "allocated s' = (allocated s)[i := b]"
  shows "leased s' = (if b then insert (pool_ip i) (leased s) else leased s - {pool_ip i})"
  using assms by (auto simp: leased_def pool_inv_def nth_list_update)

subsection \<open>The search of allocate\<close>

text \<open>The offset at which the round-robin search stops: the first free one.\<close>

definition free_offset :: "ip_allocator \<Rightarrow> nat option" where
  "free_offset s = find (\<lambda>i. \<not> allocated s ! ((next_index s + i) mod 253)) [0..<253]"

lemma allocate_loop_find:
  "allocate_loop is s =
     (case find (\<lambda>i. \<not> allocated s ! ((next_index s + i) mod length (allocated s))) is of
        None \<Rightarrow> (Inl (anyhow ''No available IP addresses in the pool''), s)
      | Some i \<Rightarrow> let index = (next_index s + i) mod length (allocated s) in
          (Inr (V4 (network_base s + 2 + of_nat index)),
           s\<lparr>allocated := (allocated s)[index := True],
             next_index := (index + 1) mod length (allocated s)\<rparr>))"
  by (induction "is") (auto simp: Let_def)

lemma allocate_eq:
  assumes "pool_inv s"
  shows "allocate s =
    (case free_offset s of
       None \<Rightarrow> (Inl (anyhow ''No available IP addresses in the pool''), s)
     | Some k \<Rightarrow> let i = (next_index s + k) mod 253 in
         (Inr (pool_ip i), s\<lparr>allocated := (allocated s)[i := True], next_index := (i + 1) mod 253\<rparr>))"
  using assms
  by (simp add: allocate_def allocate_loop_find free_offset_def pool_inv_def pool_ip_def Let_def
      split: option.splits)

lemma cyclic_offset:
  assumes "n < 253" and "i < (253 :: nat)"
  obtains k where "k < 253" "(n + k) mod 253 = i"
proof
  show "(if n \<le> i then i - n else i + 253 - n) < 253"
    using assms by auto
  show "(n + (if n \<le> i then i - n else i + 253 - n)) mod 253 = i"
    using assms by (auto simp: mod_if)
qed

lemma free_offset_None_iff:
  assumes "pool_inv s"
  shows "free_offset s = None \<longleftrightarrow> leased s = pool_range"
proof -
  have n: "next_index s < 253" and len: "length (allocated s) = 253"
    using assms by (auto simp: pool_inv_def)
  have "free_offset s = None \<longleftrightarrow> (\<forall>k<253. allocated s ! ((next_index s + k) mod 253))"
    by (auto simp: free_offset_def find_upt_none)
  also have "\<dots> \<longleftrightarrow> (\<forall>i<253. allocated s ! i)"
    by (metis cyclic_offset [OF n] mod_less_divisor zero_less_numeral)
  also have "\<dots> \<longleftrightarrow> leased s = pool_range"
  proof
    assume all: "\<forall>i<253. allocated s ! i"
    have "pool_range \<subseteq> leased s"
      using all pool_ip_in_leased [OF assms] by (auto simp: pool_range_def)
    then show "leased s = pool_range"
      using leased_subset [OF assms] by blast
  next
    assume "leased s = pool_range"
    then show "\<forall>i<253. allocated s ! i"
      using pool_ip_in_leased [OF assms] by (auto simp: pool_range_def)
  qed
  finally show ?thesis .
qed

lemma allocate_Inr:
  assumes "pool_inv s" and "allocate s = (Inr ip, s')"
  obtains k i where "free_offset s = Some k" "i = (next_index s + k) mod 253"
    "i < 253" "\<not> allocated s ! i" "ip = pool_ip i"
    "s' = s\<lparr>allocated := (allocated s)[i := True], next_index := (i + 1) mod 253\<rparr>"
proof -
  obtain k where k: "free_offset s = Some k"
    using assms by (cases "free_offset s") (auto simp: allocate_eq)
  then have "\<not> allocated s ! ((next_index s + k) mod 253)"
    by (auto simp: free_offset_def find_upt_first)
  with k assms show ?thesis
    by (intro that [of k "(next_index s + k) mod 253"]) (auto simp: allocate_eq Let_def)
qed

lemma allocate_Inl:
  assumes "pool_inv s" and "allocate s = (Inl e, s')"
  shows "leased s = pool_range" and "s' = s"
  using assms free_offset_None_iff [OF assms(1)]
  by (cases "free_offset s"; auto simp: allocate_eq Let_def)+

lemma allocate_inv [inv_intros]:
  assumes "pool_inv s" and "allocate s = (r, s')"
  shows "pool_inv s'"
proof (cases r)
  case (Inl e)
  then show ?thesis
    using allocate_Inl [of s e s'] assms by simp
next
  case (Inr ip)
  then obtain i where "i < 253"
      "s' = s\<lparr>allocated := (allocated s)[i := True], next_index := (i + 1) mod 253\<rparr>"
    using allocate_Inr [of s ip s'] assms by metis
  then show ?thesis
    using assms(1) by (simp add: pool_inv_def)
qed

lemma allocate_leased:
  assumes "pool_inv s" and "allocate s = (Inr ip, s')"
  shows "ip \<in> pool_range" and "ip \<notin> leased s" and "leased s' = insert ip (leased s)"
proof -
  obtain i where i: "i < 253" "\<not> allocated s ! i" "ip = pool_ip i"
      "s' = s\<lparr>allocated := (allocated s)[i := True], next_index := (i + 1) mod 253\<rparr>"
    using allocate_Inr [OF assms] by metis
  then show "ip \<in> pool_range" "ip \<notin> leased s" "leased s' = insert ip (leased s)"
    using assms(1) leased_update [of s i s' True] by (simp_all add: pool_range_def pool_ip_in_leased)
qed

subsection \<open>Releasing\<close>

lemma pool_range_V4:
  "V4 w \<in> pool_range \<longleftrightarrow> 0xC0A86402 \<le> w \<and> w \<le> 0xC0A864FE"
proof
  assume "V4 w \<in> pool_range"
  then obtain i where "i < 253" "w = 0xC0A86402 + of_nat i"
    by (auto simp: pool_range_def pool_ip_def)
  then show "0xC0A86402 \<le> w \<and> w \<le> 0xC0A864FE"
    by (simp add: word_le_nat_alt unat_pool_u32)
next
  assume w: "0xC0A86402 \<le> w \<and> w \<le> 0xC0A864FE"
  let ?i = "unat w - 0xC0A86402"
  have "?i < 253"
    using w by (auto simp: word_le_nat_alt)
  moreover have "unat w = unat (0xC0A86402 + of_nat ?i :: u32)"
    using w \<open>?i < 253\<close> by (simp add: unat_pool_u32 word_le_nat_alt)
  then have "w = 0xC0A86402 + of_nat ?i"
    by (simp add: word_unat_eq_iff)
  ultimately show "V4 w \<in> pool_range"
    by (auto simp: pool_range_def pool_ip_def)
qed

lemma release_pool_ip:
  assumes "pool_inv s" and "i < 253"
  shows "release (pool_ip i) s = (Inr (), s\<lparr>allocated := (allocated s)[i := False]\<rparr>)"
proof -
  have range: "\<not> ((0xC0A86402 + of_nat i :: u32) < 0xC0A86402 \<or> 0xC0A864FE < (0xC0A86402 + of_nat i :: u32))"
    using assms(2) by (simp add: word_less_nat_alt unat_pool_u32)
  have "unat (of_nat i :: u32) = i"
    using assms(2) by (simp add: unat_of_nat)
  with range assms show ?thesis
    by (simp add: release_def pool_ip_def pool_inv_def Let_def)
qed

lemma release_outside:
  assumes "pool_inv s" and "ip \<notin> pool_range"
  obtains e where "release ip s = (Inl e, s)"
proof (cases ip)
  case (V4 w)
  then have "w < 0xC0A86402 \<or> 0xC0A864FE < w"
    using assms(2) by (auto simp: pool_range_V4 not_le)
  with V4 assms(1) show ?thesis
    by (intro that) (simp add: release_def pool_inv_def)
qed (auto simp: release_def intro: that)

lemma release_leased:
  assumes "pool_inv s" and "release ip s = (r, s')"
  shows "leased s' = leased s - {ip}" and "is_ok r \<longleftrightarrow> ip \<in> pool_range"
proof -
  have "leased s' = leased s - {ip} \<and> (is_ok r \<longleftrightarrow> ip \<in> pool_range)"
  proof (cases "ip \<in> pool_range")
    case True
    then obtain i where i: "i < 253" "ip = pool_ip i"
      by (auto simp: pool_range_def)
    then have "r = Inr ()" "s' = s\<lparr>allocated := (allocated s)[i := False]\<rparr>"
      using assms release_pool_ip by auto
    then show ?thesis
      using assms(1) leased_update [of s i s' False] i True by simp
  next
    case False
    then obtain e where "r = Inl e" "s' = s"
      using release_outside [OF assms(1) False] assms(2) by (metis prod.inject)
    then show ?thesis
      using leased_subset [OF assms(1)] False by auto
  qed
  then show "leased s' = leased s - {ip}" and "is_ok r \<longleftrightarrow> ip \<in> pool_range"
    by auto
qed

lemma release_inv [inv_intros]:
  "pool_inv s \<Longrightarrow> release ip s = (r, s') \<Longrightarrow> pool_inv s'"
  by (auto simp: release_def pool_inv_def Let_def split: ip_addr.splits if_splits)

subsection \<open>The pool as an interface\<close>

text \<open>
  What the VM service relies on: an address handed out was free and is now held, a
  released address is no longer held, nothing else changes. \<open>own\<close> gives each owner in
  \<open>D\<close> its address; the two ownership lemmas carry exclusive ownership through a lease and
  a return.
\<close>

locale address_pool =
  fixes alloc :: "'s \<Rightarrow> ('e + 'ip) \<times> 's"
    and free :: "'ip \<Rightarrow> 's \<Rightarrow> ('e + unit) \<times> 's"
    and held :: "'s \<Rightarrow> 'ip set"
    and pool :: "'ip set"
    and invar :: "'s \<Rightarrow> bool"
  assumes alloc_invar: "invar s \<Longrightarrow> alloc s = (r, s') \<Longrightarrow> invar s'"
    and alloc_new: "invar s \<Longrightarrow> alloc s = (Inr ip, s') \<Longrightarrow> ip \<in> pool \<and> ip \<notin> held s"
    and alloc_held: "invar s \<Longrightarrow> alloc s = (Inr ip, s') \<Longrightarrow> held s' = insert ip (held s)"
    and alloc_full: "invar s \<Longrightarrow> alloc s = (Inl e, s') \<Longrightarrow> s' = s \<and> held s = pool"
    and free_invar: "invar s \<Longrightarrow> free ip s = (q, s') \<Longrightarrow> invar s'"
    and free_held: "invar s \<Longrightarrow> free ip s = (q, s') \<Longrightarrow> held s' = held s - {ip}"
begin

lemma alloc_owner:
  assumes "invar s" "inj_on own D" "own ` D \<subseteq> held s" "new \<notin> D" "alloc s = (Inr ip, s')"
  shows "inj_on (own(new := ip)) (insert new D)" "(own(new := ip)) ` insert new D \<subseteq> held s'"
proof -
  have ip: "ip \<notin> own ` D"
    using assms alloc_new by blast
  then have "inj_on (own(new := ip)) D" "(own(new := ip)) ` (D - {new}) = own ` D"
    using assms(2,4) by (auto intro: inj_on_fun_updI)
  with ip show "inj_on (own(new := ip)) (insert new D)"
    by (simp only: inj_on_insert) simp
  have "held s' = insert ip (held s)"
    using assms alloc_held by blast
  then show "(own(new := ip)) ` insert new D \<subseteq> held s'"
    using assms(3,4) by (auto simp: fun_upd_image)
qed

lemma free_owner:
  assumes "invar s" "inj_on own D" "own ` D \<subseteq> held s" "old \<in> D" "free (own old) s = (q, s')"
  shows "inj_on own (D - {old})" "own ` (D - {old}) \<subseteq> held s'"
proof -
  show "inj_on own (D - {old})"
    using assms(2) by (rule inj_on_subset) blast
  have "held s' = held s - {own old}"
    using assms(1,5) by (rule free_held)
  moreover have "own ` (D - {old}) = own ` D - {own old}"
    using assms(2,4) by (simp add: inj_on_image_set_diff)
  ultimately show "own ` (D - {old}) \<subseteq> held s'"
    using assms(3) by blast
qed

lemma alloc_available:
  assumes "invar s" "held s \<subset> pool"
  obtains ip s' where "alloc s = (Inr ip, s')"
proof (cases "alloc s")
  case (Pair r s')
  then show ?thesis
    using assms alloc_full that by (cases r) auto
qed

end

interpretation vm_pool: address_pool allocate release leased pool_range pool_inv
proof unfold_locales
  show "s' = s \<and> leased s = pool_range" if "pool_inv s" "allocate s = (Inl e, s')" for s e s'
    using allocate_Inl that by blast
qed (auto simp: allocate_leased release_leased intro: inv_intros)

subsection \<open>Counting\<close>

lemma card_leased: "pool_inv s \<Longrightarrow> card (leased s) = allocated_count s"
proof -
  assume inv: "pool_inv s"
  then have "inj_on pool_ip {i. i < length (allocated s) \<and> allocated s ! i}"
    by (intro inj_on_subset [OF pool_ip_inj]) (auto simp: pool_inv_def)
  then show ?thesis
    by (simp add: leased_def allocated_count_def card_image length_filter_conv_card)
qed

lemma card_pool_range [simp]: "card pool_range = 253"
  using card_image [OF pool_ip_inj] by (simp add: pool_range_def)

lemma gateway_not_in_pool: "pool_inv s \<Longrightarrow> gateway_ip s \<notin> pool_range"
  by (simp add: gateway_ip_def pool_inv_def pool_range_V4)

subsection \<open>A run of allocations on a new allocator\<close>

fun allocate_times :: "nat \<Rightarrow> ip_allocator \<Rightarrow> ip_addr list \<times> ip_allocator" where
  "allocate_times 0 s = ([], s)"
| "allocate_times (Suc n) s =
     (case allocate s of
        (Inl _, s') \<Rightarrow> ([], s')
      | (Inr ip, s') \<Rightarrow> let (ips, s'') = allocate_times n s' in (ip # ips, s''))"

definition filled :: "nat \<Rightarrow> ip_allocator" where
  "filled n = IpAllocator_new\<lparr>allocated := replicate n True @ replicate (253 - n) False,
                              next_index := n mod 253\<rparr>"

lemma filled_0: "filled 0 = IpAllocator_new"
  by (simp add: filled_def IpAllocator_new_def)

lemma filled_inv: "n \<le> 253 \<Longrightarrow> pool_inv (filled n)"
  by (simp add: filled_def pool_inv_def IpAllocator_new_def)

lemma allocate_filled:
  assumes "n < 253"
  shows "allocate (filled n) = (Inr (pool_ip n), filled (Suc n))"
proof -
  have free: "\<not> allocated (filled n) ! n" and hint: "next_index (filled n) = n"
    using assms by (auto simp: filled_def nth_append)
  have "free_offset (filled n) = Some 0"
    using assms free hint by (simp add: free_offset_def find_upt_first)
  moreover have "(replicate n True @ replicate (253 - n) False)[n := True] =
      replicate (Suc n) True @ replicate (252 - n) False"
    using assms by (simp add: list_update_append replicate_append_same Suc_diff_Suc [symmetric])
  ultimately show ?thesis
    using assms filled_inv [of n] hint by (simp add: allocate_eq Let_def) (simp add: filled_def)
qed

lemma allocate_times_filled:
  "m + n \<le> 253 \<Longrightarrow> allocate_times n (filled m) = (map pool_ip [m..<m + n], filled (m + n))"
proof (induction n arbitrary: m)
  case (Suc n)
  then have "allocate_times n (filled (Suc m)) = (map pool_ip [Suc m..<Suc m + n], filled (Suc m + n))"
    by simp
  with Suc.prems show ?case
    by (simp add: allocate_filled upt_conv_Cons)
qed simp

lemma leased_filled: "leased (filled 253) = pool_range"
  by (auto simp: leased_def filled_def pool_range_def)

subsection \<open>Properties\<close>

text \<open>C27: \<open>allocate\<close> hands out an address of the pool that nobody holds, never the gateway's,
  marks exactly that address as held and keeps the allocator well formed; it fails only when
  all 253 addresses are held, and then changes nothing.\<close>

theorem allocate_spec:
  assumes "pool_inv s"
  shows "case allocate s of
      (Inr ip, s') \<Rightarrow> ip \<in> pool_range - leased s \<and> ip \<noteq> gateway_ip s \<and>
        leased s' = insert ip (leased s) \<and> pool_inv s'
    | (Inl e, s') \<Rightarrow> leased s = pool_range \<and> s' = s"
proof (cases "allocate s")
  case (Pair r s')
  show ?thesis
  proof (cases r)
    case (Inl e)
    then show ?thesis
      using Pair assms allocate_Inl [of s e s'] by simp
  next
    case (Inr ip)
    then have "allocate s = (Inr ip, s')"
      using Pair by simp
    then show ?thesis
      using allocate_leased [OF assms] allocate_inv [OF assms] gateway_not_in_pool [OF assms]
      by auto
  qed
qed

theorem allocate_spec_witness:
  "pool_inv IpAllocator_new \<and>
   (\<exists>s'. allocate IpAllocator_new = (Inr (V4 0xC0A86402), s') \<and>
     leased s' = {V4 0xC0A86402} \<and> pool_inv s')"
proof -
  have "allocate (filled 0) = (Inr (pool_ip 0), filled 1)"
    by (simp add: allocate_filled)
  then show ?thesis
    using allocate_spec [OF pool_inv_new] by (simp add: filled_0 pool_ip_def)
qed

text \<open>The search is round-robin: the address returned is the first free one at or after the
  hint, cyclically, and the hint moves just past it.\<close>

theorem allocate_round_robin:
  assumes "pool_inv s" and "allocate s = (Inr ip, s')"
  shows "\<exists>k<253. ip = pool_ip ((next_index s + k) mod 253) \<and>
    (\<forall>j<k. allocated s ! ((next_index s + j) mod 253)) \<and>
    next_index s' = Suc ((next_index s + k) mod 253) mod 253"
proof -
  obtain k where k: "free_offset s = Some k" "ip = pool_ip ((next_index s + k) mod 253)"
      "next_index s' = Suc ((next_index s + k) mod 253) mod 253"
    using allocate_Inr [OF assms] by (metis Suc_eq_plus1 ip_allocator.select_convs(4)
        ip_allocator.surjective ip_allocator.update_convs(3,4))
  then have "k < 253" "\<forall>j<k. allocated s ! ((next_index s + j) mod 253)"
    by (auto simp: free_offset_def find_upt_first)
  with k show ?thesis
    by blast
qed

theorem allocate_round_robin_witness:
  "pool_inv (filled 3) \<and> allocate (filled 3) = (Inr (pool_ip 3), filled 4) \<and>
   (\<exists>k<253. pool_ip 3 = pool_ip ((3 + k) mod 253))"
proof -
  have a: "allocate (filled 3) = (Inr (pool_ip 3), filled 4)"
    using allocate_filled [of 3] by simp
  have "next_index (filled 3) = 3"
    by (simp add: filled_def)
  then show ?thesis
    using allocate_round_robin [OF filled_inv a] a filled_inv [of 3] by auto
qed

text \<open>C28: \<open>release\<close> succeeds exactly on the addresses of the pool, frees that address and no
  other, and rejects the gateway, the broadcast address, other networks and IPv6 without
  changing the allocator.\<close>

theorem release_spec:
  assumes "pool_inv s" and "release ip s = (r, s')"
  shows "(is_ok r \<longleftrightarrow> ip \<in> pool_range) \<and> leased s' = leased s - {ip} \<and>
    pool_inv s' \<and> (\<not> is_ok r \<longrightarrow> s' = s)"
proof -
  have "s' = s" if "\<not> is_ok r"
    using release_outside [OF assms(1), of ip] release_leased(2) [OF assms] that assms(2)
    by (metis prod.inject)
  then show ?thesis
    using release_leased [OF assms] release_inv [OF assms] by blast
qed

theorem release_spec_witness:
  "pool_inv (filled 2) \<and> release (pool_ip 0) (filled 2) =
     (Inr (), (filled 2)\<lparr>allocated := (allocated (filled 2))[0 := False]\<rparr>) \<and>
   pool_ip 0 \<in> pool_range"
proof -
  have r: "release (pool_ip 0) (filled 2) =
      (Inr (), (filled 2)\<lparr>allocated := (allocated (filled 2))[0 := False]\<rparr>)"
    by (rule release_pool_ip) (simp_all add: filled_inv)
  then show ?thesis
    using release_spec [OF filled_inv r] filled_inv [of 2] by simp
qed

text \<open>On a new allocator exactly 253 allocations succeed, they return 192.168.100.2 to
  192.168.100.254 in order, and the next one fails.\<close>

theorem allocate_all:
  "allocate_times 253 IpAllocator_new = (map pool_ip [0..<253], filled 253) \<and>
   allocate (filled 253) = (Inl (anyhow ''No available IP addresses in the pool''), filled 253)"
proof
  show "allocate_times 253 IpAllocator_new = (map pool_ip [0..<253], filled 253)"
    using allocate_times_filled [of 0 253] by (simp add: filled_0)
  have "free_offset (filled 253) = None"
    using free_offset_None_iff filled_inv leased_filled by simp
  then show "allocate (filled 253) =
      (Inl (anyhow ''No available IP addresses in the pool''), filled 253)"
    using filled_inv by (simp add: allocate_eq)
qed

end
