(* ===== verification/GrpcService.thy ===== *)
theory GrpcService
  imports Tasks AgentClient VmRegistry NetworkDevices IpAllocator EventStore
begin

text \<open>
  \<^verbatim>\<open>clawpot-server/src/grpc/service.rs\<close>: the handlers of the control API, as tasks over the
  state they share: the IP allocator (behind its mutex), the VM registry (behind its lock),
  the event store and the history of outside calls. A method on one of the three is one
  atomic step; so is a group of outside calls between two of them.
\<close>

record server =
  sv_allocator :: ip_allocator
  sv_registry :: vm_registry
  sv_events :: event_store

type_synonym sv = "server \<times> sys_history"
type_synonym 'a task = "(sv, 'a) prog"

record service =
  svc_kernel_path :: string
  svc_rootfs_path :: string

datatype code = ResourceExhausted | Internal | InvalidArgument | NotFound | Unavailable | Unimplemented

datatype grpc_status = Status (st_code: code) (st_message: string)

subsection \<open>Steps on the shared state\<close>

definition outside :: "'a sys \<Rightarrow> 'a task" where
  "outside m = atomic (lift_io m)"

definition task_allocate :: "(anyhow + ip_addr) task" where
  "task_allocate = atomic (\<lambda>(s, h).
     case allocate (sv_allocator s) of (r, a) \<Rightarrow> (r, (s\<lparr>sv_allocator := a\<rparr>, h)))"

definition task_release :: "ip_addr \<Rightarrow> (anyhow + unit) task" where
  "task_release ip = atomic (\<lambda>(s, h).
     case release ip (sv_allocator s) of (r, a) \<Rightarrow> (r, (s\<lparr>sv_allocator := a\<rparr>, h)))"

definition task_insert :: "libs \<Rightarrow> vm_id \<Rightarrow> vm_entry \<Rightarrow> (anyhow + unit) task" where
  "task_insert X i entry = atomic (\<lambda>(s, h).
     case registry_insert X i entry (sv_registry s) of
       Inl e \<Rightarrow> (Inl e, (s, h))
     | Inr vms \<Rightarrow> (Inr (), (s\<lparr>sv_registry := vms\<rparr>, h)))"

definition task_remove :: "libs \<Rightarrow> vm_id \<Rightarrow> (anyhow + vm_entry) task" where
  "task_remove X i = atomic (\<lambda>(s, h).
     case registry_remove X i (sv_registry s) of
       Inl e \<Rightarrow> (Inl e, (s, h))
     | Inr (entry, vms) \<Rightarrow> (Inr entry, (s\<lparr>sv_registry := vms\<rparr>, h)))"

definition reads :: "(vm_registry \<Rightarrow> 'a) \<Rightarrow> 'a task" where
  "reads f = atomic (\<lambda>(s, h). (f (sv_registry s), (s, h)))"

definition on_events :: "(event_store \<Rightarrow> i64 \<times> event_store) \<Rightarrow> unit task" where
  "on_events f = atomic (\<lambda>(s, h). ((), (s\<lparr>sv_events := snd (f (sv_events s))\<rparr>, h)))"

text \<open>The \<^verbatim>\<open>clawpot_event!\<close> macro with a VM id, and the final event of an operation.\<close>

definition vm_event :: "libs \<Rightarrow> (i64 \<Rightarrow> string) \<Rightarrow> string \<Rightarrow> string \<Rightarrow> (string \<times> json) list \<Rightarrow> unit task" where
  "vm_event X clock event_type vm_id data =
     on_events (clawpot_event X clock event_type ''vm'' (Some vm_id) (JObject data))"

definition elapsed_ms :: "sys_host \<Rightarrow> i64 task" where
  "elapsed_ms host = outside (map_io (\<lambda>r. of_nat (reply_millis r)) (ask host ElapsedMs))"

definition finish_event ::
  "libs \<Rightarrow> sys_host \<Rightarrow> (i64 \<Rightarrow> string) \<Rightarrow> string \<Rightarrow> string \<Rightarrow> bool \<Rightarrow> (string \<times> json) list \<Rightarrow> unit task" where
  "finish_event X host clock event_type vm_id success data =
     bindP (elapsed_ms host) (\<lambda>duration_ms.
     on_events (emit_with_duration X clock event_type ''vm'' (Some vm_id) None duration_ms
       (Some success) (JObject data)))"

subsection \<open>create_vm\<close>

record create_vm_request =
  cr_vcpu_count :: "u32 option"
  cr_mem_size_mib :: "u32 option"

record create_vm_response =
  cp_vm_id :: string
  cp_ip_address :: string
  cp_socket_path :: string

abbreviation GUEST_CID :: u32 where
  "GUEST_CID \<equiv> 3"

text \<open>The names derived from a VM id. \<^verbatim>\<open>simple()\<close> prints 32 hexadecimal digits, so the slice
  \<^verbatim>\<open>[..11]\<close> is within bounds.\<close>

definition tap_name_of :: "libs \<Rightarrow> vm_id \<Rightarrow> string" where
  "tap_name_of X i = ''tap-'' @ take 11 (uuid_simple X i)"

definition vsock_path_of :: "libs \<Rightarrow> vm_id \<Rightarrow> string" where
  "vsock_path_of X i = ''/tmp/fc-'' @ uuid_simple X i @ ''-vsock.sock''"

definition socket_path_of :: "libs \<Rightarrow> vm_id \<Rightarrow> string" where
  "socket_path_of X i = ''/tmp/fc-'' @ uuid_simple X i @ ''.sock''"

text \<open>Lines 121 to 132: the configuration; \<^verbatim>\<open>as u8\<close> keeps the low 8 bits of the vCPU count.\<close>

definition vm_config_of :: "libs \<Rightarrow> service \<Rightarrow> create_vm_request \<Rightarrow> vm_id \<Rightarrow> ip_addr \<Rightarrow> vm_config" where
  "vm_config_of X svc req i ip =
     with_vsock GUEST_CID (vsock_path_of X i)
       (with_network (tap_name_of X i) (show_ip ip)
         (with_memory (unwrap_or 256 (cr_mem_size_mib req))
           (with_vcpus (ucast (unwrap_or 1 (cr_vcpu_count req)))
             (VmConfig_new (svc_kernel_path svc) (svc_rootfs_path svc)))))"

definition vm_failed :: "libs \<Rightarrow> (i64 \<Rightarrow> string) \<Rightarrow> string \<Rightarrow> anyhow \<Rightarrow> string \<Rightarrow> unit task" where
  "vm_failed X clock vm_id e step =
     vm_event X clock ''vm.create.failed'' vm_id
       [(''error'', JString (err_display e)), (''step'', JString step)]"

text \<open>Lines 155 to 211: wait for the agent, register the VM and answer. When the insertion
  fails the entry, and with it the manager, is dropped inside \<^verbatim>\<open>insert\<close>.\<close>

definition register_vm ::
  "libs \<Rightarrow> sys_host \<Rightarrow> (i64 \<Rightarrow> string) \<Rightarrow> create_vm_request \<Rightarrow> vm_id \<Rightarrow> ip_addr \<Rightarrow> vm_manager \<Rightarrow>
   (grpc_status + create_vm_response) task" where
  "register_vm X host clock req vm_id ip manager =
     (let vm_id_str = uuid_to_string X vm_id; socket = path_display (socket_path_of X vm_id) in
     bindP (outside (wait_ready host (vsock_path_of X vm_id) 30000)) (\<lambda>ready.
     bindP (case ready of
         Inr _ \<Rightarrow> bindP (elapsed_ms host) (\<lambda>wait.
           vm_event X clock ''vm.create.agent_ready'' vm_id_str [(''wait_ms'', jint (sint wait))])
       | Inl e \<Rightarrow> vm_event X clock ''vm.create.agent_timeout'' vm_id_str
           [(''error'', JString (err_display e))]) (\<lambda>_.
     bindP (outside (map_io reply_time (ask host SystemNow))) (\<lambda>created_at.
     bindP (task_insert X vm_id
        \<lparr>e_id = vm_id, e_manager = manager, e_ip_address = ip, e_tap_name = tap_name_of X vm_id,
         e_created_at = created_at, e_vcpu_count = ucast (unwrap_or 1 (cr_vcpu_count req)),
         e_mem_size_mib = unwrap_or 256 (cr_mem_size_mib req),
         e_vsock_uds_path = vsock_path_of X vm_id\<rparr>) (\<lambda>inserted.
     case inserted of
       Inl e \<Rightarrow>
         bindP (outside (\<lambda>h. case drop_manager host (manager, h) of (u, (_, h')) \<Rightarrow> (u, h'))) (\<lambda>_.
         bindP (vm_failed X clock vm_id_str e ''registry_insert'') (\<lambda>_.
         Done (Inl (Status Internal (''Failed to register VM: '' @ err_display e)))))
     | Inr _ \<Rightarrow>
         bindP (finish_event X host clock ''vm.create.completed'' vm_id_str True
           [(''ip_address'', JString (show_ip ip)), (''socket_path'', JString socket)]) (\<lambda>_.
         Done (Inr \<lparr>cp_vm_id = vm_id_str, cp_ip_address = show_ip ip, cp_socket_path = socket\<rparr>)))))))"

text \<open>Lines 137 to 153: start the machine; on failure undo the network set-up, give the address
  back and drop the manager.\<close>

definition boot_vm ::
  "libs \<Rightarrow> sys_host \<Rightarrow> (i64 \<Rightarrow> string) \<Rightarrow> service \<Rightarrow> create_vm_request \<Rightarrow> vm_id \<Rightarrow> ip_addr \<Rightarrow>
   (grpc_status + create_vm_response) task" where
  "boot_vm X host clock svc req vm_id ip =
     (let vm_id_str = uuid_to_string X vm_id in
     bindP (outside (\<lambda>h. case start X host (vm_config_of X svc req vm_id ip)
              (VmManager_new (socket_path_of X vm_id), h) of (r, (m, h')) \<Rightarrow> ((r, m), h'))) (\<lambda>(started, manager).
     case started of
       Inl e \<Rightarrow>
         bindP (outside (NetworkManager_delete_tap host (tap_name_of X vm_id) ip)) (\<lambda>_.
         bindP (task_release ip) (\<lambda>_.
         bindP (vm_failed X clock vm_id_str e ''firecracker_start'') (\<lambda>_.
         bindP (outside (\<lambda>h. case drop_manager host (manager, h) of (u, (_, h')) \<Rightarrow> (u, h'))) (\<lambda>_.
         Done (Inl (Status Internal (''Failed to start VM: '' @ err_display e)))))))
     | Inr _ \<Rightarrow>
         bindP (vm_event X clock ''vm.create.firecracker_started'' vm_id_str
           [(''socket_path'', JString (path_display (socket_path_of X vm_id))),
            (''vsock_uds_path'', JString (vsock_path_of X vm_id))]) (\<lambda>_.
         register_vm X host clock req vm_id ip manager)))"

definition create_vm ::
  "libs \<Rightarrow> sys_host \<Rightarrow> (i64 \<Rightarrow> string) \<Rightarrow> service \<Rightarrow> create_vm_request \<Rightarrow>
   (grpc_status + create_vm_response) task" where
  "create_vm X host clock svc req =
     bindP (outside (map_io reply_uuid (ask host NewUuid))) (\<lambda>vm_id.
     let vm_id_str = uuid_to_string X vm_id in
     bindP (vm_event X clock ''vm.create.started'' vm_id_str
       [(''vcpu_count'', jnat (unat (unwrap_or 1 (cr_vcpu_count req)))),
        (''mem_size_mib'', jnat (unat (unwrap_or 256 (cr_mem_size_mib req))))]) (\<lambda>_.
     bindP task_allocate (\<lambda>allocated.
     case allocated of
       Inl e \<Rightarrow>
         bindP (vm_failed X clock vm_id_str e ''ip_allocation'') (\<lambda>_.
         Done (Inl (Status ResourceExhausted (''No available IP addresses: '' @ err_display e))))
     | Inr ip \<Rightarrow>
         bindP (vm_event X clock ''vm.create.ip_allocated'' vm_id_str
           [(''ip_address'', JString (show_ip ip))]) (\<lambda>_.
         bindP (outside (NetworkManager_create_tap host (tap_name_of X vm_id) ip)) (\<lambda>tap.
         case tap of
           Inl e \<Rightarrow>
             bindP (task_release ip) (\<lambda>_.
             bindP (vm_failed X clock vm_id_str e ''tap_creation'') (\<lambda>_.
             Done (Inl (Status Internal (''Failed to create TAP device: '' @ err_display e)))))
         | Inr _ \<Rightarrow>
             bindP (vm_event X clock ''vm.create.tap_created'' vm_id_str
               [(''tap_name'', JString (tap_name_of X vm_id))]) (\<lambda>_.
             boot_vm X host clock svc req vm_id ip))))))"

subsection \<open>delete_vm\<close>

text \<open>The parse of a request's VM id, shared text of \<^verbatim>\<open>delete_vm\<close> and \<^verbatim>\<open>exec_vm\<close>.\<close>

definition parse_vm_id :: "libs \<Rightarrow> string \<Rightarrow> grpc_status + vm_id" where
  "parse_vm_id X s =
     (case uuid_parse X s of
        Inl e \<Rightarrow> Inl (Status InvalidArgument (''Invalid VM ID: '' @ e))
      | Inr i \<Rightarrow> Inr i)"

definition vm_not_found :: "anyhow \<Rightarrow> grpc_status" where
  "vm_not_found e = Status NotFound (''VM not found: '' @ err_display e)"

definition delete_vm ::
  "libs \<Rightarrow> sys_host \<Rightarrow> (i64 \<Rightarrow> string) \<Rightarrow> string \<Rightarrow> (grpc_status + bool) task" where
  "delete_vm X host clock req_vm_id =
     (case parse_vm_id X req_vm_id of
        Inl e \<Rightarrow> Done (Inl e)
      | Inr vm_id \<Rightarrow>
     let vm_id_str = uuid_to_string X vm_id in
     bindP (vm_event X clock ''vm.delete.started'' vm_id_str []) (\<lambda>_.
     bindP (task_remove X vm_id) (\<lambda>removed.
     case removed of
       Inl e \<Rightarrow> Done (Inl (vm_not_found e))
     | Inr entry \<Rightarrow>
         bindP (outside (\<lambda>h. case stop X host (e_manager entry, h) of (_, (m, h')) \<Rightarrow> (m, h'))) (\<lambda>manager.
         bindP (outside (NetworkManager_delete_tap host (e_tap_name entry) (e_ip_address entry))) (\<lambda>_.
         bindP (task_release (e_ip_address entry)) (\<lambda>_.
         bindP (outside (ask host (RemoveFile (e_vsock_uds_path entry)))) (\<lambda>_.
         bindP (finish_event X host clock ''vm.delete.completed'' vm_id_str True []) (\<lambda>_.
         bindP (outside (\<lambda>h. case drop_manager host (manager, h) of (u, (_, h')) \<Rightarrow> (u, h'))) (\<lambda>_.
         Done (Inr True))))))))))"

subsection \<open>list_v_ms and exec_vm\<close>

record vm_info =
  vi_vm_id :: string
  vi_state :: int
  vi_ip_address :: string
  vi_vcpu_count :: u32
  vi_mem_size_mib :: u32
  vi_created_at :: i64
  vi_socket_path :: string

text \<open>Whole seconds since the epoch of a time in nanoseconds; an earlier time counts as the
  epoch.\<close>

definition unix_secs :: "int \<Rightarrow> i64" where
  "unix_secs t = (if t < 0 then 0 else of_int (t div 1000000000))"

definition vm_info_of :: "libs \<Rightarrow> vm_row \<Rightarrow> vm_info" where
  "vm_info_of X = (\<lambda>(i, ip, _, vcpu, mem, created).
     \<lparr>vi_vm_id = uuid_to_string X i, vi_state = 2, vi_ip_address = show_ip ip,
      vi_vcpu_count = ucast vcpu, vi_mem_size_mib = mem, vi_created_at = unix_secs created,
      vi_socket_path = socket_path_of X i\<rparr>)"

definition list_v_ms :: "libs \<Rightarrow> (vm_registry \<Rightarrow> vm_id list) \<Rightarrow> (grpc_status + vm_info list) task" where
  "list_v_ms X order =
     bindP (reads (\<lambda>vms. registry_list (order vms) vms)) (\<lambda>vms_list.
     Done (Inr (map (vm_info_of X) vms_list)))"

record exec_vm_request =
  xr_vm_id :: string
  xr_command :: string
  xr_args :: "string list"
  xr_env :: "(string \<times> string) list"
  xr_working_dir :: string

definition exec_vm ::
  "libs \<Rightarrow> sys_host \<Rightarrow> (i64 \<Rightarrow> string) \<Rightarrow> exec_vm_request \<Rightarrow> (grpc_status + exec_response) task" where
  "exec_vm X host clock req =
     (case parse_vm_id X (xr_vm_id req) of
        Inl e \<Rightarrow> Done (Inl e)
      | Inr vm_id \<Rightarrow>
     bindP (reads (get_vsock_path X vm_id)) (\<lambda>found.
     case found of
       Inl e \<Rightarrow> Done (Inl (vm_not_found e))
     | Inr uds_path \<Rightarrow>
     bindP (outside (agent_connect host uds_path)) (\<lambda>connected.
     case connected of
       Inl e \<Rightarrow> Done (Inl (Status Unavailable (''Failed to connect to agent: '' @ err_display e)))
     | Inr _ \<Rightarrow>
     bindP (outside (agent_exec host \<lparr>ex_command = xr_command req, ex_args = xr_args req,
              ex_env = xr_env req, ex_working_dir = xr_working_dir req\<rparr>)) (\<lambda>executed.
     case executed of
       Inl e \<Rightarrow> Done (Inl (Status Internal (''Agent exec failed: '' @ err_display e)))
     | Inr resp \<Rightarrow>
     bindP (finish_event X host clock ''vm.exec'' (uuid_to_string X vm_id) (ex_exit_code resp = 0)
       [(''command'', JString (xr_command req)), (''args'', JArray (map JString (xr_args req))),
        (''exit_code'', jint (ex_exit_code resp)), (''stdout_len'', jnat (length (ex_stdout resp))),
        (''stderr_len'', jnat (length (ex_stderr resp)))]) (\<lambda>_.
     Done (Inr resp))))))"

definition exec_vm_stream :: "(grpc_status + unit) task" where
  "exec_vm_stream =
     Done (Inl (Status Unimplemented ''ExecVMStream not yet implemented. Use ExecVM for now.''))"

end
