(* ===== verification/CliCommands.thy ===== *)
theory CliCommands
  imports CliLogs GrpcService
begin

text \<open>
  \<^verbatim>\<open>clawpot-cli/src/main.rs\<close> and the commands create, delete, list and exec. The arguments come
  parsed (clap); the server is the record \<open>grpc_client\<close> of its answers, the table of \<open>list\<close> is
  drawn by the parameter \<open>table\<close> (tabled).
\<close>

record grpc_client =
  gc_create_vm :: "create_vm_request \<Rightarrow> grpc_status + create_vm_response"
  gc_delete_vm :: "string \<Rightarrow> grpc_status + bool"
  gc_list_v_ms :: "grpc_status + vm_info list"
  gc_exec_vm :: "exec_vm_request \<Rightarrow> grpc_status + exec_response"

text \<open>How a command ends: \<^verbatim>\<open>main\<close> returns, or \<^verbatim>\<open>process::exit\<close>; and what it wrote to standard
  output and standard error.\<close>

datatype cli_end = Returned "anyhow + unit" | Exited int

type_synonym cli_run = "cli_end \<times> bytes \<times> bytes"

definition check_mark :: string where
  "check_mark = [CHR 0xE2, CHR 0x9C, CHR 0x93]"

definition cross_mark :: string where
  "cross_mark = [CHR 0xE2, CHR 0x9C, CHR 0x97]"

definition println :: "string list \<Rightarrow> bytes" where
  "println ls = bytes_of (concat (map (\<lambda>l. l @ [CHR 0x0A]) ls))"

definition cli_create :: "(grpc_status \<Rightarrow> string) \<Rightarrow> grpc_client \<Rightarrow> u32 option \<Rightarrow> u32 option \<Rightarrow> cli_run" where
  "cli_create status_text client vcpus memory =
     (let request = \<lparr>cr_vcpu_count = vcpus, cr_mem_size_mib = memory\<rparr> in
      case gc_create_vm client request of
        Inl e \<Rightarrow> (Returned (Inl (anyhow (status_text e))), println [''Creating VM...''], [])
      | Inr vm_info \<Rightarrow>
          (Returned (Inr ()),
           println [''Creating VM...'', [CHR 0x0A] @ check_mark @ '' VM created successfully!'',
             ''  VM ID:      '' @ cp_vm_id vm_info, ''  IP Address: '' @ cp_ip_address vm_info,
             ''  Socket:     '' @ cp_socket_path vm_info], []))"

definition cli_delete :: "(grpc_status \<Rightarrow> string) \<Rightarrow> grpc_client \<Rightarrow> string \<Rightarrow> cli_run" where
  "cli_delete status_text client vm_id =
     (let first = ''Deleting VM '' @ vm_id @ ''...'' in
      case gc_delete_vm client vm_id of
        Inl e \<Rightarrow> (Returned (Inl (anyhow (status_text e))), println [first], [])
      | Inr success \<Rightarrow>
          (Returned (Inr ()),
           println [first, if success then [CHR 0x0A] @ check_mark @ '' VM deleted successfully!''
             else [CHR 0x0A] @ cross_mark @ '' Failed to delete VM''], []))"

record table_row =
  tr_vm_id :: string
  tr_state :: string
  tr_ip_address :: string
  tr_vcpus :: u32
  tr_memory :: u32

definition state_str :: "int \<Rightarrow> string" where
  "state_str s =
     (if s = 0 then ''Unspecified'' else if s = 1 then ''Starting'' else if s = 2 then ''Running''
      else if s = 3 then ''Stopping'' else if s = 4 then ''Stopped'' else if s = 5 then ''Error''
      else ''Unknown'')"

definition table_row_of :: "vm_info \<Rightarrow> table_row" where
  "table_row_of vm =
     \<lparr>tr_vm_id = vi_vm_id vm, tr_state = state_str (vi_state vm), tr_ip_address = vi_ip_address vm,
      tr_vcpus = vi_vcpu_count vm, tr_memory = vi_mem_size_mib vm\<rparr>"

definition cli_list :: "(grpc_status \<Rightarrow> string) \<Rightarrow> (table_row list \<Rightarrow> string) \<Rightarrow> grpc_client \<Rightarrow> cli_run" where
  "cli_list status_text table client =
     (case gc_list_v_ms client of
        Inl e \<Rightarrow> (Returned (Inl (anyhow (status_text e))), [], [])
      | Inr vms \<Rightarrow>
          if vms = [] then (Returned (Inr ()), println [''No VMs running''], [])
          else
            let rows = map table_row_of vms
            in (Returned (Inr ()),
                println [table rows, [CHR 0x0A] @ ''Total: '' @ show_nat (length rows) @ '' VM(s)''], []))"

text \<open>\<open>out_ok\<close> and \<open>err_ok\<close>: whether the two writes succeed, or fail after the first \<open>n\<close> bytes.\<close>

definition cli_exec ::
  "(grpc_status \<Rightarrow> string) \<Rightarrow> (nat \<times> io_error) + unit \<Rightarrow> (nat \<times> io_error) + unit \<Rightarrow> grpc_client \<Rightarrow> string \<Rightarrow>
   string list \<Rightarrow> cli_run" where
  "cli_exec status_text out_ok err_ok client vm_id command =
     (case command of
        [] \<Rightarrow> (Returned (Inl (anyhow ''No command specified'')), [], [])
      | cmd # args \<Rightarrow>
          let request = \<lparr>xr_vm_id = vm_id, xr_command = cmd, xr_args = args, xr_env = [], xr_working_dir = []\<rparr> in
          case gc_exec_vm client request of
            Inl e \<Rightarrow> (Returned (Inl (anyhow (status_text e))), [], [])
          | Inr response \<Rightarrow>
              (case out_ok of
                 Inl (n, e) \<Rightarrow> (Returned (Inl (anyhow_of_io e)), take n (ex_stdout response), [])
               | Inr _ \<Rightarrow>
                   (case err_ok of
                      Inl (n, e) \<Rightarrow> (Returned (Inl (anyhow_of_io e)), ex_stdout response, take n (ex_stderr response))
                    | Inr _ \<Rightarrow> (Exited (ex_exit_code response), ex_stdout response, ex_stderr response))))"

subsection \<open>Dispatch\<close>

datatype logs_action =
    Sessions "string option"
  | Show "string option" event_filters
  | Export "string option" "string option" string
  | Timeline "string option" "string option" "string option"

datatype commands =
    Create "u32 option" "u32 option"
  | Delete string
  | List
  | ExecCmd string "string list"
  | Logs logs_action

record cli_env =
  ce_clawpot_root :: "string option"
  ce_db :: cli_db
  ce_pretty :: "json \<Rightarrow> string + string"
  ce_ser :: "json \<Rightarrow> string + string"
  ce_status_text :: "grpc_status \<Rightarrow> string"
  ce_table :: "table_row list \<Rightarrow> string"
  ce_stdout :: "(nat \<times> io_error) + unit"
  ce_stderr :: "(nat \<times> io_error) + unit"
  ce_connect :: "string \<Rightarrow> string + grpc_client"

definition lines_run :: "cli_result \<Rightarrow> cli_run outcome" where
  "lines_run = (\<lambda>(r, ls). Ret (Returned r, println ls, []))"

definition run_logs :: "libs \<Rightarrow> cli_env \<Rightarrow> logs_action \<Rightarrow> cli_run outcome" where
  "run_logs X E action =
     (case action of
        Sessions db \<Rightarrow> lines_run (execute_sessions (ce_clawpot_root E) (ce_db E) db)
      | Show db f \<Rightarrow> lines_run (execute_show X (ce_clawpot_root E) (ce_db E) db f)
      | Export db session format \<Rightarrow>
          lines_run (execute_export X (ce_pretty E) (ce_ser E) (ce_clawpot_root E) (ce_db E) db session format)
      | Timeline db session vm \<Rightarrow>
          (case execute_timeline X (ce_clawpot_root E) (ce_db E) db session vm of
             (r, ls) \<Rightarrow> bind_outcome r (\<lambda>r. Ret (Returned r, println ls, []))))"

text \<open>The log commands run without a connection to the server.\<close>

definition cli_main :: "libs \<Rightarrow> cli_env \<Rightarrow> string \<Rightarrow> commands \<Rightarrow> cli_run outcome" where
  "cli_main X E server command =
     (case command of
        Logs action \<Rightarrow> run_logs X E action
      | _ \<Rightarrow>
          (case ce_connect E server of
             Inl e \<Rightarrow> Ret (Returned (Inl (anyhow e)), [], [])
           | Inr client \<Rightarrow>
               Ret (case command of
                      Create vcpus memory \<Rightarrow> cli_create (ce_status_text E) client vcpus memory
                    | Delete vm_id \<Rightarrow> cli_delete (ce_status_text E) client vm_id
                    | List \<Rightarrow> cli_list (ce_status_text E) (ce_table E) client
                    | ExecCmd vm_id argv \<Rightarrow>
                        cli_exec (ce_status_text E) (ce_stdout E) (ce_stderr E) client vm_id argv)))"

end
