(* ===== verification/AgentExec.thy ===== *)
theory AgentExec
  imports HostCalls "HOL-Library.Sublist"
begin

text \<open>
  \<^verbatim>\<open>clawpot-agent\<close>: the agent inside the guest. \<open>run_command\<close> (exec.rs) runs a command to its
  end; \<open>run_stream\<close> (stream.rs) runs it with its output streamed, by three tasks (standard
  input, output, error) beside the main one, all sending into one channel. The four run
  concurrently: \<open>stream_step\<close> interleaves their steps in every order.
\<close>

subsection \<open>exec.rs\<close>

text \<open>The command handed to the operating system.\<close>

record os_command =
  oc_program :: string
  oc_args :: "string list"
  oc_current_dir :: "string option"
  oc_envs :: "(string \<times> string) list"

definition command_of :: "exec_request \<Rightarrow> os_command" where
  "command_of req =
     \<lparr>oc_program = ex_command req, oc_args = ex_args req,
      oc_current_dir = (if ex_working_dir req \<noteq> [] then Some (ex_working_dir req) else None),
      oc_envs = ex_env req\<rparr>"

text \<open>What running the command to its end gives: a status (the code is missing when a signal
  killed it) with the output, a failure to run it, or the expiry of the timeout.\<close>

datatype command_end = Output "int option" bytes bytes | Failed io_error | TimedOut

abbreviation EXEC_TIMEOUT_SECS :: nat where
  "EXEC_TIMEOUT_SECS \<equiv> 300"

definition run_command :: "(os_command \<Rightarrow> command_end) \<Rightarrow> exec_request \<Rightarrow> anyhow + exec_response" where
  "run_command os req =
     (case os (command_of req) of
        Output code out err \<Rightarrow>
          Inr \<lparr>ex_exit_code = unwrap_or (- 1) code, ex_stdout = out, ex_stderr = err\<rparr>
      | Failed e \<Rightarrow>
          Inr \<lparr>ex_exit_code = - 1, ex_stdout = [],
            ex_stderr = bytes_of (''Failed to execute command: '' @ io_message e @ [CHR 0x0A])\<rparr>
      | TimedOut \<Rightarrow>
          Inr \<lparr>ex_exit_code = - 1, ex_stdout = [],
            ex_stderr = bytes_of (''Command timed out after '' @ show_nat EXEC_TIMEOUT_SECS @ '' seconds'' @ [CHR 0x0A])\<rparr>)"

subsection \<open>stream.rs\<close>

datatype stream_input = Start exec_request | StdinData bytes | CloseStdin bool | NoInput

datatype stream_output = StdoutData bytes | StderrData bytes | ExitCode int

datatype stream_error = InvalidArgumentStatus string | InternalStatus string | Forwarded string

datatype stream_message = Message stream_output | ErrorStatus stream_error

abbreviation CHUNK_SIZE :: nat where
  "CHUNK_SIZE \<equiv> 4096"

text \<open>Lines 15 to 63: the first message must be a start command, then the process is spawned. A
  failure ends the run with at most one message; otherwise the tasks start.\<close>

datatype stream_begin = Ended "stream_message list" | Spawned

definition stream_start ::
  "(string + stream_input option) \<Rightarrow> (os_command \<Rightarrow> io_error + unit) \<Rightarrow> stream_begin" where
  "stream_start first spawn =
     (case first of
        Inl e \<Rightarrow> Ended [ErrorStatus (Forwarded e)]
      | Inr None \<Rightarrow> Ended []
      | Inr (Some (Start req)) \<Rightarrow>
          (case spawn (command_of req) of
             Inl e \<Rightarrow> Ended [ErrorStatus (InternalStatus (''Failed to spawn process: '' @ io_message e))]
           | Inr _ \<Rightarrow> Spawned)
      | Inr (Some _) \<Rightarrow> Ended [ErrorStatus (InvalidArgumentStatus ''First message must be a start command'')])"

text \<open>
  The state of a spawned run: which of the forwarding tasks still run, where the main task is,
  what the channel has taken, whether its receiver is alive. Ghost fields record what the two
  readers read and what the client sent for standard input and the process got.
\<close>

datatype main_at = AwaitStdout | AwaitStderr | AwaitExit | SendExit int | Returned

record stream_run =
  sr_stdin :: bool
  sr_stdout :: bool
  sr_stderr :: bool
  sr_main :: main_at
  sr_sent :: "stream_output list"
  sr_rx_open :: bool
  sr_read_out :: bytes
  sr_read_err :: bytes
  sr_input :: bytes
  sr_fed :: bytes

definition stream_new :: stream_run where
  "stream_new =
     \<lparr>sr_stdin = True, sr_stdout = True, sr_stderr = True, sr_main = AwaitStdout, sr_sent = [],
      sr_rx_open = True, sr_read_out = [], sr_read_err = [], sr_input = [], sr_fed = []\<rparr>"

text \<open>One turn of the reader loops: data of at most a chunk, or (end of file, error) the end. A send
  to a dropped receiver ends the reader.\<close>

definition stdout_turn :: "bytes option \<Rightarrow> stream_run \<Rightarrow> stream_run" where
  "stdout_turn r s =
     (case r of
        Some data \<Rightarrow>
          if sr_rx_open s then
            s\<lparr>sr_sent := sr_sent s @ [StdoutData data], sr_read_out := sr_read_out s @ data\<rparr>
          else s\<lparr>sr_read_out := sr_read_out s @ data, sr_stdout := False\<rparr>
      | None \<Rightarrow> s\<lparr>sr_stdout := False\<rparr>)"

definition stderr_turn :: "bytes option \<Rightarrow> stream_run \<Rightarrow> stream_run" where
  "stderr_turn r s =
     (case r of
        Some data \<Rightarrow>
          if sr_rx_open s then
            s\<lparr>sr_sent := sr_sent s @ [StderrData data], sr_read_err := sr_read_err s @ data\<rparr>
          else s\<lparr>sr_read_err := sr_read_err s @ data, sr_stderr := False\<rparr>
      | None \<Rightarrow> s\<lparr>sr_stderr := False\<rparr>)"

text \<open>One turn of the stdin forwarder on the next message of the client (\<open>None\<close>: the stream ended
  or failed). The process takes all the bytes, or the write fails after the first \<open>n\<close> of them
  (\<open>failed = Some n\<close>), which ends the forwarder.\<close>

definition stdin_turn :: "stream_input option \<Rightarrow> nat option \<Rightarrow> stream_run \<Rightarrow> stream_run" where
  "stdin_turn msg failed s =
     (case msg of
        Some (StdinData data) \<Rightarrow>
          (case failed of
             None \<Rightarrow> s\<lparr>sr_input := sr_input s @ data, sr_fed := sr_fed s @ data\<rparr>
           | Some n \<Rightarrow> s\<lparr>sr_input := sr_input s @ data, sr_fed := sr_fed s @ take n data, sr_stdin := False\<rparr>)
      | _ \<Rightarrow> s\<lparr>sr_stdin := False\<rparr>)"

text \<open>One step of the main task; \<open>code\<close> is what waiting for the process gives. After the wait the
  stdin forwarder is aborted.\<close>

definition main_turn :: "int option \<Rightarrow> stream_run \<Rightarrow> stream_run" where
  "main_turn code s =
     (case sr_main s of
        AwaitStdout \<Rightarrow> if sr_stdout s then s else s\<lparr>sr_main := AwaitStderr\<rparr>
      | AwaitStderr \<Rightarrow> if sr_stderr s then s else s\<lparr>sr_main := AwaitExit\<rparr>
      | AwaitExit \<Rightarrow> s\<lparr>sr_main := SendExit (unwrap_or (- 1) code), sr_stdin := False\<rparr>
      | SendExit c \<Rightarrow>
          s\<lparr>sr_main := Returned, sr_sent := sr_sent s @ (if sr_rx_open s then [ExitCode c] else [])\<rparr>
      | Returned \<Rightarrow> s)"

inductive stream_step :: "stream_run \<Rightarrow> stream_run \<Rightarrow> bool" where
  stdout: "sr_stdout s \<Longrightarrow> (\<forall>data. r = Some data \<longrightarrow> 0 < length data \<and> length data \<le> CHUNK_SIZE) \<Longrightarrow>
    stream_step s (stdout_turn r s)"
| stderr: "sr_stderr s \<Longrightarrow> (\<forall>data. r = Some data \<longrightarrow> 0 < length data \<and> length data \<le> CHUNK_SIZE) \<Longrightarrow>
    stream_step s (stderr_turn r s)"
| stdin: "sr_stdin s \<Longrightarrow> stream_step s (stdin_turn msg failed s)"
| main: "stream_step s (main_turn code s)"
| hang_up: "stream_step s (s\<lparr>sr_rx_open := False\<rparr>)"

inductive_cases stream_stepE: "stream_step s t"

abbreviation stream_reachable :: "stream_run \<Rightarrow> bool" where
  "stream_reachable \<equiv> stream_step\<^sup>*\<^sup>* stream_new"

subsection \<open>service.rs and main.rs\<close>

record health_response =
  hl_version :: string
  hl_uptime_secs :: nat

definition service_exec :: "(os_command \<Rightarrow> command_end) \<Rightarrow> exec_request \<Rightarrow> stream_error + exec_response" where
  "service_exec os req =
     (case run_command os req of
        Inl e \<Rightarrow> Inl (InternalStatus (''Execution failed: '' @ err_display e))
      | Inr response \<Rightarrow> Inr response)"

definition service_health :: "string \<Rightarrow> nat \<Rightarrow> nat \<Rightarrow> health_response" where
  "service_health version started_at now = \<lparr>hl_version = version, hl_uptime_secs = now - started_at\<rparr>"

text \<open>The transport: vsock, or TCP where binding vsock fails. \<open>serve\<close> is the gRPC server of the
  library on a transport.\<close>

datatype agent_listener = VsockListener u32 | TcpListenerOn string

definition agent_main :: "string + unit \<Rightarrow> (agent_listener \<Rightarrow> string + unit) \<Rightarrow> agent_listener \<times> (anyhow + unit)" where
  "agent_main vsock_bind serve =
     (let listener = (case vsock_bind of Inr _ \<Rightarrow> VsockListener 10051 | Inl e \<Rightarrow> TcpListenerOn ''0.0.0.0:10051'')
      in (listener, case serve listener of Inl e \<Rightarrow> Inl (anyhow e) | Inr _ \<Rightarrow> Inr ()))"

subsection \<open>The client gets the output in order, then the exit code\<close>

definition stdout_of :: "stream_output list \<Rightarrow> bytes" where
  "stdout_of ms = concat (map (\<lambda>m. case m of StdoutData d \<Rightarrow> d | _ \<Rightarrow> []) ms)"

definition stderr_of :: "stream_output list \<Rightarrow> bytes" where
  "stderr_of ms = concat (map (\<lambda>m. case m of StderrData d \<Rightarrow> d | _ \<Rightarrow> []) ms)"

definition is_exit :: "stream_output \<Rightarrow> bool" where
  "is_exit m = (case m of ExitCode _ \<Rightarrow> True | _ \<Rightarrow> False)"

definition stream_inv :: "stream_run \<Rightarrow> bool" where
  "stream_inv s \<longleftrightarrow>
     prefix (stdout_of (sr_sent s)) (sr_read_out s) \<and> prefix (stderr_of (sr_sent s)) (sr_read_err s) \<and>
     (sr_rx_open s \<longrightarrow> stdout_of (sr_sent s) = sr_read_out s \<and> stderr_of (sr_sent s) = sr_read_err s) \<and>
     prefix (sr_fed s) (sr_input s) \<and> (sr_stdin s \<longrightarrow> sr_fed s = sr_input s) \<and>
     (sr_main s \<noteq> AwaitStdout \<longrightarrow> \<not> sr_stdout s) \<and>
     (sr_main s \<notin> {AwaitStdout, AwaitStderr} \<longrightarrow> \<not> sr_stderr s) \<and>
     (if sr_main s = Returned then \<forall>m \<in> set (butlast (sr_sent s)). \<not> is_exit m
      else \<forall>m \<in> set (sr_sent s). \<not> is_exit m) \<and>
     (sr_main s = Returned \<and> sr_rx_open s \<longrightarrow> sr_sent s \<noteq> [] \<and> is_exit (last (sr_sent s))) \<and>
     (\<forall>m \<in> set (sr_sent s). case m of StdoutData d \<Rightarrow> 0 < length d \<and> length d \<le> CHUNK_SIZE
        | StderrData d \<Rightarrow> 0 < length d \<and> length d \<le> CHUNK_SIZE | ExitCode _ \<Rightarrow> True)"

lemma out_of_append [simp]:
  "stdout_of (ms @ ns) = stdout_of ms @ stdout_of ns" "stderr_of (ms @ ns) = stderr_of ms @ stderr_of ns"
  by (simp_all add: stdout_of_def stderr_of_def)

lemma out_of_single [simp]:
  "stdout_of [StdoutData d] = d" "stdout_of [StderrData d] = []" "stdout_of [ExitCode c] = []"
  "stderr_of [StdoutData d] = []" "stderr_of [StderrData d] = d" "stderr_of [ExitCode c] = []"
  "stdout_of [] = []" "stderr_of [] = []"
  by (simp_all add: stdout_of_def stderr_of_def)

lemma is_exit_simps [simp]: "\<not> is_exit (StdoutData d)" "\<not> is_exit (StderrData d)" "is_exit (ExitCode c)"
  by (simp_all add: is_exit_def)

lemma stream_inv_new: "stream_inv stream_new"
  by (simp add: stream_inv_def stream_new_def)

lemma stream_inv_step:
  assumes "stream_inv s" and "stream_step s t"
  shows "stream_inv t"
  using assms(2)
proof (cases rule: stream_step.cases)
  case (stdout r)
  with assms(1) show ?thesis
    by (cases r) (auto simp: stream_inv_def stdout_turn_def)
next
  case (stderr r)
  with assms(1) show ?thesis
    by (cases r) (auto simp: stream_inv_def stderr_turn_def)
next
  case (stdin msg failed)
  with assms(1) show ?thesis
    by (auto simp: stream_inv_def stdin_turn_def take_is_prefix split: option.splits stream_input.splits)
next
  case (main code)
  with assms(1) show ?thesis
    by (cases "sr_main s") (auto simp: stream_inv_def main_turn_def dest: in_set_butlastD)
next
  case hang_up
  with assms(1) show ?thesis
    by (auto simp: stream_inv_def)
qed

lemma stream_reachable_inv: "stream_reachable s \<Longrightarrow> stream_inv s"
  by (induction rule: rtranclp_induct) (auto intro: stream_inv_new stream_inv_step)

text \<open>C18: In every interleaving of the agent's tasks, what the client receives of standard output
  and standard error is, each for itself, a prefix of what the agent read, in order, and all of it
  as long as the client listens. The exit code comes at most once and nothing comes after it, and
  when the run has ended with the client still listening it is there. The bytes fed to the process
  are a prefix of those the client sent.\<close>

theorem stream_faithful:
  assumes "stream_reachable s"
  shows "prefix (stdout_of (sr_sent s)) (sr_read_out s) \<and> prefix (stderr_of (sr_sent s)) (sr_read_err s) \<and>
    (sr_rx_open s \<longrightarrow> stdout_of (sr_sent s) = sr_read_out s \<and> stderr_of (sr_sent s) = sr_read_err s) \<and>
    (\<forall>m \<in> set (butlast (sr_sent s)). \<not> is_exit m) \<and>
    (sr_main s = Returned \<and> sr_rx_open s \<longrightarrow> sr_sent s \<noteq> [] \<and> is_exit (last (sr_sent s))) \<and>
    prefix (sr_fed s) (sr_input s)"
  using stream_reachable_inv [OF assms]
  by (auto simp: stream_inv_def split: if_splits dest: in_set_butlastD)

text \<open>A run: two chunks of output, both readers end, the process exits with code 0.\<close>

definition sample_run :: stream_run where
  "sample_run =
     main_turn None (main_turn (Some 0) (main_turn None (stderr_turn None (main_turn None (stdout_turn None
       (stdout_turn (Some [3]) (stdout_turn (Some [1, 2]) stream_new)))))))"

theorem stream_faithful_witness:
  "sr_rx_open sample_run \<and> sr_sent sample_run = [StdoutData [1, 2], StdoutData [3], ExitCode 0] \<and>
   stdout_of (sr_sent sample_run) = sr_read_out sample_run"
proof -
  note turns = sample_run_def stream_new_def stdout_turn_def stderr_turn_def main_turn_def
  have step: "stream_reachable (f s)" if "stream_reachable s" "stream_step s (f s)" for f s
    using that by (rule rtranclp.rtrancl_into_rtrancl)
  have "stream_reachable sample_run"
    unfolding sample_run_def
    by (intro step [of _ "stdout_turn _"] step [of _ "stderr_turn _"] step [of _ "main_turn _"]
        rtranclp.rtrancl_refl stream_step.intros) (simp_all add: turns)
  then show ?thesis
    using stream_faithful [of sample_run] by (simp add: turns)
qed

end
