(* ===== verification/ServerMain.thy ===== *)
theory ServerMain
  imports GrpcService
begin

text \<open>
  \<^verbatim>\<open>clawpot-server/src/main.rs\<close>: the clean-up of the graceful shutdown, as one more task that
  runs beside the handlers still in flight, and the system of all of them.
\<close>

definition server_log :: "libs \<Rightarrow> (i64 \<Rightarrow> string) \<Rightarrow> string option \<Rightarrow> string \<Rightarrow> unit task" where
  "server_log X clock vm_id message = on_events (clawpot_log X clock ''server'' vm_id message)"

text \<open>Lines 294 to 327: the clean-up of one listed VM. The manager of the removed entry is
  dropped at the end of the arm.\<close>

definition cleanup_vm :: "libs \<Rightarrow> sys_host \<Rightarrow> (i64 \<Rightarrow> string) \<Rightarrow> vm_row \<Rightarrow> unit task" where
  "cleanup_vm X host clock = (\<lambda>(vm_id, ip_address, tap_name, _).
     bindP (server_log X clock (Some (uuid_to_string X vm_id)) ''Cleaning up VM'') (\<lambda>_.
     bindP (task_remove X vm_id) (\<lambda>removed.
     case removed of
       Inl _ \<Rightarrow> Done ()
     | Inr entry \<Rightarrow>
         bindP (outside (\<lambda>h. case stop X host (e_manager entry, h) of (_, (m, h')) \<Rightarrow> (m, h'))) (\<lambda>manager.
         bindP (outside (NetworkManager_delete_tap host tap_name ip_address)) (\<lambda>_.
         bindP (task_release ip_address) (\<lambda>_.
         bindP (server_log X clock (Some (uuid_to_string X vm_id)) ''VM cleaned up successfully'') (\<lambda>_.
         outside (\<lambda>h. case drop_manager host (manager, h) of (u, (_, h')) \<Rightarrow> (u, h')))))))))"

fun cleanup_all :: "libs \<Rightarrow> sys_host \<Rightarrow> (i64 \<Rightarrow> string) \<Rightarrow> vm_row list \<Rightarrow> unit task" where
  "cleanup_all X host clock [] = Done ()"
| "cleanup_all X host clock (row # rows) =
     bindP (cleanup_vm X host clock row) (\<lambda>_. cleanup_all X host clock rows)"

text \<open>Lines 283 to 338: every VM in the registry is cleaned up, then the proxies are stopped and
  their rules removed.\<close>

definition cleanup_server :: "libs \<Rightarrow> sys_host \<Rightarrow> (i64 \<Rightarrow> string) \<Rightarrow> (vm_registry \<Rightarrow> vm_id list) \<Rightarrow> unit task" where
  "cleanup_server X host clock order =
     bindP (server_log X clock None ''Cleaning up all VMs...'') (\<lambda>_.
     bindP (reads (\<lambda>vms. registry_list (order vms) vms)) (\<lambda>vms_list.
     bindP (server_log X clock None (''Found '' @ show_nat (length vms_list) @ '' VMs to clean up'')) (\<lambda>_.
     bindP (cleanup_all X host clock vms_list) (\<lambda>_.
     bindP (server_log X clock None ''Stopping proxy infrastructure...'') (\<lambda>_.
     bindP (outside (map_io (\<lambda>_. ()) (ask host CancelProxies))) (\<lambda>_.
     bindP (outside (remove_proxy_rules host bridge_name)) (\<lambda>_.
     server_log X clock None ''All VMs cleaned up. Server shutting down.'')))))))"

text \<open>What the wait for a signal ends with: Ctrl+C, or a failure to listen for it, or SIGTERM.\<close>

datatype shutdown_wake = CtrlC "io_error + unit" | SigTerm

text \<open>The task that ends the server when it returns. \<open>registered\<close> is the result of installing the
  handler of SIGTERM; a failure is a panic. A failure to listen for Ctrl+C ends the server without
  any clean-up.\<close>

definition shutdown_signal ::
  "libs \<Rightarrow> sys_host \<Rightarrow> (i64 \<Rightarrow> string) \<Rightarrow> (vm_registry \<Rightarrow> vm_id list) \<Rightarrow> io_error + unit \<Rightarrow> shutdown_wake \<Rightarrow>
   unit outcome task" where
  "shutdown_signal X host clock order registered wake =
     (case registered of
        Inl _ \<Rightarrow> Done Panic
      | Inr _ \<Rightarrow>
          (case wake of
             CtrlC (Inl _) \<Rightarrow> Done (Ret ())
           | CtrlC (Inr _) \<Rightarrow>
               bindP (server_log X clock None ''Received SIGINT, initiating graceful shutdown...'') (\<lambda>_.
               bindP (cleanup_server X host clock order) (\<lambda>_. Done (Ret ())))
           | SigTerm \<Rightarrow>
               bindP (server_log X clock None ''Received SIGTERM, initiating graceful shutdown...'') (\<lambda>_.
               bindP (cleanup_server X host clock order) (\<lambda>_. Done (Ret ())))))"

end
