(* ===== verification/ServerConcurrency.thy ===== *)
theory ServerConcurrency
  imports ServerMain
begin

text \<open>
  The server under concurrency: any number of requests and a shutdown, interleaved at every
  step and dropped at any point. The tokens of a task are the address it holds and the VM id
  it may still register; what only grows is which address an id was registered with.
\<close>

subsection \<open>Operations that only append to the history\<close>

definition appends :: "'a sys \<Rightarrow> bool" where
  "appends m \<longleftrightarrow> (\<forall>h. \<exists>k. snd (m h) = h @ k)"

lemma appends_only: "only m S \<Longrightarrow> appends m"
  by (auto simp: only_def traces_def appends_def)

lemma appends_sonly:
  assumes "sonly m S"
  shows "appends (\<lambda>h. case m (s, h) of (x, (s', h')) \<Rightarrow> (f x s', h'))"
  unfolding appends_def
proof
  fix h
  show "\<exists>k. snd (case m (s, h) of (x, (s', h')) \<Rightarrow> (f x s', h')) = h @ k"
    using straces_case [OF sonlyD [OF assms], where s = s and h = h] by (auto split: prod.splits)
qed

text \<open>None of them draws a VM id; only the step of \<^verbatim>\<open>create_vm\<close> that is meant to does.\<close>

abbreviation no_draw :: "sys_call set" where
  "no_draw \<equiv> - {NewUuid}"

text \<open>Nor does any of them remove a rule of the bridge; only the shutdown does.\<close>

definition filter_safe :: "sys_call set" where
  "filter_safe = {c. \<forall>(t, ch, r) \<in> set (bridge_rules bridge_name). c \<noteq> IptDelete t ch r}"

definition quiet_calls :: "sys_call set" where
  "quiet_calls = no_draw \<inter> filter_safe"

lemma quiet_subset: "quiet_calls \<subseteq> no_draw" "quiet_calls \<subseteq> filter_safe"
  by (auto simp: quiet_calls_def)

text \<open>The rule of a TAP device has an exclamation mark, the rules of the bridge have none.\<close>

lemma source_ip_rule_safe: "IptDelete ''filter'' ''FORWARD'' (source_ip_rule tap ip) \<in> filter_safe"
proof -
  have "CHR ''!'' \<in> set (source_ip_rule tap ip)"
    by (simp add: source_ip_rule_def)
  moreover have "CHR ''!'' \<notin> set (drop_rule bridge_name)"
    by (simp add: drop_rule_def bridge_name_def)
  ultimately have "source_ip_rule tap ip \<noteq> drop_rule bridge_name"
    by metis
  then show ?thesis
    by (auto simp: filter_safe_def bridge_rules_def proxy_redirect_rules_def egress_filter_rules_def)
qed

lemma quiet_calls_delete [simp]: "IptDelete ''filter'' ''FORWARD'' (source_ip_rule tap ip) \<in> quiet_calls"
  using source_ip_rule_safe by (simp add: quiet_calls_def)

lemma quiet_callsI: "c \<noteq> NewUuid \<Longrightarrow> (\<And>t ch r. c \<noteq> IptDelete t ch r) \<Longrightarrow> c \<in> quiet_calls"
  by (auto simp: quiet_calls_def filter_safe_def)

lemma quiet_agent: "only (agent_connect host p) quiet_calls" "only (agent_probe host p) quiet_calls"
  unfolding agent_probe_def agent_connect_def vsock_connector_def
  by (intro only_intros quiet_callsI; simp)+

lemma quiet_wait_ready: "only (wait_ready_loop host p t n) quiet_calls"
proof (induction host p t n rule: wait_ready_loop.induct)
  case (1 host p t n)
  then show ?case
    by (subst wait_ready_loop.simps) (auto intro!: only_intros quiet_agent quiet_callsI)
qed

lemma quiet_network:
  "only (NetworkManager_create_tap host t ip) quiet_calls" "only (NetworkManager_delete_tap host t ip) quiet_calls"
  by (auto simp: NetworkManager_create_tap_def NetworkManager_delete_tap_def create_tap_def bring_up_def
    attach_tap_to_bridge_def add_source_ip_rule_def remove_source_ip_rule_def delete_tap_def ipt_new_def
    ipt_append_def intro!: only_intros intro: quiet_callsI)

lemma quiet_agent_exec: "only (agent_exec host r) quiet_calls"
  unfolding agent_exec_def by (intro only_intros quiet_callsI) simp_all

lemma quiet_manager:
  "sonly (start X host c) quiet_calls" "sonly (stop X host) quiet_calls" "sonly (drop_manager host) quiet_calls"
  by (rule sonly_mono [OF sonly_manager(1)] sonly_mono [OF sonly_manager(2)] sonly_mono [OF sonly_manager(3)];
      auto simp: manager_calls_def intro!: quiet_callsI)+

lemma only_remove_proxy_rules: "only (remove_proxy_rules host b) no_draw"
proof -
  have "only (delete_all host rs) no_draw" for rs
    by (induction host rs rule: delete_all.induct) (auto intro: only_intros)
  then show ?thesis
    unfolding remove_proxy_rules_def by (auto intro!: only_intros)
qed

lemmas only_agent [only_intros] = quiet_agent [THEN only_mono, OF quiet_subset(1)]
lemmas only_wait_ready = quiet_wait_ready [THEN only_mono, OF quiet_subset(1)]
lemmas only_network [only_intros] =
  quiet_network [THEN only_mono, OF quiet_subset(1)] only_remove_proxy_rules
lemmas only_agent_exec = quiet_agent_exec [THEN only_mono, OF quiet_subset(1)]

lemma appends_ask: "appends (map_io f (ask host c))" "appends (ask host c)"
  by (auto simp: appends_def io_simps)

lemmas appends_intros =
  appends_only [OF only_network(1)] appends_only [OF only_network(2)] appends_only [OF only_network(3)]
  appends_only [OF only_agent(1)] appends_only [OF only_agent_exec]
  appends_only [OF only_wait_ready [of _ _ _ 0, folded wait_ready_def]]
  appends_sonly [OF sonly_manager(1)] appends_sonly [OF sonly_manager(2)]
  appends_sonly [OF sonly_manager(3)] appends_ask

subsection \<open>The shared invariant\<close>

datatype token = Ip ip_addr | Id vm_id

text \<open>The VM ids drawn so far. They are random 122-bit numbers: that they do not repeat is a
  hypothesis on the run.\<close>

definition drawn_ids :: "sys_history \<Rightarrow> vm_id list" where
  "drawn_ids h = List.map_filter (\<lambda>(c, r). case c of NewUuid \<Rightarrow> Some (reply_uuid r) | _ \<Rightarrow> None) h"

lemma drawn_ids_append [simp]: "drawn_ids (h @ k) = drawn_ids h @ drawn_ids k"
  by (simp add: drawn_ids_def map_filter_def)

definition sv_safe :: "server \<Rightarrow> bool" where
  "sv_safe s \<longleftrightarrow> pool_inv (sv_allocator s) \<and> registry_inv (sv_registry s) \<and>
     registry_ips (sv_registry s) \<subseteq> leased (sv_allocator s)"

text \<open>Knowledge: the address each id was registered with, and whether an id was drawn twice
  (after which nothing is claimed).\<close>

type_synonym knowledge = "(vm_id \<rightharpoonup> ip_addr) \<times> bool"

definition sv_inv :: "sv \<Rightarrow> knowledge \<Rightarrow> token set \<Rightarrow> bool" where
  "sv_inv = (\<lambda>(s, h) (B, broken) A.
     if broken then \<not> distinct (drawn_ids h)
     else distinct (drawn_ids h) \<and> sv_safe s \<and>
       (\<forall>ip. Ip ip \<in> A \<longrightarrow> ip \<in> leased (sv_allocator s) - registry_ips (sv_registry s)) \<and>
       (\<forall>i e. sv_registry s i = Some e \<longrightarrow> B i = Some (e_ip_address e)) \<and>
       (\<forall>i. Id i \<in> A \<longrightarrow> B i = None \<and> i \<in> set (drawn_ids h)) \<and>
       dom B \<subseteq> set (drawn_ids h))"

definition knows_more :: "knowledge \<Rightarrow> knowledge \<Rightarrow> bool" where
  "knows_more = (\<lambda>(B, b) (B', b'). B \<subseteq>\<^sub>m B' \<and> (b \<longrightarrow> b'))"

interpretation srv: ownership sv_inv knows_more
  by unfold_locales (auto simp: sv_inv_def knows_more_def intro: map_le_trans split: if_splits)

definition holds :: "knowledge \<Rightarrow> token \<Rightarrow> token set \<Rightarrow> bool" where
  "holds K t A \<longleftrightarrow> snd K \<or> t \<in> A"

definition knows :: "knowledge \<Rightarrow> vm_id \<Rightarrow> ip_addr \<Rightarrow> bool" where
  "knows K i ip \<longleftrightarrow> snd K \<or> fst K i = Some ip"

text \<open>The post-condition of a step that gives up no token outside \<open>D\<close>.\<close>

definition keeps :: "token set \<Rightarrow> token set \<Rightarrow> knowledge \<Rightarrow> token set \<Rightarrow> knowledge \<Rightarrow> bool" where
  "keeps D A K A' K' \<longleftrightarrow> knows_more K K' \<and> (\<forall>t. t \<notin> D \<longrightarrow> holds K t A \<longrightarrow> holds K' t A')"

lemma keeps_holds: "keeps D A K A' K' \<Longrightarrow> holds K t A \<Longrightarrow> t \<notin> D \<Longrightarrow> holds K' t A'"
  by (simp add: keeps_def)

lemma knows_mono: "knows K i ip \<Longrightarrow> knows_more K K' \<Longrightarrow> knows K' i ip"
  by (auto simp: knows_def knows_more_def map_le_def dom_def split: prod.splits)

lemma keeps_knows: "keeps D A K A' K' \<Longrightarrow> knows K i ip \<Longrightarrow> knows K' i ip"
  by (auto simp: keeps_def intro: knows_mono)

text \<open>How a step is shown sound: if an id was drawn twice it only has to append to the history;
  otherwise the new tokens and the new knowledge are given.\<close>

lemma sound_step:
  assumes hist: "\<And>s h. \<exists>k. snd (snd (m (s, h))) = h @ k"
    and broken: "\<And>x B'. knows_more K (B', True) \<Longrightarrow> Q x A (B', True)"
    and good: "\<And>s h B F. sv_inv (s, h) (F, False) (A \<union> B) \<Longrightarrow> A \<inter> B = {} \<Longrightarrow> knows_more K (F, False) \<Longrightarrow>
      \<exists>A' k'. A' \<inter> B = {} \<and> knows_more (F, False) k' \<and> sv_inv (snd (m (s, h))) k' (A' \<union> B) \<and>
        Q (fst (m (s, h))) A' k'"
  shows "srv.sound (atomic m) A K Q"
proof (rule srv.sound_atomic)
  fix st :: sv and B k
  assume inv: "sv_inv st k (A \<union> B)" "A \<inter> B = {}" "knows_more K k"
  obtain s h F b where st: "st = (s, h)" and k: "k = (F, b)"
    by (cases st, cases k)
  show "\<exists>A' k'. A' \<inter> B = {} \<and> knows_more k k' \<and> sv_inv (snd (m st)) k' (A' \<union> B) \<and> Q (fst (m st)) A' k'"
  proof (cases b)
    case True
    obtain l where "snd (snd (m (s, h))) = h @ l"
      using hist by blast
    then have "sv_inv (snd (m st)) k (A \<union> B)"
      using inv(1) True by (cases "snd (m st)") (simp add: sv_inv_def st k)
    moreover have "Q (fst (m st)) A k"
      unfolding k using True inv(3) k by (simp add: broken)
    ultimately show ?thesis
      using inv(2) srv.grows_refl [of k] by (intro exI [of _ A] exI [of _ k] conjI)
  next
    case False
    then show ?thesis
      using good [of s h F B] inv st k by simp
  qed
qed

lemma keeps_refl [simp]: "keeps D A K A K' \<longleftrightarrow> knows_more K K' \<and> (\<forall>t. t \<notin> D \<longrightarrow> holds K t A \<longrightarrow> holds K' t A)"
  by (simp add: keeps_def)

lemma holds_more: "holds K t A \<Longrightarrow> knows_more K K' \<Longrightarrow> A \<subseteq> A' \<Longrightarrow> holds K' t A'"
  by (auto simp: holds_def knows_more_def split: prod.splits)

lemma keeps_more: "knows_more K K' \<Longrightarrow> A \<subseteq> A' \<Longrightarrow> keeps D A K A' K'"
  using holds_more by (simp add: keeps_def)

lemma keeps_minus:
  "knows_more K K' \<Longrightarrow> A - D \<subseteq> A' \<Longrightarrow> keeps D A K A' K'"
  by (auto simp: keeps_def holds_def knows_more_def split: prod.splits)

lemma holds_broken [simp]: "holds (B, True) t A" "knows (B, True) i ip"
  by (simp_all add: holds_def knows_def)

lemma knows_more_same: "knows_more (F, b) (F, b)"
  by (simp add: knows_more_def)

named_theorems sound_ops "soundness of the steps of the handlers"

lemma sound_outside [sound_ops]:
  assumes "appends m"
  shows "srv.sound (outside m) A K (\<lambda>_. keeps {} A K)"
  unfolding outside_def
proof (rule sound_step, goal_cases)
  case (1 s h)
  obtain l where "snd (m h) = h @ l"
    using assms unfolding appends_def by blast
  then show ?case
    by (cases "m h") (simp add: io_simps)
next
  case (3 s h B F)
  obtain l where "snd (m h) = h @ l"
    using assms unfolding appends_def by blast
  then have h': "snd (lift_io m (s, h)) = (s, h @ l)"
    by (auto simp: lift_io_def split: prod.split)
  show ?case
  proof (cases "distinct (drawn_ids (h @ l))")
    case True
    then show ?thesis
      using 3 h' by (intro exI [of _ A] exI [of _ "(F, False)"])
        (auto simp: sv_inv_def knows_more_same intro: holds_more)
  next
    case False
    then show ?thesis
      using 3 h' by (intro exI [of _ A] exI [of _ "(F, True)"])
        (auto simp: sv_inv_def knows_more_def split: prod.splits)
  qed
qed (simp add: holds_more)

lemma sound_on_events [sound_ops]: "srv.sound (on_events f) A K (\<lambda>_. keeps {} A K)"
  unfolding on_events_def
proof (rule sound_step, goal_cases)
  case (3 s h B F)
  then show ?case
    by (intro exI [of _ A] exI [of _ "(F, False)"])
      (auto simp: sv_inv_def sv_safe_def knows_more_same intro: holds_more)
qed (simp_all add: holds_more)

text \<open>Drawing an id gives the right to register it.\<close>

lemma sound_draw:
  "srv.sound (outside (map_io reply_uuid (ask host NewUuid))) A K
     (\<lambda>u A' K'. keeps {} A K A' K' \<and> holds K' (Id u) A')"
  unfolding outside_def
proof (rule sound_step, goal_cases)
  case (3 s h B F)
  let ?u = "reply_uuid (host h NewUuid)"
  have run: "lift_io (map_io reply_uuid (ask host NewUuid)) (s, h) = (?u, (s, h @ [(NewUuid, host h NewUuid)]))"
    by (simp add: io_simps)
  have drawn: "drawn_ids [(NewUuid, host h NewUuid)] = [?u]"
    by (simp add: drawn_ids_def map_filter_def)
  show ?case
  proof (cases "?u \<in> set (drawn_ids h)")
    case True
    then show ?thesis
      using 3 by (intro exI [of _ A] exI [of _ "(F, True)"])
        (auto simp: run sv_inv_def drawn knows_more_def split: prod.splits)
  next
    case False
    moreover from this have "Id ?u \<notin> B"
      using 3(1) by (auto simp: sv_inv_def)
    ultimately show ?thesis
      using 3 by (intro exI [of _ "insert (Id ?u) A"] exI [of _ "(F, False)"])
        (auto simp: run sv_inv_def drawn knows_more_same holds_def intro!: keeps_more)
  qed
qed (simp_all add: io_simps holds_more)

text \<open>Allocating gives the address; releasing and registering give it up.\<close>

lemma sound_allocate:
  "srv.sound task_allocate A K
     (\<lambda>r A' K'. keeps {} A K A' K' \<and> (case r of Inl _ \<Rightarrow> True | Inr ip \<Rightarrow> holds K' (Ip ip) A'))"
  unfolding task_allocate_def
proof (rule sound_step, goal_cases)
  case (3 s h B F)
  obtain r a where r: "allocate (sv_allocator s) = (r, a)"
    by (cases "allocate (sv_allocator s)")
  have pool: "pool_inv (sv_allocator s)"
    using 3(1) by (simp add: sv_inv_def sv_safe_def)
  show ?case
  proof (cases r)
    case (Inl e)
    then have "a = sv_allocator s"
      using vm_pool.alloc_full [OF pool] r by blast
    then show ?thesis
      using 3 r Inl by (intro exI [of _ A] exI [of _ "(F, False)"])
        (auto simp: knows_more_same sv_inv_def sv_safe_def intro: holds_more)
  next
    case (Inr ip)
    have new: "ip \<notin> leased (sv_allocator s)" "leased a = insert ip (leased (sv_allocator s))" "pool_inv a"
      using vm_pool.alloc_new [OF pool] vm_pool.alloc_held [OF pool] vm_pool.alloc_invar [OF pool] r Inr by auto
    moreover from new(1) have "Ip ip \<notin> B" "ip \<notin> registry_ips (sv_registry s)"
      using 3(1) by (auto simp: sv_inv_def sv_safe_def)
    ultimately show ?thesis
      using 3 r Inr by (intro exI [of _ "insert (Ip ip) A"] exI [of _ "(F, False)"])
        (auto simp: knows_more_same sv_inv_def sv_safe_def holds_def intro!: keeps_more)
  qed
qed (auto simp: holds_more split: sum.splits prod.splits)

lemma sound_release:
  assumes "holds K (Ip ip) A"
  shows "srv.sound (task_release ip) A K (\<lambda>_. keeps {Ip ip} A K)"
  unfolding task_release_def
proof (rule sound_step, goal_cases)
  case (3 s h B F)
  obtain r a where r: "release ip (sv_allocator s) = (r, a)"
    by (cases "release ip (sv_allocator s)")
  have pool: "pool_inv (sv_allocator s)"
    using 3(1) by (simp add: sv_inv_def sv_safe_def)
  have freed: "leased a = leased (sv_allocator s) - {ip}" "pool_inv a"
    using vm_pool.free_held [OF pool] vm_pool.free_invar [OF pool] r by blast+
  have "Ip ip \<in> A"
    using assms 3(3) by (auto simp: holds_def knows_more_def split: prod.splits)
  moreover from this have "ip \<notin> registry_ips (sv_registry s)" "Ip ip \<notin> B"
    using 3(1,2) by (auto simp: sv_inv_def)
  ultimately show ?case
    using 3 r freed by (intro exI [of _ "A - {Ip ip}"] exI [of _ "(F, False)"])
      (auto simp: knows_more_same sv_inv_def sv_safe_def intro!: keeps_minus)
qed (auto simp: holds_more split: prod.splits)

lemma sound_insert:
  assumes "holds K (Id i) A" "holds K (Ip (e_ip_address e)) A" "e_id e = i"
  shows "srv.sound (task_insert X i e) A K (\<lambda>r. keeps {Id i, Ip (e_ip_address e)} A K)"
  unfolding task_insert_def
proof (rule sound_step, goal_cases)
  case (3 s h B F)
  have tok: "Id i \<in> A" "Ip (e_ip_address e) \<in> A"
    using assms 3(3) by (auto simp: holds_def knows_more_def split: prod.splits)
  have F: "F i = None" "\<And>j f. sv_registry s j = Some f \<Longrightarrow> F j = Some (e_ip_address f)" "i \<in> set (drawn_ids h)"
    using 3(1) tok by (auto simp: sv_inv_def)
  then have none: "sv_registry s i = None"
    by (cases "sv_registry s i") auto
  have B: "Id i \<notin> B" "Ip (e_ip_address e) \<notin> B"
    using tok 3(2) by auto
  have ip: "e_ip_address e \<notin> registry_ips (sv_registry s)" "e_ip_address e \<in> leased (sv_allocator s)"
    using 3(1) tok by (auto simp: sv_inv_def)
  have ins: "registry_insert X i e (sv_registry s) = Inr ((sv_registry s)(i \<mapsto> e))"
    using none by (simp add: registry_insert_def)
  have "registry_inv ((sv_registry s)(i \<mapsto> e))"
    using registry_insert_inv [OF _ ins assms(3) ip(1)] 3(1) by (simp add: sv_inv_def sv_safe_def)
  moreover have "registry_ips ((sv_registry s)(i \<mapsto> e)) = insert (e_ip_address e) (registry_ips (sv_registry s))"
    using registry_insert_ips [OF ins] .
  ultimately have "sv_inv (s\<lparr>sv_registry := (sv_registry s)(i \<mapsto> e)\<rparr>, h) (F(i \<mapsto> e_ip_address e), False)
      (A - {Id i, Ip (e_ip_address e)} \<union> B)"
    using 3(1) F B ip by (auto simp: sv_inv_def sv_safe_def)
  moreover have "knows_more (F, False) (F(i \<mapsto> e_ip_address e), False)"
    using F(1) by (auto simp: knows_more_def map_le_def)
  moreover from this have "knows_more K (F(i \<mapsto> e_ip_address e), False)"
    using 3(3) srv.grows_trans by blast
  ultimately show ?case
    using 3(2) ins by (intro exI [of _ "A - {Id i, Ip (e_ip_address e)}"] exI [of _ "(F(i \<mapsto> e_ip_address e), False)"])
      (auto intro!: keeps_minus)
qed (auto simp: holds_more split: sum.splits)

lemma sound_remove:
  "srv.sound (task_remove X i) A K
     (\<lambda>r A' K'. keeps {} A K A' K' \<and>
       (case r of Inl _ \<Rightarrow> True | Inr e \<Rightarrow> holds K' (Ip (e_ip_address e)) A' \<and> knows K' i (e_ip_address e)))"
  unfolding task_remove_def
proof (rule sound_step, goal_cases)
  case (3 s h B F)
  show ?case
  proof (cases "sv_registry s i")
    case None
    then show ?thesis
      using 3 by (intro exI [of _ A] exI [of _ "(F, False)"])
        (auto simp: registry_remove_def knows_more_same intro: holds_more)
  next
    case (Some e)
    have reg: "registry_inv (sv_registry s)"
      using 3(1) by (simp add: sv_inv_def sv_safe_def)
    have rem: "registry_remove X i (sv_registry s) = Inr (e, (sv_registry s)(i := None))"
      using Some by (simp add: registry_remove_def)
    note rest = registry_remove_inv [OF reg rem] registry_remove_ips [OF reg rem]
    have e: "e_ip_address e \<in> registry_ips (sv_registry s)"
      using Some registry_ips_mem by blast
    then have "Ip (e_ip_address e) \<notin> B"
      using 3(1) by (auto simp: sv_inv_def)
    moreover have "sv_inv (s\<lparr>sv_registry := (sv_registry s)(i := None)\<rparr>, h) (F, False) (insert (Ip (e_ip_address e)) A \<union> B)"
      using 3(1) rest e by (auto simp: sv_inv_def sv_safe_def)
    moreover have "F i = Some (e_ip_address e)"
      using 3(1) Some by (simp add: sv_inv_def)
    ultimately show ?thesis
      using 3(2,3) rem by (intro exI [of _ "insert (Ip (e_ip_address e)) A"] exI [of _ "(F, False)"])
        (auto simp: knows_more_same holds_def knows_def intro!: keeps_more)
  qed
qed (auto simp: holds_more split: sum.splits)

text \<open>Every row of a listing is known.\<close>

lemma sound_list:
  assumes "\<And>vms. finite (dom vms) \<Longrightarrow> iterates (order vms) vms"
  shows "srv.sound (reads (\<lambda>vms. registry_list (order vms) vms)) A K
     (\<lambda>rows A' K'. keeps {} A K A' K' \<and> (\<forall>row \<in> set rows. knows K' (fst row) (fst (snd row))))"
  unfolding reads_def
proof (rule sound_step, goal_cases)
  case (3 s h B F)
  have reg: "registry_inv (sv_registry s)"
    using 3(1) by (simp add: sv_inv_def sv_safe_def)
  then have dom: "set (order (sv_registry s)) = dom (sv_registry s)"
    using assms [of "sv_registry s"] by (simp add: registry_inv_def iterates_def)
  have "knows (F, False) (fst row) (fst (snd row))" if "row \<in> set (registry_list (order (sv_registry s)) (sv_registry s))" for row
    using that 3(1) dom by (auto simp: registry_list_def entry_row_def knows_def sv_inv_def)
  then show ?case
    using 3 by (intro exI [of _ A] exI [of _ "(F, False)"]) (auto simp: knows_more_same intro: holds_more)
qed (auto simp: holds_more)

lemma sound_reads [sound_ops]: "srv.sound (reads f) A K (\<lambda>_. keeps {} A K)"
  unfolding reads_def
proof (rule sound_step, goal_cases)
  case (3 s h B F)
  then show ?case
    by (intro exI [of _ A] exI [of _ "(F, False)"]) (auto simp: knows_more_same intro: holds_more)
qed (auto simp: holds_more)

subsection \<open>Handlers\<close>

text \<open>Programs that touch no token, and programs that start with the tokens \<open>T\<close> and the
  knowledge \<open>N\<close>.\<close>

definition keeper :: "'a task \<Rightarrow> bool" where
  "keeper p \<longleftrightarrow> (\<forall>A K. srv.sound p A K (\<lambda>_. keeps {} A K))"

definition owns :: "token set \<Rightarrow> (vm_id \<times> ip_addr) set \<Rightarrow> 'a task \<Rightarrow> bool" where
  "owns T N p \<longleftrightarrow> (\<forall>A K. (\<forall>t \<in> T. holds K t A) \<longrightarrow> (\<forall>(i, ip) \<in> N. knows K i ip) \<longrightarrow>
     srv.sound p A K (\<lambda>_ _ _. True))"

named_theorems keeper_intros "programs that touch no token"
named_theorems owns_intros "programs that account for their tokens"

lemma keeps_trans: "keeps {} A K A' K' \<Longrightarrow> keeps {} A' K' A'' K'' \<Longrightarrow> keeps {} A K A'' K''"
  unfolding keeps_def using srv.grows_trans by blast

lemma keeper_Done [keeper_intros]: "keeper (Done x)"
  by (simp add: keeper_def keeps_more srv.grows_refl)

lemma keeperD: "keeper p \<Longrightarrow> srv.sound p A K (\<lambda>_. keeps {} A K)"
  unfolding keeper_def by blast

lemma keeper_bind [keeper_intros]:
  assumes "keeper p" "\<And>x. keeper (f x)"
  shows "keeper (bindP p f)"
  unfolding keeper_def
proof (intro allI, rule srv.sound_bind [OF keeperD [OF assms(1)]])
  fix A K x A' K'
  assume "keeps {} A K A' K'"
  then show "srv.sound (f x) A' K' (\<lambda>_. keeps {} A K)"
    by (intro srv.sound_weaken [OF keeperD [OF assms(2)]]) (rule keeps_trans)
qed

lemma keeper_ops [keeper_intros]:
  "keeper (on_events g)" "keeper (reads h)" "appends m \<Longrightarrow> keeper (outside m)"
  by (simp_all add: keeper_def sound_on_events sound_reads sound_outside)

lemma keeper_sum [keeper_intros]:
  "(\<And>e. keeper (f e)) \<Longrightarrow> (\<And>x. keeper (g x)) \<Longrightarrow> keeper (case r of Inl e \<Rightarrow> f e | Inr x \<Rightarrow> g x)"
  by (cases r) simp_all

lemma keeper_events [keeper_intros]:
  "keeper (vm_event X clock et i d)" "keeper (vm_failed X clock i e st)" "keeper (server_log X clock v m)"
  "keeper (elapsed_ms host)" "keeper (finish_event X host clock et i ok d)"
  unfolding vm_event_def vm_failed_def server_log_def elapsed_ms_def finish_event_def
  by (intro keeper_intros appends_intros)+

lemma ownsI:
  assumes "\<And>A K. (\<forall>t \<in> T. holds K t A) \<Longrightarrow> (\<forall>(i, ip) \<in> N. knows K i ip) \<Longrightarrow> srv.sound p A K (\<lambda>_ _ _. True)"
  shows "owns T N p"
  using assms by (simp add: owns_def)

lemma ownsD:
  "owns T N p \<Longrightarrow> (\<And>t. t \<in> T \<Longrightarrow> holds K t A) \<Longrightarrow> (\<And>i ip. (i, ip) \<in> N \<Longrightarrow> knows K i ip) \<Longrightarrow>
   srv.sound p A K (\<lambda>_ _ _. True)"
  unfolding owns_def by blast

lemma owns_Done [owns_intros]: "owns T N (Done x)"
  by (simp add: owns_def)

lemma owns_keep [owns_intros]:
  assumes "keeper p" "\<And>x. owns T N (f x)"
  shows "owns T N (bindP p f)"
proof (rule ownsI)
  fix A K
  assume "\<forall>t \<in> T. holds K t A" "\<forall>(i, ip) \<in> N. knows K i ip"
  then show "srv.sound (bindP p f) A K (\<lambda>_ _ _. True)"
    by (intro srv.sound_bind [OF keeperD [OF assms(1)]] ownsD [OF assms(2)])
      (auto intro: keeps_holds keeps_knows)
qed

lemma owns_draw:
  assumes "\<And>u. owns (insert (Id u) T) N (f u)"
  shows "owns T N (bindP (outside (map_io reply_uuid (ask host NewUuid))) f)"
  by (rule ownsI, rule srv.sound_bind [OF sound_draw], rule ownsD [OF assms])
    (auto intro: keeps_holds keeps_knows)

lemma owns_allocate:
  assumes "\<And>e. owns T N (f (Inl e))" "\<And>ip. owns (insert (Ip ip) T) N (f (Inr ip))"
  shows "owns T N (bindP task_allocate f)"
proof (rule ownsI, rule srv.sound_bind [OF sound_allocate])
  fix A K and r :: "anyhow + ip_addr" and A' K'
  assume "\<forall>t \<in> T. holds K t A" "\<forall>(i, ip) \<in> N. knows K i ip"
    "keeps {} A K A' K' \<and> (case r of Inl _ \<Rightarrow> True | Inr ip \<Rightarrow> holds K' (Ip ip) A')"
  then show "srv.sound (f r) A' K' (\<lambda>_ _ _. True)"
    by (cases r) (auto intro!: ownsD [OF assms(1)] ownsD [OF assms(2)] intro: keeps_holds keeps_knows)
qed

lemma owns_release:
  assumes "Ip ip \<in> T" "\<And>r. owns (T - {Ip ip}) N (f r)"
  shows "owns T N (bindP (task_release ip) f)"
proof (rule ownsI)
  fix A K
  assume "\<forall>t \<in> T. holds K t A" "\<forall>(i, ip) \<in> N. knows K i ip"
  then show "srv.sound (bindP (task_release ip) f) A K (\<lambda>_ _ _. True)"
    using assms(1) by (intro srv.sound_bind [OF sound_release] ownsD [OF assms(2)])
      (auto intro: keeps_holds keeps_knows)
qed

lemma owns_insert:
  assumes "Ip (e_ip_address e) \<in> T" "Id i \<in> T" "e_id e = i" "\<And>r. owns (T - {Id i, Ip (e_ip_address e)}) N (f r)"
  shows "owns T N (bindP (task_insert X i e) f)"
proof (rule ownsI)
  fix A K
  assume "\<forall>t \<in> T. holds K t A" "\<forall>(i, ip) \<in> N. knows K i ip"
  then show "srv.sound (bindP (task_insert X i e) f) A K (\<lambda>_ _ _. True)"
    using assms(1,2,3) by (intro srv.sound_bind [OF sound_insert] ownsD [OF assms(4)])
      (auto intro: keeps_holds keeps_knows)
qed

lemma owns_remove:
  assumes "\<And>e. owns T N (f (Inl e))" "\<And>e. owns (insert (Ip (e_ip_address e)) T) N (f (Inr e))"
  shows "owns T N (bindP (task_remove X i) f)"
proof (rule ownsI, rule srv.sound_bind [OF sound_remove])
  fix A K and r :: "anyhow + vm_entry" and A' K'
  assume "\<forall>t \<in> T. holds K t A" "\<forall>(i, ip) \<in> N. knows K i ip"
    "keeps {} A K A' K' \<and>
      (case r of Inl _ \<Rightarrow> True | Inr e \<Rightarrow> holds K' (Ip (e_ip_address e)) A' \<and> knows K' i (e_ip_address e))"
  then show "srv.sound (f r) A' K' (\<lambda>_ _ _. True)"
    by (cases r) (auto intro!: ownsD [OF assms(1)] ownsD [OF assms(2)] intro: keeps_holds keeps_knows)
qed

text \<open>A removed entry whose address was known before has that address.\<close>

lemma owns_remove_known:
  assumes "(i, ip) \<in> N" "\<And>e. owns T N (f (Inl e))" "\<And>e. owns (insert (Ip ip) T) N (f (Inr e))"
  shows "owns T N (bindP (task_remove X i) f)"
proof (rule ownsI, rule srv.sound_bind [OF sound_remove])
  fix A K and r :: "anyhow + vm_entry" and A' K'
  assume pre: "\<forall>t \<in> T. holds K t A" "\<forall>(i, ip) \<in> N. knows K i ip"
    and post: "keeps {} A K A' K' \<and>
      (case r of Inl _ \<Rightarrow> True | Inr e \<Rightarrow> holds K' (Ip (e_ip_address e)) A' \<and> knows K' i (e_ip_address e))"
  have "knows K' i ip"
    using pre(2) assms(1) post keeps_knows by blast
  then have "holds K' (Ip ip) A'" if "r = Inr e" for e
    using post that by (auto simp: knows_def holds_def)
  then show "srv.sound (f r) A' K' (\<lambda>_ _ _. True)"
    using pre post
    by (cases r) (auto intro!: ownsD [OF assms(2)] ownsD [OF assms(3)] intro: keeps_holds keeps_knows)
qed

lemma owns_list:
  assumes "\<And>vms. finite (dom vms) \<Longrightarrow> iterates (order vms) vms"
    and "\<And>rows. owns T (N \<union> (\<lambda>row. (fst row, fst (snd row))) ` set rows) (f rows)"
  shows "owns T N (bindP (reads (\<lambda>vms. registry_list (order vms) vms)) f)"
  by (rule ownsI, rule srv.sound_bind [OF sound_list [OF assms(1)]], assumption, rule ownsD [OF assms(2)])
    (auto intro: keeps_holds keeps_knows)

lemma owns_sum [owns_intros]:
  "(\<And>e. owns T N (f e)) \<Longrightarrow> (\<And>x. owns T N (g x)) \<Longrightarrow> owns T N (case r of Inl e \<Rightarrow> f e | Inr x \<Rightarrow> g x)"
  by (cases r) simp_all

lemma owns_prod [owns_intros]: "(\<And>x y. owns T N (f x y)) \<Longrightarrow> owns T N (case r of (x, y) \<Rightarrow> f x y)"
  by (cases r) simp

lemmas handler_intros = owns_intros keeper_intros appends_intros

lemma owns_register_vm: "owns {Id i, Ip ip} N (register_vm X host clock req i ip m)"
  unfolding register_vm_def Let_def
  by (rule owns_keep, intro handler_intros, rule owns_keep, intro handler_intros,
      rule owns_keep, intro handler_intros, rule owns_insert, simp, simp, simp, intro handler_intros)

lemma owns_boot_vm: "owns {Id i, Ip ip} N (boot_vm X host clock svc req i ip)"
  unfolding boot_vm_def Let_def
  apply (rule owns_keep, intro handler_intros)
  apply (rule owns_prod, rule owns_sum)
   apply (rule owns_keep, intro handler_intros, rule owns_release, simp, intro handler_intros)
  apply (rule owns_keep, intro handler_intros, rule owns_register_vm)
  done

lemma owns_create_vm: "owns {} N (create_vm X host clock svc req)"
  unfolding create_vm_def Let_def
  apply (rule owns_draw)
  apply (rule owns_keep, intro handler_intros)
  apply (rule owns_allocate)
   apply (simp only: sum.case, intro handler_intros)
  apply (simp only: sum.case, rule owns_keep, intro handler_intros)
  apply (rule owns_keep, intro handler_intros)
  apply (rule owns_sum)
   apply (rule owns_release, simp, intro handler_intros)
  apply (rule owns_keep, intro handler_intros)
  apply (simp add: insert_commute owns_boot_vm)
  done

lemma owns_delete_vm: "owns {} N (delete_vm X host clock req)"
  unfolding delete_vm_def Let_def
  apply (rule owns_sum, rule owns_Done)
  apply (rule owns_keep, intro handler_intros)
  apply (rule owns_remove)
   apply (simp only: sum.case, intro handler_intros)
  apply (simp only: sum.case, rule owns_keep, intro handler_intros)
  apply (rule owns_keep, intro handler_intros)
  apply (rule owns_release, simp, intro handler_intros)
  done

lemma owns_queries: "owns {} N (list_v_ms X order)" "owns {} N (exec_vm X host clock xreq)"
  "owns {} N (exec_vm_stream)"
  unfolding list_v_ms_def exec_vm_def exec_vm_stream_def by (intro handler_intros)+

lemma owns_cleanup_vm:
  assumes "(fst row, fst (snd row)) \<in> N" and "\<And>x. owns {} N (f x)"
  shows "owns {} N (bindP (cleanup_vm X host clock row) f)"
proof -
  obtain i ip tap rest where row: "row = (i, ip, tap, rest)"
    by (metis prod.collapse)
  show ?thesis
    unfolding cleanup_vm_def row prod.case bindP_assoc bindP_sum bindP.simps
    apply (rule owns_keep, intro handler_intros)
    apply (rule owns_remove_known [where ip = ip])
      apply (use assms(1) row in simp)
     apply (simp only: sum.case, rule assms(2))
    apply (simp only: sum.case, rule owns_keep, intro handler_intros)
    apply (rule owns_keep, intro handler_intros)
    apply (rule owns_release, simp)
    apply (simp only: Diff_insert_absorb Diff_cancel)
    apply (rule owns_keep, intro handler_intros)
    apply (rule owns_keep, intro handler_intros, rule assms(2))
    done
qed

lemma owns_cleanup_all:
  assumes "(\<lambda>row. (fst row, fst (snd row))) ` set rows \<subseteq> N" and "\<And>x. owns {} N (f x)"
  shows "owns {} N (bindP (cleanup_all X host clock rows) f)"
  using assms(1)
proof (induction rows)
  case (Cons row rows)
  then show ?case
    unfolding cleanup_all.simps bindP_assoc by (intro owns_cleanup_vm) auto
qed (simp add: assms(2))

lemma owns_cleanup_server:
  assumes "\<And>vms. finite (dom vms) \<Longrightarrow> iterates (order vms) vms" and "\<And>x N. owns {} N (f x)"
  shows "owns {} N (bindP (cleanup_server X host clock order) f)"
  unfolding cleanup_server_def bindP_assoc
  apply (rule owns_keep, intro handler_intros)
  apply (rule owns_list [OF assms(1)], assumption)
  apply (rule owns_keep, intro handler_intros)
  apply (rule owns_cleanup_all, blast)
  apply (rule owns_keep, intro handler_intros)
  apply (rule owns_keep, intro handler_intros)
  apply (rule owns_keep, intro handler_intros)
  apply (rule owns_keep, intro handler_intros, rule assms(2))
  done

lemma owns_shutdown:
  assumes "\<And>vms. finite (dom vms) \<Longrightarrow> iterates (order vms) vms"
  shows "owns {} N (shutdown_signal X host clock order registered wake)"
proof -
  have "owns {} N (bindP (server_log X clock v m) (\<lambda>_. bindP (cleanup_server X host clock order) (\<lambda>_. Done (Ret ()))))"
    for v m
    by (rule owns_keep, intro handler_intros) (intro owns_cleanup_server [OF assms] owns_Done)
  then show ?thesis
    by (auto simp: shutdown_signal_def owns_Done split: sum.split shutdown_wake.split)
qed

subsection \<open>The system\<close>

text \<open>What clients and signals may start.\<close>

definition request_tasks ::
  "libs \<Rightarrow> sys_host \<Rightarrow> (i64 \<Rightarrow> string) \<Rightarrow> service \<Rightarrow> (vm_registry \<Rightarrow> vm_id list) \<Rightarrow> unit task set" where
  "request_tasks X host clock svc order =
     range (\<lambda>req. forget (create_vm X host clock svc req)) \<union>
     range (\<lambda>i. forget (delete_vm X host clock i)) \<union>
     range (\<lambda>req. forget (exec_vm X host clock req)) \<union>
     {forget (list_v_ms X order), forget exec_vm_stream}"

definition server_tasks ::
  "libs \<Rightarrow> sys_host \<Rightarrow> (i64 \<Rightarrow> string) \<Rightarrow> service \<Rightarrow> (vm_registry \<Rightarrow> vm_id list) \<Rightarrow> unit task set" where
  "server_tasks X host clock svc order =
     request_tasks X host clock svc order \<union>
     range (\<lambda>(registered, wake). forget (shutdown_signal X host clock order registered wake))"

text \<open>The state when the server starts to serve, with the event store opened before.\<close>

definition server_new :: "event_store \<Rightarrow> server" where
  "server_new es = \<lparr>sv_allocator = IpAllocator_new, sv_registry = VmRegistry_new, sv_events = es\<rparr>"

lemma sound_owns: "owns {} {} p \<Longrightarrow> srv.sound p {} K (\<lambda>_ _ _. True)"
  by (erule ownsD) auto

lemma sound_forget_owns: "owns {} {} p \<Longrightarrow> srv.sound (forget p) {} K (\<lambda>_ _ _. True)"
  by (intro srv.sound_forget sound_owns)

lemma server_tasks_sound:
  assumes order: "\<And>vms. finite (dom vms) \<Longrightarrow> iterates (order vms) vms"
    and "p \<in> server_tasks X host clock svc order"
  shows "srv.sound p {} K (\<lambda>_ _ _. True)"
  using assms(2) unfolding server_tasks_def request_tasks_def
  by (elim UnE rangeE insertE emptyE)
    (simp_all add: sound_forget_owns owns_create_vm owns_delete_vm owns_queries
      owns_shutdown [OF order] case_prod_beta)

lemma sv_inv_new:
  "sv_inv (server_new es, h) (Map.empty, \<not> distinct (drawn_ids h)) {}"
  by (auto simp: sv_inv_def server_new_def sv_safe_def intro: registry_inv_new split: if_splits)
    (simp_all add: VmRegistry_new_def)

text \<open>C1: Addresses are exclusive under concurrency. Take any number of create, delete, list and
  exec requests and shutdowns, interleaved in any way, any of them dropped at any step, with
  every outside call answered in any way. As long as no VM id is drawn twice, every registered
  VM is stored under its own id, has an address of the pool that the allocator has marked as
  taken, and shares it with no other VM.\<close>

theorem addresses_exclusive:
  assumes "\<And>vms. finite (dom vms) \<Longrightarrow> iterates (order vms) vms"
    and "(pool_step (server_tasks X host clock svc order))\<^sup>*\<^sup>*
      ([], (server_new es, h0)) (ts, (s, h))"
    and "distinct (drawn_ids h)"
  shows "\<forall>i e. sv_registry s i = Some e \<longrightarrow>
    e_id e = i \<and> e_ip_address e \<in> pool_range \<inter> leased (sv_allocator s) \<and>
    (\<forall>j f. sv_registry s j = Some f \<longrightarrow> e_ip_address f = e_ip_address e \<longrightarrow> j = i)"
proof -
  have "\<exists>k A. sv_inv (s, h) k A"
    using assms(1,2) by (intro srv.pool_safe [OF _ sv_inv_new] server_tasks_sound) auto
  then have safe: "sv_safe s"
    using assms(3) by (auto simp: sv_inv_def split: if_splits prod.splits)
  have "e_id e = i \<and> e_ip_address e \<in> pool_range \<inter> leased (sv_allocator s) \<and>
      (\<forall>j f. sv_registry s j = Some f \<longrightarrow> e_ip_address f = e_ip_address e \<longrightarrow> j = i)"
    if "sv_registry s i = Some e" for i e
  proof -
    have "e_ip_address e \<in> registry_ips (sv_registry s)"
      using that registry_ips_mem by blast
    then show ?thesis
      using safe that leased_subset unfolding sv_safe_def registry_inv_def by blast
  qed
  then show ?thesis
    by blast
qed

subsection \<open>Example: a host on which everything succeeds\<close>

definition calm_host :: sys_host where
  "calm_host h c =
     (case c of
        PathExists _ \<Rightarrow> RBool True
      | LinkGet _ \<Rightarrow> RIndex (Some 7)
      | SpawnFirecracker _ \<Rightarrow> RPid 42
      | FcRequest _ _ _ _ \<Rightarrow> RHttp 204 (Inr [])
      | StreamReadLine \<Rightarrow> RText ''OK 10051''
      | NewUuid \<Rightarrow> RUuid 1
      | _ \<Rightarrow> ROk)"

definition sample_service :: service where
  "sample_service = \<lparr>svc_kernel_path = ''/k'', svc_rootfs_path = ''/r''\<rparr>"

definition sample_request :: create_vm_request where
  "sample_request = \<lparr>cr_vcpu_count = Some 2, cr_mem_size_mib = None\<rparr>"

abbreviation sample_config :: "libs \<Rightarrow> vm_id \<Rightarrow> ip_addr \<Rightarrow> vm_config" where
  "sample_config X i ip \<equiv> vm_config_of X sample_service sample_request i ip"

named_theorems calm_simps "how the operations end on the calm host"

lemma calm_host_simps [simp]:
  "calm_host h (PathExists p) = RBool True" "calm_host h (LinkGet p) = RIndex (Some 7)"
  "calm_host h (SpawnFirecracker p) = RPid 42" "calm_host h (FcRequest a b c d) = RHttp 204 (Inr [])"
  "calm_host h StreamReadLine = RText ''OK 10051''" "calm_host h NewUuid = RUuid 1"
  "calm_host h (RemoveFile f) = ROk" "calm_host h OpenTun = ROk" "calm_host h (TunSetIff q) = ROk"
  "calm_host h TunSetPersist = ROk" "calm_host h (LinkSetUp i) = ROk"
  "calm_host h (LinkSetController i j) = ROk" "calm_host h IptNew = ROk"
  "calm_host h (IptAppend t ch r) = ROk" "calm_host h (UnixConnect t) = ROk"
  "calm_host h (StreamWrite bs) = ROk" "calm_host h AgentHealth = ROk" "calm_host h ElapsedMs = ROk"
  "calm_host h SystemNow = ROk" "calm_host h (SleepMs n) = ROk"
  by (simp_all add: calm_host_def)

lemmas reply_defs =
  reply_unit_def reply_bool_def reply_index_def reply_text_def reply_pid_def reply_http_def
  reply_true_def reply_millis_def reply_time_def reply_uuid_def

lemma calm_literals [simp]: "is_success 204" "is_utf8 ''/k''" "is_utf8 ''/r''"
  by (simp_all add: is_success_def) (code_simp+)

lemma calm_bindE [calm_simps]: "fst (m h) = Inr x \<Longrightarrow> bindE m f h = f x (snd (m h))"
  by (cases "m h") (simp add: io_simps)

lemma calm_ctx [calm_simps]:
  "fst (m h) = Inr x \<Longrightarrow> fst (ctx_io c m h) = Inr x" "snd (ctx_io c m h) = snd (m h)"
  by (cases "m h", simp add: io_simps with_context_def)+

lemma calm_lift [calm_simps]:
  "fst (lift_io m (s, h)) = fst (m h)" "snd (lift_io m (s, h)) = (s, snd (m h))"
  "bind_io (gets_io f) g (s, h) = g (f s) (s, h)"
  by (simp_all add: io_simps split: prod.split)

lemma calm_wait_for_socket [calm_simps]: "fst (wait_for_socket calm_host p h) = Inr ()"
proof -
  have "fst (wait_attempts calm_host p (Suc n) h) = Inr ()" for n
    by (simp add: io_simps path_exists_def sleep_ms_def reply_defs)
  from this [of 49] show ?thesis
    by (simp add: wait_for_socket_def del: wait_attempts.simps)
qed

lemma calm_put [calm_simps]: "is_utf8 p \<Longrightarrow> fst (fc_put X calm_host p q b h) = Inr ()"
  by (simp add: fc_put_def send_request_def path_to_str_def io_simps reply_defs)

lemma sample_config_simps [simp]:
  "cfg_kernel_path (sample_config X i ip) = ''/k''" "cfg_rootfs_path (sample_config X i ip) = ''/r''"
  "cfg_vcpu_count (sample_config X i ip) = 2" "cfg_mem_size_mib (sample_config X i ip) = 256"
  "cfg_tap_device (sample_config X i ip) = Some (tap_name_of X i)"
  "cfg_ip_address (sample_config X i ip) = Some (show_ip ip)"
  "cfg_guest_cid (sample_config X i ip) = Some 3"
  "cfg_vsock_uds_path (sample_config X i ip) = Some (vsock_path_of X i)"
  by (simp_all add: vm_config_of_def with_vsock_def with_network_def with_memory_def with_vcpus_def
      VmConfig_new_def sample_service_def sample_request_def unwrap_or_def)

lemma calm_validate [calm_simps]: "fst (validate calm_host (sample_config X i ip) h) = Inr ()"
  by (simp add: validate_def io_simps path_exists_def reply_defs)

lemma calm_configure [calm_simps]:
  "is_utf8 p \<Longrightarrow> fst (configure_vm X calm_host p (sample_config X i ip) h) = Inr ()"
  by (simp add: configure_vm_def path_to_str_def client_call_defs calm_simps)

lemma calm_manager_steps [calm_simps]:
  "is_valid (lifecycle m) t \<Longrightarrow> set_state t (m, h) = (Inr (), (m\<lparr>lifecycle := t\<rparr>, h))"
  "fst (remove_existing_socket calm_host p h) = Inr ()"
  "start_firecracker_process calm_host (m, h) =
     (Inr (), (m\<lparr>firecracker_process := Some 42\<rparr>, h @ [(SpawnFirecracker (socket_path m), RPid 42)]))"
  by (simp_all add: set_state_def transition_to_def remove_existing_socket_def path_exists_def
      call_unit_def start_firecracker_process_def io_simps reply_defs)

lemma calm_start [calm_simps]:
  assumes "lifecycle m = NotStarted" "is_utf8 (socket_path m)"
  shows "fst (start X calm_host (sample_config X i ip) (m, h)) = Inr ()"
proof -
  have "fst (start_instance X calm_host (socket_path m) h) = Inr ()" for h
    using assms by (simp add: start_instance_def calm_simps)
  then show ?thesis
    unfolding start_def using assms by (simp add: calm_simps is_valid_def)
qed

lemma calm_outside [calm_simps]:
  "fst (wait_ready calm_host p t h) = Inr ()"
  "fst (NetworkManager_create_tap calm_host (tap_name_of sample_libs i) ip h) = Inr ()"
  "fst (map_io reply_uuid (ask calm_host NewUuid) h) = 1"
  "snd (map_io reply_uuid (ask calm_host NewUuid) h) = h @ [(NewUuid, RUuid 1)]"
proof -
  show "fst (wait_ready calm_host p t h) = Inr ()"
    unfolding wait_ready_def
    by (subst wait_ready_loop.simps)
      (simp add: agent_probe_def agent_connect_def vsock_connector_def io_simps reply_defs starts_with_def)
qed (simp_all add: NetworkManager_create_tap_def create_tap_def bring_up_def attach_tap_to_bridge_def
    add_source_ip_rule_def ipt_new_def ipt_append_def get_link_index_def io_simps reply_defs
    call_unit_def tap_name_of_def sample_libs_def)

lemma run_task [calm_simps]:
  "run (bindP p f) st = run (f (fst (run p st))) (snd (run p st))"
  "run (outside m) (s, h) = (fst (m h), (s, snd (m h)))"
  "run (on_events g) (s, h) = ((), (s\<lparr>sv_events := snd (g (sv_events s))\<rparr>, h))"
  by (simp_all add: run_bindP outside_def on_events_def io_simps split: prod.split)

lemma calm_start_case [calm_simps]:
  "fst (start X hs c (m, h)) = Inr x \<Longrightarrow>
   (case start X hs c (m, h) of (r, (m', h')) \<Rightarrow> ((r, m'), h')) =
     ((Inr x, fst (snd (start X hs c (m, h)))), snd (snd (start X hs c (m, h))))"
  by (cases "start X hs c (m, h)") auto

lemma allocate_first: "allocate IpAllocator_new = (Inr (pool_ip 0), filled (Suc 0))"
  using allocate_filled [of 0] by (simp add: filled_0)

text \<open>What the calls of a step add to the ids drawn.\<close>

lemma drawn_no_draw: "fst ` set k \<subseteq> no_draw \<Longrightarrow> drawn_ids k = []"
  by (induction k) (auto simp: drawn_ids_def map_filter_def split: sys_call.splits)

lemma drawn_only [calm_simps]:
  assumes "only m no_draw"
  shows "drawn_ids (snd (m h)) = drawn_ids h"
proof -
  obtain k where "snd (m h) = h @ k" "fst ` set k \<subseteq> no_draw"
    by (rule onlyD [OF assms, of h "fst (m h)" "snd (m h)"]) simp_all
  then show ?thesis
    by (simp add: drawn_no_draw)
qed

lemma manager_no_draw: "manager_calls \<subseteq> no_draw"
  by (auto simp: manager_calls_def)

lemma drawn_start [calm_simps]: "drawn_ids (snd (snd (start X host c (m, h)))) = drawn_ids h"
proof -
  obtain r m' h' where run: "start X host c (m, h) = (r, (m', h'))"
    by (metis prod.collapse)
  obtain k where "h' = h @ k" "fst ` set k \<subseteq> manager_calls"
    by (rule stracesD [OF sonlyD [OF sonly_manager(1)] run])
  moreover from this have "drawn_ids k = []"
    using manager_no_draw by (intro drawn_no_draw) (rule subset_trans)
  ultimately show ?thesis
    using run by simp
qed

lemma drawn_ask [calm_simps]:
  "c \<noteq> NewUuid \<Longrightarrow> drawn_ids (snd (map_io f (ask host c) h)) = drawn_ids h"
  "drawn_ids (snd (wait_ready host p t h)) = drawn_ids h"
  "drawn_ids [(NewUuid, RUuid u)] = [u]"
  by (simp_all add: drawn_only only_intros wait_ready_def only_wait_ready)
    (simp add: drawn_ids_def map_filter_def reply_uuid_def)

lemmas calm_create_defs =
  create_vm_def boot_vm_def register_vm_def vm_event_def elapsed_ms_def finish_event_def
  task_allocate_def task_insert_def registry_insert_def server_new_def VmRegistry_new_def
  VmManager_new_def VmLifecycle_new_def Let_def

lemma sample_socket [simp]: "is_utf8 (socket_path_of sample_libs 1)"
  by (simp add: socket_path_of_def sample_libs_def) code_simp

lemma calm_create_vm:
  "case run (create_vm sample_libs calm_host (\<lambda>_. ''t'') sample_service sample_request)
      (server_new (EventStore_new ''s'' All), []) of (r, (s, h)) \<Rightarrow>
     is_ok r \<and> map_option e_ip_address (sv_registry s 1) = Some (pool_ip 0) \<and> drawn_ids h = [1]"
  by (simp add: calm_create_defs calm_simps allocate_first only_network)

text \<open>One request run to its end: the theorem holds with a VM in the registry.\<close>

theorem addresses_exclusive_witness:
  "let s = fst (snd (run (forget (create_vm sample_libs calm_host (\<lambda>_. ''t'') sample_service sample_request))
       (server_new (EventStore_new ''s'' All), []))) in
   \<exists>e. sv_registry s 1 = Some e \<and> e_id e = 1 \<and> e_ip_address e \<in> leased (sv_allocator s)"
proof -
  define order :: "vm_registry \<Rightarrow> vm_id list" where "order vms = sorted_list_of_set (dom vms)" for vms
  have order: "finite (dom vms) \<Longrightarrow> iterates (order vms) vms" for vms
    by (simp add: order_def iterates_def)
  let ?p = "create_vm sample_libs calm_host (\<lambda>_. ''t'') sample_service sample_request"
  let ?st = "snd (run (forget ?p) (server_new (EventStore_new ''s'' All), []))"
  obtain s h where st: "?st = (s, h)"
    by (cases ?st)
  have reach: "(pool_step (server_tasks sample_libs calm_host (\<lambda>_. ''t'') sample_service order))\<^sup>*\<^sup>*
      ([], (server_new (EventStore_new ''s'' All), [])) ([] @ [Done ()], (s, h))"
    unfolding st [symmetric] by (rule pool_run) (auto simp: server_tasks_def request_tasks_def)
  have "snd (run ?p (server_new (EventStore_new ''s'' All), [])) = (s, h)"
    using st by (simp add: forget_def run_bindP case_prod_beta)
  then have end_state: "map_option e_ip_address (sv_registry s 1) = Some (pool_ip 0)" "drawn_ids h = [1]"
    using calm_create_vm by (auto simp: case_prod_beta)
  then obtain e where e: "sv_registry s 1 = Some e"
    by auto
  have "distinct (drawn_ids h)"
    using end_state by simp
  then have "e_id e = 1 \<and> e_ip_address e \<in> pool_range \<inter> leased (sv_allocator s)"
    using addresses_exclusive [OF order reach] e by blast
  then show ?thesis
    unfolding Let_def st fst_conv using e by blast
qed

end
