(* ===== verification/ServiceProps.thy ===== *)
theory ServiceProps
  imports CliCommands AgentExec ServerConcurrency
begin

text \<open>
  What the handlers of the control API do to the allocator and the registry when they run alone,
  and a command from the command line through the server and the agent to its result.
\<close>

subsection \<open>Effects on the allocator and the registry\<close>

text \<open>\<open>yields p a v Q\<close>: run alone from allocator \<open>a\<close> and registry \<open>v\<close>, the task ends with \<open>Q\<close> of its
  result and the two.\<close>

definition yields ::
  "'a task \<Rightarrow> ip_allocator \<Rightarrow> vm_registry \<Rightarrow> ('a \<Rightarrow> ip_allocator \<Rightarrow> vm_registry \<Rightarrow> bool) \<Rightarrow> bool" where
  "yields p a v Q \<longleftrightarrow>
     (\<forall>s h. sv_allocator s = a \<longrightarrow> sv_registry s = v \<longrightarrow>
        (case run p (s, h) of (x, (s', h')) \<Rightarrow> Q x (sv_allocator s') (sv_registry s')))"

text \<open>A task that leaves both alone.\<close>

definition quiet :: "'a task \<Rightarrow> bool" where
  "quiet p \<longleftrightarrow> (\<forall>a v. yields p a v (\<lambda>_ a' v'. a' = a \<and> v' = v))"

named_theorems quiet_intros "tasks that touch neither allocator nor registry"

lemma yields_Done: "Q x a v \<Longrightarrow> yields (Done x) a v Q"
  by (simp add: yields_def)

lemma yields_bind: "yields p a v R \<Longrightarrow> (\<And>x a' v'. R x a' v' \<Longrightarrow> yields (f x) a' v' Q) \<Longrightarrow> yields (bindP p f) a v Q"
  by (fastforce simp: yields_def run_bindP split: prod.splits)

lemma yields_quiet: "quiet p \<Longrightarrow> (\<And>x. yields (f x) a v Q) \<Longrightarrow> yields (bindP p f) a v Q"
  by (rule yields_bind [where R = "\<lambda>_ a' v'. a' = a \<and> v' = v"]) (auto simp: quiet_def)

lemma yields_weaken: "yields p a v R \<Longrightarrow> (\<And>x a' v'. R x a' v' \<Longrightarrow> Q x a' v') \<Longrightarrow> yields p a v Q"
  by (fastforce simp: yields_def split: prod.splits)

lemma quiet_Done [quiet_intros]: "quiet (Done x)"
  by (simp add: quiet_def yields_Done)

lemma quiet_bind [quiet_intros]: "quiet p \<Longrightarrow> (\<And>x. quiet (f x)) \<Longrightarrow> quiet (bindP p f)"
  unfolding quiet_def [of "bindP p f"] by (blast intro: yields_quiet quiet_def [THEN iffD1, rule_format])

lemma quiet_outside [quiet_intros]: "quiet (outside m)"
  by (auto simp: quiet_def yields_def outside_def io_simps split: prod.splits)

lemma quiet_on_events [quiet_intros]: "quiet (on_events f)"
  by (simp add: quiet_def yields_def on_events_def)

lemma quiet_reads [quiet_intros]: "quiet (reads f)"
  by (simp add: quiet_def yields_def reads_def)

lemma quiet_events [quiet_intros]:
  "quiet (vm_event X clock e i d)" "quiet (elapsed_ms host)" "quiet (finish_event X host clock e i ok d)"
  "quiet (vm_failed X clock i err step)"
  unfolding vm_event_def elapsed_ms_def finish_event_def vm_failed_def by (intro quiet_intros)+

lemma yields_allocate:
  "allocate a = (r, a') \<Longrightarrow> yields (f r) a' v Q \<Longrightarrow> yields (bindP task_allocate f) a v Q"
  by (simp add: yields_def task_allocate_def run_bindP)

lemma yields_release:
  "release ip a = (r, a') \<Longrightarrow> yields (f r) a' v Q \<Longrightarrow> yields (bindP (task_release ip) f) a v Q"
  by (simp add: yields_def task_release_def run_bindP)

lemma yields_insert:
  assumes "\<And>e. v i = Some e \<Longrightarrow> yields (f (Inl (anyhow (''VM with ID '' @ uuid_to_string X i @ '' already exists'')))) a v Q"
    and "v i = None \<Longrightarrow> yields (f (Inr ())) a (v(i \<mapsto> entry)) Q"
  shows "yields (bindP (task_insert X i entry) f) a v Q"
  using assms by (cases "v i") (auto simp: yields_def task_insert_def run_bindP registry_insert_def)

lemma yields_remove:
  assumes "\<And>e. v i = None \<Longrightarrow> yields (f (Inl e)) a v Q"
    and "\<And>entry. v i = Some entry \<Longrightarrow> yields (f (Inr entry)) a (v(i := None)) Q"
  shows "yields (bindP (task_remove X i) f) a v Q"
  using assms by (cases "v i") (auto simp: yields_def task_remove_def run_bindP registry_remove_def)

subsection \<open>create_vm is all or nothing\<close>

text \<open>What may come of a request: an error with registry and leases as before, except that an
  address is lost when the id drawn is already registered; or the VM is registered under a new
  id with an address that was free and is now leased, and the answer names both.\<close>

definition created ::
  "libs \<Rightarrow> ip_allocator \<Rightarrow> vm_registry \<Rightarrow> grpc_status + create_vm_response \<Rightarrow> ip_allocator \<Rightarrow> vm_registry \<Rightarrow> bool" where
  "created X a v r a' v' \<longleftrightarrow>
     pool_inv a' \<and>
     (case r of
        Inl st \<Rightarrow> v' = v \<and>
          (leased a' = leased a \<or>
           (\<exists>i \<in> dom v. \<exists>ip \<in> pool_range - leased a. leased a' = insert ip (leased a) \<and>
              st = Status Internal (''Failed to register VM: VM with ID '' @ uuid_to_string X i @ '' already exists'')))
      | Inr resp \<Rightarrow>
          (\<exists>i entry. v i = None \<and> v' = v(i \<mapsto> entry) \<and> e_id entry = i \<and>
             e_ip_address entry \<in> pool_range - leased a \<and> leased a' = insert (e_ip_address entry) (leased a) \<and>
             resp = \<lparr>cp_vm_id = uuid_to_string X i, cp_ip_address = show_ip (e_ip_address entry),
               cp_socket_path = path_display (socket_path_of X i)\<rparr>))"

lemma created_new:
  assumes "pool_inv a'" "leased a' = insert (e_ip_address entry) (leased a)"
    "e_ip_address entry \<in> pool_range - leased a" "v i = None" "e_id entry = i"
  shows "created X a v (Inr \<lparr>cp_vm_id = uuid_to_string X i, cp_ip_address = show_ip (e_ip_address entry),
    cp_socket_path = path_display (socket_path_of X i)\<rparr>) a' (v(i \<mapsto> entry))"
  unfolding created_def sum.case using assms by (intro conjI exI [of _ i] exI [of _ entry]) simp_all

lemma created_error: "pool_inv a' \<Longrightarrow> leased a' = leased a \<Longrightarrow> created X a v (Inl st) a' v"
  by (simp add: created_def)

lemma created_lost:
  assumes "pool_inv a'" "leased a' = insert ip (leased a)" "ip \<in> pool_range - leased a" "v i = Some e"
  shows "created X a v (Inl (Status Internal (''Failed to register VM: '' @ ''VM with ID '' @ uuid_to_string X i @ '' already exists''))) a' v"
  unfolding created_def sum.case using assms by (intro conjI disjI2 refl bexI [of _ i] bexI [of _ ip]) auto

lemma quiet_sum [quiet_intros]:
  "(\<And>e. quiet (f e)) \<Longrightarrow> (\<And>x. quiet (g x)) \<Longrightarrow> quiet (case r of Inl e \<Rightarrow> f e | Inr x \<Rightarrow> g x)"
  by (cases r) simp_all

lemma yields_register_vm:
  assumes pool: "pool_inv a'" "leased a' = insert ip (leased a)" "ip \<in> pool_range - leased a"
  shows "yields (register_vm X host clock req i ip m) a' v (created X a v)"
  unfolding register_vm_def Let_def
proof (intro yields_quiet quiet_intros yields_insert; simp only: sum.case; intro yields_quiet quiet_intros yields_Done)
  fix e
  assume "v i = Some e"
  with created_lost [OF pool] show "created X a v (Inl (Status Internal (''Failed to register VM: '' @
      err_display (anyhow (''VM with ID '' @ uuid_to_string X i @ '' already exists''))))) a' v"
    by simp
next
  fix t
  assume "v i = None"
  with pool show "created X a v (Inr \<lparr>cp_vm_id = uuid_to_string X i, cp_ip_address = show_ip ip,
      cp_socket_path = path_display (socket_path_of X i)\<rparr>) a' (v(i \<mapsto>
        \<lparr>e_id = i, e_manager = m, e_ip_address = ip, e_tap_name = tap_name_of X i, e_created_at = t,
         e_vcpu_count = ucast (unwrap_or 1 (cr_vcpu_count req)), e_mem_size_mib = unwrap_or 256 (cr_mem_size_mib req),
         e_vsock_uds_path = vsock_path_of X i\<rparr>))"
    using created_new [where entry = "\<lparr>e_id = i, e_manager = m, e_ip_address = ip, e_tap_name = tap_name_of X i,
         e_created_at = t, e_vcpu_count = ucast (unwrap_or 1 (cr_vcpu_count req)),
         e_mem_size_mib = unwrap_or 256 (cr_mem_size_mib req), e_vsock_uds_path = vsock_path_of X i\<rparr>"]
    by simp
qed

text \<open>Giving the new address back.\<close>

lemma yields_give_back:
  assumes pool: "pool_inv a'" "leased a' = insert ip (leased a)" "ip \<in> pool_range - leased a"
    and f: "\<And>r a''. pool_inv a'' \<Longrightarrow> leased a'' = leased a \<Longrightarrow> yields (f r) a'' v Q"
  shows "yields (bindP (task_release ip) f) a' v Q"
proof (cases "release ip a'")
  case (Pair r a'')
  then have "pool_inv a''" "leased a'' = leased a"
    using pool release_inv vm_pool.free_held [OF pool(1) Pair] by auto
  then show ?thesis
    using f Pair by (intro yields_release) auto
qed

lemma yields_boot_vm:
  assumes pool: "pool_inv a'" "leased a' = insert ip (leased a)" "ip \<in> pool_range - leased a"
  shows "yields (boot_vm X host clock svc req i ip) a' v (created X a v)"
  unfolding boot_vm_def Let_def
proof (rule yields_quiet, rule quiet_intros, simp only: case_prod_unfold)
  fix x :: "(anyhow + unit) \<times> vm_manager"
  let ?failed = "\<lambda>e. bindP (outside (NetworkManager_delete_tap host (tap_name_of X i) ip)) (\<lambda>_.
      bindP (task_release ip) (\<lambda>_. bindP (vm_failed X clock (uuid_to_string X i) e ''firecracker_start'') (\<lambda>_.
      bindP (outside (\<lambda>h. (fst (drop_manager host (snd x, h)), snd (snd (drop_manager host (snd x, h)))))) (\<lambda>_.
      Done (Inl (Status Internal (''Failed to start VM: '' @ err_display e)))))))"
  have "yields (?failed e) a' v (created X a v)" for e
    by (intro yields_quiet [OF quiet_outside] yields_give_back [OF pool])
      (intro yields_quiet quiet_intros yields_Done created_error)
  moreover have "yields (bindP (vm_event X clock ev (uuid_to_string X i) d) (\<lambda>_. register_vm X host clock req i ip (snd x)))
      a' v (created X a v)" for ev d
    by (intro yields_quiet quiet_intros yields_register_vm [OF pool])
  ultimately show "yields (case fst x of Inl e \<Rightarrow> ?failed e
      | Inr _ \<Rightarrow> bindP (vm_event X clock ''vm.create.firecracker_started'' (uuid_to_string X i)
           [(''socket_path'', JString (path_display (socket_path_of X i))),
            (''vsock_uds_path'', JString (vsock_path_of X i))]) (\<lambda>_. register_vm X host clock req i ip (snd x)))
      a' v (created X a v)"
    by (cases "fst x") simp_all
qed

lemma yields_create_vm:
  assumes "pool_inv a"
  shows "yields (create_vm X host clock svc req) a v (created X a v)"
proof (cases "allocate a")
  case (Pair r a')
  show ?thesis
  proof (cases r)
    case (Inl e)
    then have "a' = a"
      using vm_pool.alloc_full [OF assms] Pair by simp
    then show ?thesis
      using assms Pair Inl unfolding create_vm_def Let_def
      by (intro yields_quiet [OF quiet_outside] yields_quiet [OF quiet_events(1)] yields_allocate [OF Pair])
        (simp, intro yields_quiet quiet_intros yields_Done created_error; simp)
  next
    case (Inr ip)
    then have pool: "pool_inv a'" "leased a' = insert ip (leased a)" "ip \<in> pool_range - leased a"
      using vm_pool.alloc_invar vm_pool.alloc_held vm_pool.alloc_new assms Pair by blast+
    have tap: "yields (case tap of
         Inl e \<Rightarrow> bindP (task_release ip) (\<lambda>_. bindP (vm_failed X clock j e ''tap_creation'') (\<lambda>_. Done (Inl (st e))))
       | Inr _ \<Rightarrow> bindP (vm_event X clock ev j d) (\<lambda>_. boot_vm X host clock svc req i ip)) a' v (created X a v)"
      for tap :: "anyhow + unit" and i j ev d st
      by (cases tap; simp; intro yields_give_back [OF pool] yields_quiet quiet_intros yields_Done created_error
          yields_boot_vm [OF pool])
    show ?thesis
      unfolding create_vm_def Let_def
      by (intro yields_quiet [OF quiet_outside] yields_quiet [OF quiet_events(1)] yields_allocate [OF Pair])
        (simp only: Inr sum.case, intro yields_quiet [OF quiet_events(1)] yields_quiet [OF quiet_outside] tap)
  qed
qed

lemma yieldsD:
  assumes "yields p (sv_allocator s) (sv_registry s) Q" and "run p (s, h) = (x, (s', h'))"
  shows "Q x (sv_allocator s') (sv_registry s')"
proof -
  have "case run p (s, h) of (x, (s', h')) \<Rightarrow> Q x (sv_allocator s') (sv_registry s')"
    using assms(1) by (simp add: yields_def)
  then show ?thesis
    using assms(2) by simp
qed

text \<open>C6: Creating a VM is all or nothing. An error leaves the registry and the set of leased addresses
  as they were, with one exception: if the id drawn is already registered, the address is lost. A
  success registers one new VM, with an address that was free and is now leased, and answers with
  its id, address and socket. Whatever the host does, the handler ends.\<close>

theorem create_vm_all_or_nothing:
  assumes "pool_inv (sv_allocator s)"
  shows "case run (create_vm X host clock svc req) (s, h) of (r, (s', h')) \<Rightarrow>
    created X (sv_allocator s) (sv_registry s) r (sv_allocator s') (sv_registry s')"
  using yieldsD [OF yields_create_vm [OF assms]] by (auto split: prod.splits)

lemma pool_inv_server_new: "pool_inv (sv_allocator (server_new es))"
  using filled_inv [of 0] by (simp add: server_new_def filled_0)

theorem create_vm_all_or_nothing_witness:
  "case run (create_vm sample_libs calm_host (\<lambda>_. ''t'') sample_service sample_request) (server_new (EventStore_new ''s'' All), []) of
     (r, (s', h')) \<Rightarrow> is_ok r \<and>
       created sample_libs IpAllocator_new Map.empty r (sv_allocator s') (sv_registry s')"
  using create_vm_all_or_nothing [OF pool_inv_server_new [of "EventStore_new ''s'' All"], of sample_libs calm_host "\<lambda>_. ''t''"
      sample_service sample_request "[]"] calm_create_vm
  by (auto simp: server_new_def VmRegistry_new_def split: prod.splits)

subsection \<open>delete_vm undoes create_vm\<close>

definition deleted ::
  "libs \<Rightarrow> string \<Rightarrow> ip_allocator \<Rightarrow> vm_registry \<Rightarrow> grpc_status + bool \<Rightarrow> ip_allocator \<Rightarrow> vm_registry \<Rightarrow> bool" where
  "deleted X req_vm_id a v r a' v' \<longleftrightarrow>
     (case result_ok (uuid_parse X req_vm_id) of
        None \<Rightarrow> (\<exists>e. r = Inl e) \<and> a' = a \<and> v' = v
      | Some i \<Rightarrow>
          (case v i of
             None \<Rightarrow> (\<exists>e. r = Inl e) \<and> a' = a \<and> v' = v
           | Some entry \<Rightarrow> r = Inr True \<and> v' = v(i := None) \<and> leased a' = leased a - {e_ip_address entry}))"

lemma yields_delete_vm:
  assumes "pool_inv a"
  shows "yields (delete_vm X host clock req_vm_id) a v (deleted X req_vm_id a v)"
proof (cases "uuid_parse X req_vm_id")
  case (Inl e)
  then show ?thesis
    by (simp add: delete_vm_def parse_vm_id_def yields_Done deleted_def)
next
  case (Inr i)
  have rest: "yields (bindP (outside m1) (\<lambda>manager. bindP (outside m2) (\<lambda>_. bindP (task_release (e_ip_address entry))
      (\<lambda>_. bindP (outside m3) (\<lambda>_. bindP (finish_event X host clock ev j True d) (\<lambda>_. bindP (outside (m4 manager)) (\<lambda>_.
      Done (Inr True)))))))) a (v(i := None)) (deleted X req_vm_id a v)"
    if entry: "v i = Some entry" for entry ev j d and m1 :: "vm_manager sys" and m2 :: "(anyhow + unit) sys"
      and m3 :: "sys_reply sys" and m4 :: "vm_manager \<Rightarrow> unit sys"
  proof (cases "release (e_ip_address entry) a")
    case (Pair r a')
    then have "leased a' = leased a - {e_ip_address entry}"
      using vm_pool.free_held [OF assms Pair] by simp
    then show ?thesis
      using Inr entry
      by (intro yields_quiet [OF quiet_outside] yields_release [OF Pair] yields_quiet quiet_intros yields_Done)
        (simp add: deleted_def)
  qed
  show ?thesis
    using Inr unfolding delete_vm_def parse_vm_id_def
    by (simp add: Let_def)
      (intro yields_quiet [OF quiet_events(1)] yields_remove; simp add: rest yields_Done deleted_def)
qed

text \<open>C26: Deleting what was created restores the state: after a successful create, deleting the VM by the
  id in the answer succeeds, and registry and leased addresses are what they were before, whatever
  the host does in between and even if stopping the machine fails.\<close>

theorem create_delete_roundtrip:
  assumes "pool_inv (sv_allocator s)" and "\<forall>i. uuid_parse X (uuid_to_string X i) = Inr i"
    and "run (create_vm X host clock svc req) (s, h) = (Inr resp, (s1, h1))"
  shows "case run (delete_vm X host' clock' (cp_vm_id resp)) (s1, h2) of (r, (s2, h3)) \<Rightarrow>
    r = Inr True \<and> sv_registry s2 = sv_registry s \<and> leased (sv_allocator s2) = leased (sv_allocator s)"
proof -
  have "created X (sv_allocator s) (sv_registry s) (Inr resp) (sv_allocator s1) (sv_registry s1)"
    using yieldsD [OF yields_create_vm [OF assms(1)] assms(3)] .
  then obtain i entry where new: "pool_inv (sv_allocator s1)" "sv_registry s i = None"
      "sv_registry s1 = (sv_registry s)(i \<mapsto> entry)" "e_ip_address entry \<notin> leased (sv_allocator s)"
      "leased (sv_allocator s1) = insert (e_ip_address entry) (leased (sv_allocator s))" "cp_vm_id resp = uuid_to_string X i"
    unfolding created_def by auto
  obtain r s2 h3 where run: "run (delete_vm X host' clock' (cp_vm_id resp)) (s1, h2) = (r, (s2, h3))"
    by (metis prod.collapse)
  have "deleted X (uuid_to_string X i) (sv_allocator s1) (sv_registry s1) r (sv_allocator s2) (sv_registry s2)"
    using yieldsD [OF yields_delete_vm [OF new(1)] run] new(6) by simp
  then show ?thesis
    using run new assms(2) by (auto simp: deleted_def)
qed

text \<open>A library whose identifiers survive printing and parsing.\<close>

definition unary_libs :: libs where
  "unary_libs = sample_libs\<lparr>uuid_to_string := (\<lambda>u. replicate (unat u) CHR ''a''), uuid_parse := (\<lambda>s. Inr (of_nat (length s)))\<rparr>"

lemma calm_create_unary:
  "is_ok (fst (run (create_vm unary_libs calm_host (\<lambda>_. ''t'') sample_service sample_request) (server_new (EventStore_new ''s'' All), [])))"
proof -
  have names: "tap_name_of unary_libs i = tap_name_of sample_libs i" "vsock_path_of unary_libs i = vsock_path_of sample_libs i"
    "socket_path_of unary_libs i = socket_path_of sample_libs i" for i
    by (simp_all add: tap_name_of_def vsock_path_of_def socket_path_of_def unary_libs_def)
  show ?thesis
    by (simp add: calm_create_defs calm_simps allocate_first only_network names)
qed

theorem create_delete_roundtrip_witness:
  "\<exists>resp s1 h1. run (create_vm unary_libs calm_host (\<lambda>_. ''t'') sample_service sample_request)
       (server_new (EventStore_new ''s'' All), []) = (Inr resp, (s1, h1)) \<and>
     (case run (delete_vm unary_libs calm_host (\<lambda>_. ''t'') (cp_vm_id resp)) (s1, h1) of (r, (s2, h3)) \<Rightarrow>
        r = Inr True \<and> sv_registry s2 = Map.empty)"
proof -
  obtain resp s1 h1 where run: "run (create_vm unary_libs calm_host (\<lambda>_. ''t'') sample_service sample_request)
      (server_new (EventStore_new ''s'' All), []) = (Inr resp, (s1, h1))"
    using calm_create_unary by (metis is_ok_def prod.collapse sum.case_eq_if sum.collapse(2))
  have "\<forall>i. uuid_parse unary_libs (uuid_to_string unary_libs i) = Inr i"
    by (simp add: unary_libs_def)
  from create_delete_roundtrip [OF pool_inv_server_new this run, of calm_host "\<lambda>_. ''t''" h1] run show ?thesis
    by (auto simp: server_new_def VmRegistry_new_def split: prod.splits)
qed

subsection \<open>From the command line to the guest and back\<close>

text \<open>The agent of a VM as its server sees it: the answer of the agent's service to a request.\<close>

definition agent_reply :: "(os_command \<Rightarrow> command_end) \<Rightarrow> exec_request \<Rightarrow> sys_reply" where
  "agent_reply os rq =
     (case service_exec os rq of Inr resp \<Rightarrow> RExec resp | Inl _ \<Rightarrow> RErr (IoError OtherKind ''status''))"

lemma agent_exec_reply:
  assumes "host h (AgentExec rq) = agent_reply os rq"
  shows "\<exists>resp. run_command os rq = Inr resp \<and> agent_exec host rq h = (Inr resp, h @ [(AgentExec rq, RExec resp)])"
  using assms
  by (auto simp: agent_exec_def agent_reply_def service_exec_def run_command_def reply_exec_def io_simps
      split: command_end.splits)

lemma exec_vm_answers:
  assumes "uuid_parse X (xr_vm_id req) = Inr i" and "sv_registry s i = Some entry"
    and connect: "agent_connect host (e_vsock_uds_path entry) h = (Inr (), h1)"
    and agent: "\<forall>g rq. host g (AgentExec rq) = agent_reply os rq"
  shows "\<exists>resp. run_command os \<lparr>ex_command = xr_command req, ex_args = xr_args req, ex_env = xr_env req,
      ex_working_dir = xr_working_dir req\<rparr> = Inr resp \<and> fst (run (exec_vm X host clock req) (s, h)) = Inr resp"
proof -
  let ?rq = "\<lparr>ex_command = xr_command req, ex_args = xr_args req, ex_env = xr_env req, ex_working_dir = xr_working_dir req\<rparr>"
  obtain resp where resp: "run_command os ?rq = Inr resp" "agent_exec host ?rq h1 = (Inr resp, h1 @ [(AgentExec ?rq, RExec resp)])"
    using agent_exec_reply agent by blast
  then show ?thesis
    using assms(1,2) connect
    by (simp add: exec_vm_def parse_vm_id_def get_vsock_path_def reads_def outside_def run_bindP io_simps case_prod_beta)
qed

text \<open>C7: A command through the whole system: if the VM is registered, its agent reachable and the agent
  answers as its service does, then \<^verbatim>\<open>clawpot exec\<close> behaves like the command run in the guest. It
  writes the command's standard output and error and exits with its code; it exits with -1 and a
  message if the command was killed, could not be run or took longer than the agent allows.\<close>

theorem exec_end_to_end:
  assumes "uuid_parse X vm_id = Inr i" and "sv_registry s i = Some entry"
    and "agent_connect host (e_vsock_uds_path entry) h = (Inr (), h1)"
    and "\<forall>g rq. host g (AgentExec rq) = agent_reply os rq"
    and "gc_exec_vm client = (\<lambda>rq. fst (run (exec_vm X host clock rq) (s, h)))"
  shows "cli_exec status_text (Inr ()) (Inr ()) client vm_id (cmd # args) =
    (case os \<lparr>oc_program = cmd, oc_args = args, oc_current_dir = None, oc_envs = []\<rparr> of
       Output code out err \<Rightarrow> (Exited (unwrap_or (- 1) code), out, err)
     | Failed e \<Rightarrow> (Exited (- 1), [], bytes_of (''Failed to execute command: '' @ io_message e @ [CHR 0x0A]))
     | TimedOut \<Rightarrow> (Exited (- 1), [], bytes_of (''Command timed out after 300 seconds'' @ [CHR 0x0A])))"
proof -
  let ?req = "\<lparr>xr_vm_id = vm_id, xr_command = cmd, xr_args = args, xr_env = [], xr_working_dir = []\<rparr>"
  obtain resp where resp: "run_command os \<lparr>ex_command = cmd, ex_args = args, ex_env = [], ex_working_dir = []\<rparr> = Inr resp"
      "gc_exec_vm client ?req = Inr resp"
    using exec_vm_answers [of X ?req i s entry host h h1 os clock] assms by auto
  have "show_nat 300 = ''300''"
    by code_simp
  then show ?thesis
    using resp by (auto simp: cli_exec_def run_command_def command_of_def Let_def split: command_end.splits)
qed

definition echo_host :: sys_host where
  "echo_host h c =
     (case c of
        StreamReadLine \<Rightarrow> RText ''OK 10051''
      | AgentExec rq \<Rightarrow> agent_reply (\<lambda>c. Output (Some 3) (bytes_of (oc_program c)) []) rq
      | _ \<Rightarrow> ROk)"

theorem exec_end_to_end_witness:
  "cli_exec (\<lambda>_. []) (Inr ()) (Inr ())
     \<lparr>gc_create_vm = (\<lambda>_. Inr \<lparr>cp_vm_id = [], cp_ip_address = [], cp_socket_path = []\<rparr>), gc_delete_vm = (\<lambda>_. Inr True),
      gc_list_v_ms = Inr [],
      gc_exec_vm = (\<lambda>rq. fst (run (exec_vm sample_libs echo_host (\<lambda>_. ''t'') rq)
        ((server_new (EventStore_new ''s'' All))\<lparr>sv_registry := [1 \<mapsto> \<lparr>e_id = 1, e_manager = VmManager_new ''m'', e_ip_address = V4 7,
           e_tap_name = ''t'', e_created_at = 0, e_vcpu_count = 1, e_mem_size_mib = 1, e_vsock_uds_path = ''v''\<rparr>]\<rparr>, [])))\<rparr>
     ''id'' [''pwd''] = (Exited 3, bytes_of ''pwd'', [])"
proof -
  have "agent_connect echo_host ''v'' [] = (Inr (), snd (agent_connect echo_host ''v'' []))"
    by (simp add: agent_connect_def vsock_connector_def echo_host_def reply_unit_def reply_text_def to_anyhow_def
        starts_with_def io_simps)
  then show ?thesis
    by (subst exec_end_to_end [where host = echo_host and i = 1 and h = "[]" and X = sample_libs
          and os = "\<lambda>c. Output (Some 3) (bytes_of (oc_program c)) []" and clock = "\<lambda>_. ''t''"])
      (auto simp: sample_libs_def echo_host_def dest: arg_cong [of _ _ length])
qed

end
