(* ===== verification/Shutdown.thy ===== *)
theory Shutdown
  imports ServiceProps
begin

text \<open>
  What the graceful shutdown (\<open>shutdown_signal\<close>) does when no request runs beside it: to the registry,
  to the leased addresses and to the processes of the machines.
\<close>

subsection \<open>Effects of a task, with the processes it kills\<close>

text \<open>\<open>stops p a v Q\<close>: run alone from allocator \<open>a\<close> and registry \<open>v\<close>, the task ends with \<open>Q\<close> of its
  result, the two, and the processes killed on the way, in order.\<close>

definition stops ::
  "'a task \<Rightarrow> ip_allocator \<Rightarrow> vm_registry \<Rightarrow> ('a \<Rightarrow> ip_allocator \<Rightarrow> vm_registry \<Rightarrow> nat list \<Rightarrow> bool) \<Rightarrow> bool" where
  "stops p a v Q \<longleftrightarrow>
     (\<forall>s h. sv_allocator s = a \<longrightarrow> sv_registry s = v \<longrightarrow>
        (\<exists>x s' k. run p (s, h) = (x, (s', h @ k)) \<and> Q x (sv_allocator s') (sv_registry s') (killed k)))"

definition calm :: "'a task \<Rightarrow> bool" where
  "calm p \<longleftrightarrow> (\<forall>a v. stops p a v (\<lambda>_ a' v' ps. a' = a \<and> v' = v \<and> ps = []))"

named_theorems calm_intros "tasks that touch neither allocator nor registry nor any process"

lemma stopsE:
  assumes "stops p (sv_allocator s) (sv_registry s) Q"
  obtains x s' k where "run p (s, h) = (x, (s', h @ k))" "Q x (sv_allocator s') (sv_registry s') (killed k)"
  using assms unfolding stops_def by blast

lemma stops_Done: "Q x a v [] \<Longrightarrow> stops (Done x) a v Q"
  by (auto simp: stops_def killed_def map_filter_def intro!: exI [of _ "[]"])

lemma stops_bind:
  assumes "stops p a v R"
    and "\<And>x a' v' ps. R x a' v' ps \<Longrightarrow> stops (f x) a' v' (\<lambda>y b w qs. Q y b w (ps @ qs))"
  shows "stops (bindP p f) a v Q"
  unfolding stops_def
proof (intro allI impI)
  fix s :: server and h
  assume s: "sv_allocator s = a" "sv_registry s = v"
  then obtain x s1 k1 where p: "run p (s, h) = (x, (s1, h @ k1))" "R x (sv_allocator s1) (sv_registry s1) (killed k1)"
    using stopsE [of p s R h] assms(1) by blast
  obtain y s2 k2 where "run (f x) (s1, h @ k1) = (y, (s2, (h @ k1) @ k2))"
    "Q y (sv_allocator s2) (sv_registry s2) (killed k1 @ killed k2)"
    using assms(2) [OF p(2)] by (rule stopsE)
  then show "\<exists>x s' k. run (bindP p f) (s, h) = (x, (s', h @ k)) \<and> Q x (sv_allocator s') (sv_registry s') (killed k)"
    using p(1) by (auto simp: run_bindP)
qed

lemma stops_weaken: "stops p a v R \<Longrightarrow> (\<And>x a' v' ps. R x a' v' ps \<Longrightarrow> Q x a' v' ps) \<Longrightarrow> stops p a v Q"
  unfolding stops_def by metis

lemma stops_calm: "calm p \<Longrightarrow> (\<And>x. stops (f x) a v Q) \<Longrightarrow> stops (bindP p f) a v Q"
  by (rule stops_bind [where R = "\<lambda>_ a' v' ps. a' = a \<and> v' = v \<and> ps = []"]) (auto simp: calm_def)

lemma calm_on_events [calm_intros]: "calm (on_events f)" "calm (server_log X clock i m)"
  by (auto simp: calm_def stops_def on_events_def server_log_def killed_def map_filter_def intro!: exI [of _ "[]"])

lemma calm_reads: "stops (f (g v)) a v Q \<Longrightarrow> stops (bindP (reads g) f) a v Q"
  by (simp add: stops_def reads_def run_bindP)

lemma calm_unowned [calm_intros]: "only m non_child \<Longrightarrow> calm (outside m)"
  unfolding calm_def stops_def
proof (intro allI impI)
  fix a v and s :: server and h
  assume m: "only m non_child" and s: "sv_allocator s = a" "sv_registry s = v"
  obtain k where "snd (m h) = h @ k" "fst ` set k \<subseteq> non_child"
    using m unfolding only_def traces_def by blast
  then show "\<exists>x s' k. run (outside m) (s, h) = (x, (s', h @ k)) \<and>
      sv_allocator s' = a \<and> sv_registry s' = v \<and> killed k = []"
    using s children_non_child by (auto simp: outside_def lift_io_def split: prod.splits)
qed

lemma non_child_network:
  "only (NetworkManager_delete_tap host t ip) non_child" "only (remove_proxy_rules host b) non_child"
proof -
  have "only (delete_all host rs) non_child" for rs
    by (induction host rs rule: delete_all.induct) (auto intro!: only_intros simp: non_child_def)
  then show "only (remove_proxy_rules host b) non_child"
    unfolding remove_proxy_rules_def by (auto intro!: only_intros simp: non_child_def)
qed (auto simp: NetworkManager_delete_tap_def remove_source_ip_rule_def delete_tap_def non_child_def intro!: only_intros)

subsection \<open>One VM\<close>

definition process_of :: "vm_entry \<Rightarrow> nat list" where
  "process_of e = (case firecracker_process (e_manager e) of None \<Rightarrow> [] | Some p \<Rightarrow> [p])"

lemma stops_stop:
  "stops (outside (\<lambda>h. case stop X host (e_manager e, h) of (_, (m, h')) \<Rightarrow> (m, h'))) a v
     (\<lambda>m a' v' ps. a' = a \<and> v' = v \<and> ps = process_of e \<and> firecracker_process m = None)"
  unfolding stops_def
proof (intro allI impI)
  fix s :: server and h
  assume s: "sv_allocator s = a" "sv_registry s = v"
  obtain r m k where "stop X host (e_manager e, h) = (r, (m, h @ k))"
    "firecracker_process m = None" "killed k = process_of e"
    using straces_stop [of X host "e_manager e"] unfolding straces_def process_of_def by metis
  then show "\<exists>x s' k. run (outside (\<lambda>h. case stop X host (e_manager e, h) of (_, (m, h')) \<Rightarrow> (m, h'))) (s, h) = (x, (s', h @ k)) \<and>
      sv_allocator s' = a \<and> sv_registry s' = v \<and> killed k = process_of e \<and> firecracker_process x = None"
    using s by (auto simp: outside_def lift_io_def)
qed

lemma calm_drop:
  assumes "firecracker_process m = None"
  shows "calm (outside (\<lambda>h. case drop_manager host (m, h) of (u, (_, h')) \<Rightarrow> (u, h')))"
proof (rule calm_unowned)
  have "(\<lambda>h. case drop_manager host (m, h) of (u, (_, h')) \<Rightarrow> (u, h')) = remove_socket_file host (socket_path m)"
    using assms by (auto simp: fun_eq_iff drop_manager_def io_simps split: prod.splits)
  then show "only (\<lambda>h. case drop_manager host (m, h) of (u, (_, h')) \<Rightarrow> (u, h')) non_child"
    unfolding remove_socket_file_def by (auto intro!: only_intros)
qed

lemma stops_cleanup_vm:
  assumes pool: "pool_inv a" and e: "v i = Some e"
  shows "stops (cleanup_vm X host clock (entry_row i e)) a v (\<lambda>_ a' v' ps.
    pool_inv a' \<and> v' = v(i := None) \<and> leased a' = leased a - {e_ip_address e} \<and> ps = process_of e)"
    (is "stops _ a v ?Q")
proof (cases "release (e_ip_address e) a")
  case (Pair r a')
  then have a': "pool_inv a'" "leased a' = leased a - {e_ip_address e}"
    using release_inv [OF pool] vm_pool.free_held [OF pool Pair] by auto
  have remove: "stops (f (Inr e)) a (v(i := None)) ?Q \<Longrightarrow> stops (bindP (task_remove X i) f) a v ?Q" for f :: "_ \<Rightarrow> unit task"
    using e by (simp add: stops_def task_remove_def run_bindP registry_remove_def)
  have release: "stops (f r) a' w Q \<Longrightarrow> stops (bindP (task_release (e_ip_address e)) f) a w Q" for f :: "_ \<Rightarrow> unit task" and w Q
    using Pair by (simp add: stops_def task_release_def run_bindP)
  have rest: "stops (bindP (outside (NetworkManager_delete_tap host t (e_ip_address e))) (\<lambda>_. bindP (task_release (e_ip_address e)) (\<lambda>_.
      bindP (server_log X clock j l) (\<lambda>_. outside (\<lambda>h. case drop_manager host (m, h) of (u, (_, h')) \<Rightarrow> (u, h'))))))
      a (v(i := None)) (\<lambda>y b w qs. ?Q y b w (process_of e @ qs))" if "firecracker_process m = None" for m t j l
    by (intro stops_calm [OF calm_unowned [OF non_child_network(1)]] release stops_calm [OF calm_on_events(2)]
        stops_weaken [OF calm_drop [OF that, unfolded calm_def, rule_format]]) (use a' in auto)
  show ?thesis
    unfolding cleanup_vm_def entry_row_def prod.case
    by (rule stops_calm [OF calm_on_events(2)], rule remove, simp only: sum.case)
      (rule stops_bind [OF stops_stop], use rest in auto)
qed

subsection \<open>The whole shutdown\<close>

lemma stops_cleanup_all:
  assumes "distinct is" "set is \<subseteq> dom v" "pool_inv a"
  shows "stops (cleanup_all X host clock (map (\<lambda>i. entry_row i (the (v i))) is)) a v (\<lambda>_ a' v' ps.
    pool_inv a' \<and> v' = v |` (- set is) \<and> leased a' = leased a - (\<lambda>i. e_ip_address (the (v i))) ` set is \<and>
    ps = concat (map (\<lambda>i. process_of (the (v i))) is))"
  using assms
proof (induction "is" arbitrary: a v)
  case Nil
  then show ?case
    by (simp add: stops_Done)
next
  case (Cons i "is")
  then obtain e where e: "v i = Some e"
    by auto
  have same: "(v(i := None)) j = v j" if "j \<in> set is" for j
    using Cons.prems(1) that by auto
  then have rows: "map (\<lambda>j. entry_row j (the ((v(i := None)) j))) is = map (\<lambda>j. entry_row j (the (v j))) is"
    "map (\<lambda>j. process_of (the ((v(i := None)) j))) is = map (\<lambda>j. process_of (the (v j))) is"
    "(\<lambda>j. e_ip_address (the ((v(i := None)) j))) ` set is = (\<lambda>j. e_ip_address (the (v j))) ` set is"
    by (auto intro!: map_cong image_cong)
  have sub: "set is \<subseteq> dom (v(i := None))"
    using Cons.prems by auto
  have rest: "(v(i := None)) |` (- set is) = v |` (- set (i # is))"
    by (auto simp: restrict_map_def)
  have IH: "stops (cleanup_all X host clock (map (\<lambda>i. entry_row i (the (v i))) is)) a' (v(i := None)) (\<lambda>_ b w qs.
      pool_inv b \<and> w = v |` (- set (i # is)) \<and> leased b = leased a' - (\<lambda>i. e_ip_address (the (v i))) ` set is \<and>
      qs = concat (map (\<lambda>i. process_of (the (v i))) is))" if "pool_inv a'" for a'
    using Cons.IH [where v = "v(i := None)" and a = a', OF _ sub that, unfolded rows rest] Cons.prems(1)
    by (simp only: distinct.simps not_False_eq_True)
  have first: "cleanup_all X host clock (map (\<lambda>i. entry_row i (the (v i))) (i # is)) =
      bindP (cleanup_vm X host clock (entry_row i e)) (\<lambda>_. cleanup_all X host clock (map (\<lambda>i. entry_row i (the (v i))) is))"
    using e by simp
  show ?case
    unfolding first
  proof (rule stops_bind [OF stops_cleanup_vm [of a v i e, OF Cons.prems(3) e]], elim conjE)
    fix u :: unit and a' v' ps
    assume a': "pool_inv a'" "v' = v(i := None)" "leased a' = leased a - {e_ip_address e}" "ps = process_of e"
    show "stops (cleanup_all X host clock (map (\<lambda>i. entry_row i (the (v i))) is)) a' v' (\<lambda>y b w qs.
        pool_inv b \<and> w = v |` (- set (i # is)) \<and> leased b = leased a - (\<lambda>i. e_ip_address (the (v i))) ` set (i # is) \<and>
        ps @ qs = concat (map (\<lambda>i. process_of (the (v i))) (i # is)))"
      unfolding a'(2)
      by (rule stops_weaken [OF IH [OF a'(1)]]) (use a'(3,4) e in auto)
  qed
qed

lemma stops_cleanup_server:
  assumes "pool_inv a" "iterates (order v) v"
  shows "stops (cleanup_server X host clock order) a v (\<lambda>_ a' v' ps.
    v' = Map.empty \<and> leased a' = leased a - registry_ips v \<and> ps = concat (map (\<lambda>i. process_of (the (v i))) (order v)))"
    (is "stops _ a v ?Q")
proof -
  have ips: "(\<lambda>i. e_ip_address (the (v i))) ` set (order v) = registry_ips v"
    using assms(2) by (force simp: iterates_def registry_ips_def ran_def image_iff)
  have all: "stops (cleanup_all X host clock (registry_list (order v) v)) a v ?Q"
    unfolding registry_list_def
    by (rule stops_weaken [OF stops_cleanup_all]) (use assms ips in \<open>auto simp: iterates_def restrict_map_def\<close>)
  have cancel: "calm (outside (map_io (\<lambda>_. ()) (ask host CancelProxies)))"
    by (intro calm_intros only_intros) (simp add: non_child_def)
  have rest: "stops (bindP (server_log X clock j l) (\<lambda>_. bindP (outside (map_io (\<lambda>_. ()) (ask host CancelProxies))) (\<lambda>_.
      bindP (outside (remove_proxy_rules host bridge_name)) (\<lambda>_. server_log X clock j' l')))) a' v' (\<lambda>y b w qs. ?Q y b w (ps @ qs))"
    if "?Q () a' v' ps" for a' v' ps j l j' l'
    by (intro stops_calm calm_intros cancel non_child_network(2)
        stops_weaken [OF calm_on_events(2) [unfolded calm_def, rule_format]]) (use that in auto)
  show ?thesis
    unfolding cleanup_server_def
    by (rule stops_calm [OF calm_on_events(2)], rule calm_reads, rule stops_calm [OF calm_on_events(2)])
      (rule stops_bind [OF all], rule rest, simp)
qed

text \<open>C11: A graceful shutdown ends every VM. On SIGINT or SIGTERM, when no request runs beside it,
  every VM is removed from the registry, its address is given back, and exactly the processes of the
  registered machines are killed, each once, whatever the host answers. Only if listening for SIGINT
  fails does the handler return without doing anything, and the server stops with its VMs running.\<close>

theorem shutdown_cleans_up:
  assumes "pool_inv (sv_allocator s)" and "iterates (order (sv_registry s)) (sv_registry s)"
  shows "case run (shutdown_signal X host clock order (Inr ()) wake) (s, h) of (r, (s', h')) \<Rightarrow>
    r = Ret () \<and> (\<exists>k. h' = h @ k \<and>
      (case wake of
         CtrlC (Inl _) \<Rightarrow> s' = s \<and> k = []
       | _ \<Rightarrow> sv_registry s' = Map.empty \<and>
           leased (sv_allocator s') = leased (sv_allocator s) - registry_ips (sv_registry s) \<and>
           killed k = List.map_filter (\<lambda>i. firecracker_process (e_manager (the (sv_registry s i)))) (order (sv_registry s))))"
proof -
  have pids: "concat (map (\<lambda>i. process_of (the (v i))) is) =
      List.map_filter (\<lambda>i. firecracker_process (e_manager (the (v i)))) is" for v "is"
    by (induction "is") (auto simp: process_of_def map_filter_def split: option.splits)
  have signal: "stops (bindP (server_log X clock None l) (\<lambda>_. bindP (cleanup_server X host clock order) (\<lambda>_. Done (Ret ()))))
      (sv_allocator s) (sv_registry s) (\<lambda>r a' v' ps. r = Ret () \<and> v' = Map.empty \<and>
        leased a' = leased (sv_allocator s) - registry_ips (sv_registry s) \<and>
        ps = List.map_filter (\<lambda>i. firecracker_process (e_manager (the (sv_registry s i)))) (order (sv_registry s)))" for l
    by (rule stops_calm [OF calm_on_events(2)], rule stops_bind [OF stops_cleanup_server [of _ order, OF assms]])
      (rule stops_Done, simp add: pids)
  show ?thesis
  proof (cases "\<exists>e. wake = CtrlC (Inl e)")
    case True
    then show ?thesis
      by (auto simp: shutdown_signal_def)
  next
    case False
    then have "wake = SigTerm \<or> wake = CtrlC (Inr ())"
      by (metis (full_types) shutdown_wake.exhaust sumE old.unit.exhaust)
    then obtain l where l: "shutdown_signal X host clock order (Inr ()) wake =
        bindP (server_log X clock None l) (\<lambda>_. bindP (cleanup_server X host clock order) (\<lambda>_. Done (Ret ())))"
      by (auto simp: shutdown_signal_def)
    show ?thesis
      using False by (rule_tac stopsE [OF signal [of l], of h]) (auto simp: l split: shutdown_wake.split sum.split)
  qed
qed

text \<open>One VM with a process: it is killed, the address is free again.\<close>

definition sample_server :: server where
  "sample_server =
     (server_new (EventStore_new ''s'' All))\<lparr>sv_allocator := snd (allocate IpAllocator_new),
       sv_registry := [1 \<mapsto> (sample_entry 1 0xC0A86402)\<lparr>e_manager := (VmManager_new ''/tmp/fc.sock'')\<lparr>firecracker_process := Some 42\<rparr>\<rparr>]\<rparr>"

theorem shutdown_cleans_up_witness:
  "case run (shutdown_signal sample_libs calm_host (\<lambda>_. ''t'') (\<lambda>_. [1]) (Inr ()) SigTerm) (sample_server, []) of (r, (s', h')) \<Rightarrow>
     r = Ret () \<and> sv_registry s' = Map.empty \<and> leased (sv_allocator s') = {} \<and> killed h' = [42]"
proof -
  have ip: "V4 0xC0A86402 = pool_ip 0"
    by (simp add: pool_ip_def)
  have pool: "pool_inv (sv_allocator sample_server)" "leased (sv_allocator sample_server) = {pool_ip 0}"
    using allocate_first pool_inv_server_new [of "EventStore_new ''s'' All"] vm_pool.alloc_invar vm_pool.alloc_held
    by (auto simp: sample_server_def server_new_def leased_def IpAllocator_new_def)
  have reg: "iterates [1] (sv_registry sample_server)" "registry_ips (sv_registry sample_server) = {pool_ip 0}"
    by (simp_all add: iterates_def sample_server_def registry_ips_def sample_entry_def ip)
  show ?thesis
    using shutdown_cleans_up [where s = sample_server and order = "\<lambda>_. [1]" and X = sample_libs and host = calm_host
        and clock = "\<lambda>_. ''t''" and wake = SigTerm and h = "[]"] pool reg
    by (auto simp: sample_server_def map_filter_def split: prod.splits)
qed

end
