(* ===== verification/ProxyCalls.thy ===== *)
theory ProxyCalls
  imports VmRegistry EventStore
begin

text \<open>
  What the network proxies (\<^verbatim>\<open>clawpot-server/src/proxy\<close>) share: their calls to the outside
  (sockets, the authorization service, the upstream HTTP client, the file system of stored
  bodies), the trace notion "only after", and the client of the authorization service.

  A handler runs over the event store and the history of its calls. The VM registry changes
  while handlers run, so the table a lookup finds is an arbitrary function of the history.
\<close>

subsection \<open>Calls\<close>

type_synonym header_list = "(string \<times> bytes) list"

record upstream_request =
  up_method :: string
  up_uri :: string
  up_headers :: header_list
  up_body :: bytes

datatype auth_payload =
    AuthHttp string string "string \<rightharpoonup> string" bytes bool
  | AuthDns string string

record auth_request =
  aq_request_id :: string
  aq_vm_id :: string
  aq_request :: auth_payload

datatype net_call =
    NewCorrelation
  | MillisSince
  | AuthConnect string
  | Authorize auth_request
  | BindUdp
  | SendUpstream bytes
  | RecvUpstream
  | ReadExact nat
  | WriteAll bytes
  | FlushStream
  | PeekStream nat
  | TlsHandshake "string list" string
  | ConnectTcp string
  | CopyStreams
  | WriteBody string bytes
  | CollectRequest
  | SendRequest upstream_request
  | CollectResponse

datatype net_reply =
    NDone
  | NFail io_error
  | NTimeout
  | NUuid u128
  | NMillis nat
  | NAuth bool string
  | NBytes bytes
  | NResponse u16 header_list

type_synonym net_history = "(net_call, net_reply) history"
type_synonym net_host = "(net_call, net_reply) host"
type_synonym 'a net = "(net_history, 'a) io"
type_synonym 'a proxy = "(event_store \<times> net_history, 'a) io"
type_synonym registry_view = "net_history \<Rightarrow> vm_id list \<times> vm_registry"

definition net_unit :: "net_reply \<Rightarrow> io_error + unit" where
  "net_unit r = (case r of NFail e \<Rightarrow> Inl e | _ \<Rightarrow> Inr ())"

definition net_bytes :: "net_reply \<Rightarrow> io_error + bytes" where
  "net_bytes r = (case r of NFail e \<Rightarrow> Inl e | NBytes b \<Rightarrow> Inr b | _ \<Rightarrow> Inl bad_reply)"

definition net_millis :: "net_reply \<Rightarrow> i64" where
  "net_millis r = (case r of NMillis n \<Rightarrow> of_nat n | _ \<Rightarrow> 0)"

definition net_uuid :: "net_reply \<Rightarrow> u128" where
  "net_uuid r = (case r of NUuid u \<Rightarrow> u | _ \<Rightarrow> 0)"

definition tell :: "net_host \<Rightarrow> net_call \<Rightarrow> (anyhow + unit) net" where
  "tell host c = map_io (\<lambda>r. to_anyhow (net_unit r)) (ask host c)"

definition new_correlation :: "libs \<Rightarrow> net_host \<Rightarrow> string net" where
  "new_correlation X host = map_io (\<lambda>r. uuid_to_string X (net_uuid r)) (ask host NewCorrelation)"

definition millis_since :: "net_host \<Rightarrow> i64 net" where
  "millis_since host = map_io net_millis (ask host MillisSince)"

definition ji64 :: "i64 \<Rightarrow> json" where
  "ji64 w = jint (sint w)"

definition find_vm :: "registry_view \<Rightarrow> ip_addr \<Rightarrow> vm_id option proxy" where
  "find_vm reg ip = (\<lambda>(es, h). (case_prod find_by_ip (reg h) ip, (es, h)))"

definition vm_at :: "registry_view \<Rightarrow> net_history \<Rightarrow> socket_addr \<Rightarrow> vm_id option" where
  "vm_at reg h peer_addr = case_prod find_by_ip (reg h) (sa_ip peer_addr)"

text \<open>The event calls of the proxies, all of them with a VM and a correlation id.\<close>

definition proxy_event ::
  "libs \<Rightarrow> (i64 \<Rightarrow> string) \<Rightarrow> string \<Rightarrow> string \<Rightarrow> string \<Rightarrow> string \<Rightarrow> (string \<times> json) list \<Rightarrow> unit proxy" where
  "proxy_event X clock event_type category vm_id corr_id data =
     modify_io (\<lambda>es. snd (emit X clock event_type category (Some vm_id) (Some corr_id) (JObject data) es))"

definition proxy_event_done ::
  "libs \<Rightarrow> (i64 \<Rightarrow> string) \<Rightarrow> string \<Rightarrow> string \<Rightarrow> string \<Rightarrow> string \<Rightarrow> i64 \<Rightarrow> bool \<Rightarrow>
   (string \<times> json) list \<Rightarrow> unit proxy" where
  "proxy_event_done X clock event_type category vm_id corr_id duration_ms success data =
     modify_io (\<lambda>es. snd (emit_with_duration X clock event_type category (Some vm_id) (Some corr_id)
       duration_ms (Some success) (JObject data) es))"

lemma only_tell [only_intros]: "c \<in> S \<Longrightarrow> only (tell host c) S"
  unfolding tell_def by (intro only_intros)

lemma only_new_correlation [only_intros]: "NewCorrelation \<in> S \<Longrightarrow> only (new_correlation X host) S"
  unfolding new_correlation_def by (intro only_intros)

lemma only_millis_since [only_intros]: "MillisSince \<in> S \<Longrightarrow> only (millis_since host) S"
  unfolding millis_since_def by (intro only_intros)

lemma sonly_proxy_event [only_intros]: "sonly (proxy_event X clock t c v i d) S"
  unfolding proxy_event_def by (intro only_intros)

lemma sonly_proxy_event_done [only_intros]: "sonly (proxy_event_done X clock t c v i ms ok d) S"
  unfolding proxy_event_done_def by (intro only_intros)

lemma straces_find_vm:
  assumes "\<And>h. P (case_prod find_by_ip (reg h) ip) s []"
  shows "straces (find_vm reg ip) s P"
  using assms by (auto simp: straces_def find_vm_def)

lemma sonly_find_vm [only_intros]: "sonly (find_vm reg ip) S"
  by (simp add: sonly_def straces_find_vm)

lemma sonly_if [only_intros]:
  "(b \<Longrightarrow> sonly m S) \<Longrightarrow> (\<not> b \<Longrightarrow> sonly n S) \<Longrightarrow> sonly (if b then m else n) S"
  by simp

lemma sonly_sum [only_intros]:
  "(\<And>e. r = Inl e \<Longrightarrow> sonly (f e) S) \<Longrightarrow> (\<And>x. r = Inr x \<Longrightarrow> sonly (g x) S) \<Longrightarrow>
   sonly (case r of Inl e \<Rightarrow> f e | Inr x \<Rightarrow> g x) S"
  by (simp split: sum.splits)

lemma sonly_prod [only_intros]:
  "(\<And>x y. p = (x, y) \<Longrightarrow> sonly (f x y) S) \<Longrightarrow> sonly (case p of (x, y) \<Rightarrow> f x y) S"
  by (simp split: prod.splits)

lemma sonly_map [only_intros]: "sonly m S \<Longrightarrow> sonly (map_io f m) S"
  by (auto simp: sonly_def intro: straces_map)

subsection \<open>Calls that come only after others\<close>

text \<open>\<open>only_after G k C\<close>: every call of \<open>C\<close> in the trace comes after a part of it with \<open>G\<close>.\<close>

definition only_after :: "(('c \<times> 'r) list \<Rightarrow> bool) \<Rightarrow> ('c \<times> 'r) list \<Rightarrow> 'c set \<Rightarrow> bool" where
  "only_after G k C \<longleftrightarrow> (\<forall>k1 c r k2. k = k1 @ (c, r) # k2 \<longrightarrow> c \<in> C \<longrightarrow> G k1)"

lemma only_after_none: "fst ` set k \<inter> C = {} \<Longrightarrow> only_after G k C"
  by (fastforce simp: only_after_def)

lemma only_after_append:
  assumes "fst ` set k \<inter> C = {}" and "\<And>k'. G (k @ k')"
  shows "only_after G (k @ k') C"
  unfolding only_after_def
proof (intro allI impI)
  fix k1 c r k2
  assume split: "k @ k' = k1 @ (c, r) # k2" and c: "c \<in> C"
  from split consider us where "k = k1 @ us" "us @ k' = (c, r) # k2" | us where "k1 = k @ us"
    by (auto simp: append_eq_append_conv2)
  then show "G k1"
  proof cases
    case (1 us)
    then have "us = []"
      using assms(1) c by (cases us) auto
    then show ?thesis
      using 1(1) assms(2) [of "[]"] by simp
  next
    case (2 us)
    then show ?thesis
      using assms(2) by simp
  qed
qed

lemma only_after_Nil [simp]: "only_after G [] C"
  by (simp add: only_after_def)

lemma only_after_Cons_iff [simp]:
  "only_after G ((c, r) # k) C \<longleftrightarrow> (c \<in> C \<longrightarrow> G []) \<and> only_after (\<lambda>k1. G ((c, r) # k1)) k C"
  unfolding only_after_def by (auto simp: Cons_eq_append_conv)

lemma only_after_Cons:
  assumes "only_after G k C" and "c \<notin> C" and "\<And>k1. G k1 \<Longrightarrow> G ((c, r) # k1)"
  shows "only_after G ((c, r) # k) C"
  using assms unfolding only_after_def by (auto simp: Cons_eq_append_conv)

subsection \<open>Byte streams\<close>

text \<open>The bytes a history wrote to the stream and read from it; a peer that serves a given
  sequence of bytes and then end of file.\<close>

definition written :: "net_history \<Rightarrow> bytes" where
  "written h = concat (map (\<lambda>(c, r). case c of WriteAll b \<Rightarrow> b | _ \<Rightarrow> []) h)"

definition bytes_read :: "net_history \<Rightarrow> nat" where
  "bytes_read h = sum_list (map (\<lambda>(c, r). case (c, r) of (ReadExact n, NBytes b) \<Rightarrow> length b | _ \<Rightarrow> 0) h)"

definition served :: "bytes \<Rightarrow> net_history \<Rightarrow> nat \<Rightarrow> net_reply" where
  "served stream h n =
     (let rest = drop (bytes_read h) stream
      in if n \<le> length rest then NBytes (take n rest) else NFail (IoError UnexpectedEof ''early eof''))"

lemma written_append [simp]: "written (h @ k) = written h @ written k"
  by (simp add: written_def)

lemma bytes_read_append [simp]: "bytes_read (h @ k) = bytes_read h + bytes_read k"
  by (simp add: bytes_read_def)

subsection \<open>The authorization client\<close>

datatype auth_client = Connected | Disabled

definition AuthClient_new :: "net_host \<Rightarrow> string option \<Rightarrow> (anyhow + auth_client) net" where
  "AuthClient_new host addr =
     (case addr of
        Some addr \<Rightarrow>
          bindE (ctx_io (''Failed to connect to auth service at '' @ addr) (tell host (AuthConnect addr)))
            (\<lambda>_. ret_io (Inr Connected))
      | None \<Rightarrow> ret_io (Inr Disabled))"

abbreviation MAX_BODY_FOR_GRPC :: nat where
  "MAX_BODY_FOR_GRPC \<equiv> 1024 * 1024"

text \<open>The answer of the service; a failed call denies. The timestamp of the request is left out.\<close>

definition auth_answer :: "net_reply \<Rightarrow> bool \<times> string" where
  "auth_answer r =
     (case r of
        NAuth allow reason \<Rightarrow> (allow, reason)
      | NFail e \<Rightarrow> (False, ''auth service unreachable: '' @ io_message e)
      | _ \<Rightarrow> (False, ''auth service unreachable: '' @ io_message bad_reply))"

definition http_auth_request ::
  "int \<Rightarrow> string \<Rightarrow> string \<Rightarrow> string \<Rightarrow> (string \<rightharpoonup> string) \<Rightarrow> bytes \<Rightarrow> auth_request" where
  "http_auth_request request_id vm_id method url headers body =
     (let truncated = MAX_BODY_FOR_GRPC < length body;
          body_bytes = (if truncated then take MAX_BODY_FOR_GRPC body else body)
      in \<lparr>aq_request_id = show_int request_id, aq_vm_id = vm_id,
          aq_request = AuthHttp method url headers body_bytes truncated\<rparr>)"

definition dns_auth_request :: "int \<Rightarrow> string \<Rightarrow> string \<Rightarrow> string \<Rightarrow> auth_request" where
  "dns_auth_request request_id vm_id query_name query_type =
     \<lparr>aq_request_id = show_int request_id, aq_vm_id = vm_id,
      aq_request = AuthDns query_name query_type\<rparr>"

definition authorize_http ::
  "net_host \<Rightarrow> auth_client \<Rightarrow> int \<Rightarrow> string \<Rightarrow> string \<Rightarrow> string \<Rightarrow> (string \<rightharpoonup> string) \<Rightarrow> bytes \<Rightarrow>
   (anyhow + bool \<times> string) net" where
  "authorize_http host auth request_id vm_id method url headers body =
     (case auth of
        Disabled \<Rightarrow> ret_io (Inr (True, ''authorization disabled''))
      | Connected \<Rightarrow>
          map_io (\<lambda>r. Inr (auth_answer r))
            (ask host (Authorize (http_auth_request request_id vm_id method url headers body))))"

definition authorize_dns ::
  "net_host \<Rightarrow> auth_client \<Rightarrow> int \<Rightarrow> string \<Rightarrow> string \<Rightarrow> string \<Rightarrow> (anyhow + bool \<times> string) net" where
  "authorize_dns host auth request_id vm_id query_name query_type =
     (case auth of
        Disabled \<Rightarrow> ret_io (Inr (True, ''authorization disabled''))
      | Connected \<Rightarrow>
          map_io (\<lambda>r. Inr (auth_answer r))
            (ask host (Authorize (dns_auth_request request_id vm_id query_name query_type))))"

text \<open>The callers' \<^verbatim>\<open>unwrap_or((false, "auth error"))\<close>.\<close>

definition decision :: "anyhow + bool \<times> string \<Rightarrow> bool \<times> string" where
  "decision r = (case r of Inl _ \<Rightarrow> (False, ''auth error'') | Inr d \<Rightarrow> d)"

text \<open>What lets a request through: authorization is switched off, or the service allowed
  exactly this request.\<close>

definition permitted :: "auth_client \<Rightarrow> auth_request \<Rightarrow> net_history \<Rightarrow> bool" where
  "permitted auth rq k \<longleftrightarrow> auth = Disabled \<or> (\<exists>reason. (Authorize rq, NAuth True reason) \<in> set k)"

lemma permitted_append: "permitted auth rq k \<Longrightarrow> permitted auth rq (k @ k')"
  by (auto simp: permitted_def)

lemma decision_answer: "fst (decision (Inr (auth_answer r))) \<Longrightarrow> \<exists>x. r = NAuth True x"
  by (auto simp: decision_def auth_answer_def split: net_reply.splits)

lemma traces_authorize_dns:
  "traces (authorize_dns host auth i v n t)
     (\<lambda>r k. (fst (decision r) \<longrightarrow> permitted auth (dns_auth_request i v n t) k) \<and>
        fst ` set k \<subseteq> {Authorize (dns_auth_request i v n t)})"
  by (cases auth)
    (auto simp: authorize_dns_def permitted_def intro!: traces_ret traces_map_ask dest!: decision_answer)

lemma traces_authorize_http:
  "traces (authorize_http host auth i v m u hs b)
     (\<lambda>r k. (fst (decision r) \<longrightarrow> permitted auth (http_auth_request i v m u hs b) k) \<and>
        fst ` set k \<subseteq> {Authorize (http_auth_request i v m u hs b)})"
  by (cases auth)
    (auto simp: authorize_http_def permitted_def intro!: traces_ret traces_map_ask dest!: decision_answer)

end
