(* ===== verification/ProxyProtocol.thy ===== *)
theory ProxyProtocol
  imports ProxyCalls
begin

text \<open>
  \<^verbatim>\<open>clawpot-server/src/proxy/proxy_protocol.rs\<close>: the one-line PROXY protocol header with which
  the TLS proxy tells the HTTP proxy the address of the guest.
\<close>

definition proxy_line :: "socket_addr \<Rightarrow> socket_addr \<Rightarrow> string" where
  "proxy_line client_addr server_addr =
     ''PROXY TCP4 '' @ show_ip (sa_ip client_addr) @ '' '' @ show_ip (sa_ip server_addr) @ '' '' @
     show_nat (unat (sa_port client_addr)) @ '' '' @ show_nat (unat (sa_port server_addr)) @
     [CHR 0x0D, CHR 0x0A]"

definition write_proxy_header :: "net_host \<Rightarrow> socket_addr \<Rightarrow> socket_addr \<Rightarrow> (anyhow + unit) net" where
  "write_proxy_header host client_addr server_addr =
     ctx_io ''Failed to write PROXY protocol header''
       (tell host (WriteAll (bytes_of (proxy_line client_addr server_addr))))"

definition parse_proxy_line :: "bytes \<Rightarrow> anyhow + ip_addr" where
  "parse_proxy_line line =
     (let text = string_of line in
      if \<not> is_utf8 text then
        Inl (err_context ''PROXY header is not valid UTF-8'' (anyhow ''invalid utf-8 sequence''))
      else
        let parts = split_whitespace text in
        if length parts \<noteq> 6 \<or> parts ! 0 \<noteq> ''PROXY'' then
          Inl (anyhow (''Invalid PROXY protocol header: '' @ trim text))
        else
          case parse_ip (parts ! 2) of
            None \<Rightarrow> Inl (err_context ''Invalid source IP in PROXY header'' (anyhow ''invalid IP address syntax''))
          | Some ip \<Rightarrow> Inr ip)"

text \<open>The loop of \<^verbatim>\<open>read_proxy_header\<close>: a byte at a time up to the line feed.\<close>

function read_header_loop :: "net_host \<Rightarrow> bytes \<Rightarrow> net_history \<Rightarrow> (anyhow + ip_addr) \<times> net_history" where
  "read_header_loop host line h =
     (let reply = host h (ReadExact 1); h' = h @ [(ReadExact 1, reply)] in
      case net_bytes reply of
        Inr [byte] \<Rightarrow>
          (let line' = line @ [byte] in
           if byte = 0x0A then (parse_proxy_line line', h')
           else if \<not> length line' \<le> 256 then (Inl (anyhow ''PROXY protocol header too long''), h')
           else read_header_loop host line' h')
      | Inr _ \<Rightarrow> (Inl (err_context ''Failed to read PROXY protocol header'' (anyhow_of_io bad_reply)), h')
      | Inl e \<Rightarrow> (Inl (err_context ''Failed to read PROXY protocol header'' (anyhow_of_io e)), h'))"
  by pat_completeness auto
termination
  by (relation "measure (\<lambda>(host, line, h). 257 - length line)") auto

declare read_header_loop.simps [simp del]

definition read_proxy_header :: "net_host \<Rightarrow> (anyhow + ip_addr) net" where
  "read_proxy_header host = read_header_loop host []"

subsection \<open>A header is read in bounded time\<close>

lemma read_header_loop_bounded:
  "length line \<le> 256 \<Longrightarrow> \<exists>k. snd (read_header_loop host line h) = h @ k \<and> length k + length line \<le> 257 \<and>
     fst ` set k \<subseteq> {ReadExact 1}"
proof (induction host line h rule: read_header_loop.induct)
  case (1 host line h)
  let ?r = "host h (ReadExact 1)"
  let ?k = "[(ReadExact 1, ?r)]"
  show ?case
  proof (cases "\<exists>byte. net_bytes ?r = Inr [byte] \<and> byte \<noteq> 0x0A \<and> length line < 256")
    case True
    then obtain byte where byte: "net_bytes ?r = Inr [byte]" "byte \<noteq> 0x0A" "length line < 256"
      by blast
    then obtain k where "snd (read_header_loop host (line @ [byte]) (h @ ?k)) = (h @ ?k) @ k"
        "length k + length (line @ [byte]) \<le> 257" "fst ` set k \<subseteq> {ReadExact 1}"
      using "1.IH" [OF refl refl byte(1) refl] by auto
    then show ?thesis
      using byte by (subst read_header_loop.simps) (auto simp: Let_def intro!: exI [of _ "?k @ k"])
  next
    case False
    then show ?thesis
      using "1.prems" by (subst read_header_loop.simps)
        (auto simp: Let_def split: sum.splits list.splits intro!: exI [of _ ?k])
  qed
qed

text \<open>C40: Reading the header ends after at most 257 one-byte reads, whatever the peer sends, and
  makes no other call.\<close>

theorem read_proxy_header_bounded:
  "\<exists>k. snd (read_proxy_header host h) = h @ k \<and> length k \<le> 257 \<and> fst ` set k \<subseteq> {ReadExact 1}"
  using read_header_loop_bounded [of "[]" host h] by (simp add: read_proxy_header_def)

subsection \<open>A header survives writing and reading\<close>

lemma length_show_ipv4: "length (show_ipv4 w) \<le> 15"
proof -
  have "length (show_nat (unat x)) \<le> 3" for x :: u8
    using length_show_radix_le [of 10 "unat x" 2] unat_u8_less [of x] by simp
  from this [of "ucast (drop_bit 24 w)"] this [of "ucast (drop_bit 16 w)"]
    this [of "ucast (drop_bit 8 w)"] this [of "ucast w"]
  show ?thesis
    by (simp add: show_ipv4_def ipv4_octets_def)
qed

lemma length_show_u16: "length (show_nat (unat (p :: u16))) \<le> 5"
  using length_show_radix_le [of 10 "unat p" 4] unat_u16_less [of p] by simp

lemma graphic_show_nat: "c \<in> set (show_nat n) \<Longrightarrow> graphic c"
  using graphic_show_radix [of 10] by simp

lemma split_proxy_line:
  assumes "sa_ip client = V4 a" "sa_ip server = V4 b"
  shows "split_whitespace (proxy_line client server) =
    [''PROXY'', ''TCP4'', show_ipv4 a, show_ipv4 b, show_nat (unat (sa_port client)),
     show_nat (unat (sa_port server))]"
proof -
  have token: "split_ws [] (t @ CHR '' '' # s) = t # split_ws [] s" if "\<forall>c \<in> set t. graphic c" "t \<noteq> []" for t s
    using that split_ws_token [of t "[]" "CHR '' '' # s"] by (simp add: split_ws_space)
  have last: "split_ws [] (t @ [CHR 0x0D, CHR 0x0A]) = [t]" if "\<forall>c \<in> set t. graphic c" "t \<noteq> []" for t
    using that split_ws_token [of t "[]" "[CHR 0x0D, CHR 0x0A]"] by (simp add: split_ws_crlf)
  have ip: "\<forall>c \<in> set (show_ipv4 w). graphic c" "show_ipv4 w \<noteq> []" for w
    using show_ipv4_graphic by (auto simp: show_ipv4_def ipv4_octets_def)
  have num: "\<forall>c \<in> set (show_nat n). graphic c" "show_nat n \<noteq> []" for n
    using graphic_show_nat by auto
  have words: "\<forall>c \<in> set ''PROXY''. graphic c" "\<forall>c \<in> set ''TCP4''. graphic c"
    by (simp_all add: graphic_def)
  have "proxy_line client server = ''PROXY'' @ CHR '' '' # ''TCP4'' @ CHR '' '' # show_ipv4 a @ CHR '' '' #
      show_ipv4 b @ CHR '' '' # show_nat (unat (sa_port client)) @ CHR '' '' #
      show_nat (unat (sa_port server)) @ [CHR 0x0D, CHR 0x0A]"
    using assms by (simp add: proxy_line_def show_ip_def)
  then show ?thesis
    unfolding split_whitespace_def
    by (simp only: token [OF words(1) list.distinct(2)] token [OF words(2) list.distinct(2)] token [OF ip]
        token [OF num] last [OF num])
qed

lemma proxy_line_ascii:
  assumes "sa_ip client = V4 a" "sa_ip server = V4 b"
  shows "is_utf8 (proxy_line client server)"
proof -
  have "(of_char c :: nat) < 0x80" if "graphic c" for c
    using that by (simp add: graphic_def)
  then show ?thesis
    unfolding is_utf8_def
    using assms by (intro utf8_valid_ascii) (auto simp: proxy_line_def show_ip_def dest!: show_ipv4_graphic graphic_show_nat)
qed

lemma parse_proxy_line_written:
  assumes "sa_ip client = V4 a" "sa_ip server = V4 b"
  shows "parse_proxy_line (bytes_of (proxy_line client server)) = Inr (V4 a)"
  using split_proxy_line [OF assms] proxy_line_ascii [OF assms] parse_ip_show_ipv4 [of a]
  by (simp add: parse_proxy_line_def show_ip_def Let_def)

lemma lf_bytes_of: "0x0A \<in> set (bytes_of s) \<Longrightarrow> CHR 0x0A \<in> set s"
proof -
  assume "0x0A \<in> set (bytes_of s)"
  then obtain c where c: "c \<in> set s" "of_nat (of_char c) = (0x0A :: u8)"
    by (auto simp: bytes_of_def)
  have "unat (of_nat (of_char c) :: u8) = 10"
    using c(2) by simp
  then have "(of_char c :: nat) = of_char (CHR 0x0A)"
    by (simp add: unat_of_nat take_bit_nat_eq_self)
  then have "c = CHR 0x0A"
    using of_char_eq_iff by blast
  with c(1) show ?thesis
    by simp
qed

lemma served_one: "drop (bytes_read g) stream = b # rest \<Longrightarrow> served stream g 1 = NBytes [b]"
  by (simp add: served_def Let_def del: length_drop)

text \<open>The line without its last byte has no line feed and is short.\<close>

lemma proxy_line_butlast:
  assumes "sa_ip client = V4 a" "sa_ip server = V4 b"
  obtains l where "bytes_of (proxy_line client server) = l @ [0x0A]" "0x0A \<notin> set l" "length l \<le> 256"
proof -
  let ?t = "''PROXY TCP4 '' @ show_ipv4 a @ '' '' @ show_ipv4 b @ '' '' @
    show_nat (unat (sa_port client)) @ '' '' @ show_nat (unat (sa_port server)) @ [CHR 0x0D]"
  have lf: "c \<noteq> CHR 0x0A" if "graphic c" for c
    using that by (auto simp: graphic_def)
  have "CHR 0x0A \<notin> set ?t"
    by (auto dest!: show_ipv4_graphic graphic_show_nat lf)
  then have "0x0A \<notin> set (bytes_of ?t)"
    using lf_bytes_of by blast
  moreover have "bytes_of (proxy_line client server) = bytes_of ?t @ [0x0A]"
    using assms by (simp add: proxy_line_def show_ip_def) (simp add: bytes_of_def)
  moreover have "length ?t \<le> 256"
    using length_show_ipv4 [of a] length_show_ipv4 [of b] length_show_u16 [of "sa_port client"]
      length_show_u16 [of "sa_port server"] by simp
  ultimately show thesis
    using that by simp
qed

lemma read_header_loop_serves:
  assumes "\<forall>g n. peer g (ReadExact n) = served stream g n"
    and "drop (bytes_read g) stream = l @ 0x0A # rest" and "0x0A \<notin> set l" and "length acc + length l \<le> 256"
  shows "\<exists>g'. read_header_loop peer acc g = (parse_proxy_line (acc @ l @ [0x0A]), g') \<and>
    bytes_read g' = bytes_read g + length l + 1"
  using assms(2-4)
proof (induction l arbitrary: acc g)
  case Nil
  then have "peer g (ReadExact 1) = NBytes [0x0A]"
    using assms(1) served_one by simp
  then show ?case
    by (subst read_header_loop.simps) (simp add: net_bytes_def bytes_read_def)
next
  case (Cons b l)
  have b: "peer g (ReadExact 1) = NBytes [b]"
    using assms(1) Cons.prems(1) served_one by simp
  let ?g = "g @ [(ReadExact 1, NBytes [b])]"
  have read: "bytes_read ?g = Suc (bytes_read g)"
    by (simp add: bytes_read_def)
  moreover have "drop (Suc (bytes_read g)) stream = l @ 0x0A # rest"
    using Cons.prems(1) by (simp add: drop_Suc tl_drop [symmetric])
  ultimately obtain g' where "read_header_loop peer (acc @ [b]) ?g = (parse_proxy_line ((acc @ [b]) @ l @ [0x0A]), g')"
      "bytes_read g' = bytes_read ?g + length l + 1"
    using Cons.IH [of ?g "acc @ [b]"] Cons.prems by auto
  then show ?case
    using b read Cons.prems by (subst read_header_loop.simps) (simp add: net_bytes_def)
qed

lemma read_proxy_header_serves:
  assumes "sa_ip client = V4 a" and "sa_ip server = V4 b"
    and "\<forall>g n. peer g (ReadExact n) = served (pre @ bytes_of (proxy_line client server) @ rest) g n"
    and "bytes_read g = length pre"
  shows "\<exists>g'. read_proxy_header peer g = (Inr (V4 a), g') \<and>
    drop (bytes_read g') (pre @ bytes_of (proxy_line client server) @ rest) = rest"
proof -
  obtain l where l: "bytes_of (proxy_line client server) = l @ [0x0A]" "0x0A \<notin> set l" "length l \<le> 256"
    by (rule proxy_line_butlast [OF assms(1,2)])
  then obtain g' where "read_header_loop peer [] g = (parse_proxy_line (l @ [0x0A]), g')"
      "bytes_read g' = bytes_read g + length l + 1"
    using read_header_loop_serves [OF assms(3), of g l rest "[]"] assms(4) by auto
  then show ?thesis
    using parse_proxy_line_written [OF assms(1,2)] l(1) assms(4) by (simp add: read_proxy_header_def)
qed

text \<open>C15: Round trip: for all IPv4 addresses and ports, the header the TLS proxy writes gives the
  HTTP proxy, reading at that place of the stream, the guest's address, and the reader stops
  right behind the header, where the HTTP request begins.\<close>

theorem proxy_header_roundtrip:
  assumes "sa_ip client = V4 a" and "sa_ip server = V4 b"
    and "write_proxy_header host client server h = (Inr (), h')"
    and "\<forall>g n. peer g (ReadExact n) = served (written h' @ rest) g n"
    and "bytes_read g = length (written h)"
  shows "\<exists>g'. read_proxy_header peer g = (Inr (V4 a), g') \<and> drop (bytes_read g') (written h' @ rest) = rest"
proof -
  have "written h' = written h @ bytes_of (proxy_line client server)"
    using assms(3) by (auto simp: write_proxy_header_def tell_def io_simps written_def split: sum.splits)
  then show ?thesis
    using read_proxy_header_serves [OF assms(1,2), of peer "written h" rest g] assms(4,5) by simp
qed

theorem proxy_header_roundtrip_witness:
  "\<exists>g'. read_proxy_header (\<lambda>g c. case c of ReadExact n \<Rightarrow>
       served (bytes_of (proxy_line \<lparr>sa_ip = V4 7, sa_port = 1\<rparr> \<lparr>sa_ip = V4 0, sa_port = 2\<rparr>) @ [71]) g n
     | _ \<Rightarrow> NDone) [] = (Inr (V4 7), g')"
proof -
  let ?c = "\<lparr>sa_ip = V4 7, sa_port = 1\<rparr>" and ?s = "\<lparr>sa_ip = V4 0, sa_port = 2\<rparr>"
  let ?h = "[(WriteAll (bytes_of (proxy_line ?c ?s)), NDone)]"
  have "write_proxy_header (\<lambda>_ _. NDone) ?c ?s [] = (Inr (), ?h)"
    by (simp add: write_proxy_header_def tell_def net_unit_def io_simps)
  then show ?thesis
    using proxy_header_roundtrip [of ?c 7 ?s 0 "\<lambda>_ _. NDone" "[]" ?h
        "\<lambda>g c. case c of ReadExact n \<Rightarrow> served (bytes_of (proxy_line ?c ?s) @ [71]) g n | _ \<Rightarrow> NDone" "[71]" "[]"]
    by (auto simp: written_def bytes_read_def)
qed

end
