(* ===== verification/Llm.thy ===== *)
theory Llm
  imports HostCalls
begin

text \<open>
  \<^verbatim>\<open>clawpot-server/src/proxy/llm.rs\<close>: recognising requests to LLM providers, injecting the
  server's API keys, and turning their responses, streamed or not, into one JSON value with
  usage numbers. JSON text is parsed by \<^verbatim>\<open>serde_json\<close>, the parameter \<open>json_from_slice\<close>.
\<close>

subsection \<open>Providers and keys\<close>

record llm_endpoint =
  ep_name :: string
  ep_path_prefix :: string

record llm_provider =
  pr_name :: string
  pr_host :: string
  pr_env_var :: string
  pr_auth_header :: string
  pr_bearer_format :: bool
  pr_endpoints :: "llm_endpoint list"

definition PROVIDERS :: "llm_provider list" where
  "PROVIDERS =
     [\<lparr>pr_name = ''anthropic'', pr_host = ''api.anthropic.com'', pr_env_var = ''CLAWPOT_ANTHROPIC_API_KEY'',
       pr_auth_header = ''x-api-key'', pr_bearer_format = False,
       pr_endpoints = [\<lparr>ep_name = ''messages'', ep_path_prefix = ''/v1/messages''\<rparr>]\<rparr>,
      \<lparr>pr_name = ''openai'', pr_host = ''api.openai.com'', pr_env_var = ''CLAWPOT_OPENAI_API_KEY'',
       pr_auth_header = ''authorization'', pr_bearer_format = True,
       pr_endpoints = [\<lparr>ep_name = ''chat_completions'', ep_path_prefix = ''/v1/chat/completions''\<rparr>,
                       \<lparr>ep_name = ''responses'', ep_path_prefix = ''/v1/responses''\<rparr>]\<rparr>]"

type_synonym llm_key_store = "string \<rightharpoonup> string"

text \<open>\<open>env\<close> is the environment, \<open>None\<close> for a variable that is unset or not Unicode.\<close>

definition LlmKeyStore_from_env :: "(string \<Rightarrow> string option) \<Rightarrow> llm_key_store" where
  "LlmKeyStore_from_env env =
     foldl (\<lambda>keys provider.
         case env (pr_env_var provider) of
           Some raw_key \<Rightarrow>
             (let key = trim raw_key in if key = [] then keys else keys(pr_name provider \<mapsto> key))
         | None \<Rightarrow> keys)
       Map.empty PROVIDERS"

record llm_detection =
  det_provider :: string
  det_endpoint :: string
  det_strip_header :: "string option"
  det_inject_header :: "(string \<times> string) option"

definition host_bare :: "string \<Rightarrow> string" where
  "host_bare host = hd (split_char CHR '':'' host)"

definition endpoint_name :: "llm_provider \<Rightarrow> string \<Rightarrow> string" where
  "endpoint_name provider path =
     (case List.find (\<lambda>ep. starts_with (ep_path_prefix ep) path) (pr_endpoints provider) of
        None \<Rightarrow> ''unknown''
      | Some ep \<Rightarrow> ep_name ep)"

definition detection_for :: "llm_provider \<Rightarrow> string \<Rightarrow> llm_key_store \<Rightarrow> llm_detection" where
  "detection_for provider path key_store =
     (let (strip_header, inject_header) =
            (case key_store (pr_name provider) of
               Some key \<Rightarrow>
                 (let v = (if pr_bearer_format provider then ''Bearer '' @ key else key)
                  in (Some (pr_auth_header provider), Some (pr_auth_header provider, v)))
             | None \<Rightarrow> (None, None))
      in \<lparr>det_provider = pr_name provider, det_endpoint = endpoint_name provider path,
          det_strip_header = strip_header, det_inject_header = inject_header\<rparr>)"

definition detect_llm_request :: "string \<Rightarrow> string \<Rightarrow> llm_key_store \<Rightarrow> llm_detection option" where
  "detect_llm_request host path key_store =
     map_option (\<lambda>provider. detection_for provider path key_store)
       (List.find (\<lambda>provider. eq_ignore_ascii_case (host_bare host) (pr_host provider)) PROVIDERS)"

subsection \<open>Server-sent events\<close>

record sse_event =
  sse_event_type :: "string option"
  sse_data :: string

text \<open>One line of a frame, on the event type and the data lines read so far.\<close>

definition sse_line :: "string option \<times> string list \<Rightarrow> string \<Rightarrow> string option \<times> string list" where
  "sse_line = (\<lambda>(event_type, data_parts) line.
     if starts_with '':'' line then (event_type, data_parts)
     else case strip_prefix ''event:'' line of
       Some rest \<Rightarrow> (Some (trim rest), data_parts)
     | None \<Rightarrow>
         (case strip_prefix ''data:'' line of
            Some rest \<Rightarrow>
              (let data = trim rest
               in (event_type, if data = ''[DONE]'' then data_parts else data_parts @ [data]))
          | None \<Rightarrow> (event_type, data_parts)))"

definition sse_frame :: "string \<Rightarrow> sse_event option" where
  "sse_frame raw =
     (let frame = trim raw in
      if frame = [] then None
      else
        let (event_type, data_parts) = foldl sse_line (None, []) (text_lines frame) in
        if data_parts = [] then None
        else Some \<lparr>sse_event_type = event_type, sse_data = join [CHR 0x0A] data_parts\<rparr>)"

definition parse_sse :: "bytes \<Rightarrow> sse_event list" where
  "parse_sse body = List.map_filter sse_frame (split_str [CHR 0x0A, CHR 0x0A] (from_utf8_lossy body))"

subsection \<open>Reassembling streams\<close>

type_synonym llm_summary = "json \<times> string option \<times> u64 option \<times> u64 option"

definition ju64 :: "u64 \<Rightarrow> json" where
  "ju64 n = JNumber (PosInt n)"

definition get_str :: "string \<Rightarrow> json \<Rightarrow> string option" where
  "get_str k v = Option.bind (json_get k v) as_str"

definition get_u64_at :: "string \<Rightarrow> string \<Rightarrow> json \<Rightarrow> u64 option" where
  "get_u64_at a b v = Option.bind (json_pointer2 a b v) as_u64"

definition event_json :: "libs \<Rightarrow> sse_event \<Rightarrow> json option" where
  "event_json X e = json_from_slice X (bytes_of (sse_data e))"

record anthropic_state =
  an_id :: json
  an_model :: "string option"
  an_input_tokens :: "u64 option"
  an_output_tokens :: "u64 option"
  an_stop_reason :: json
  an_content_text :: string

definition anthropic_start :: "json \<Rightarrow> anthropic_state \<Rightarrow> anthropic_state" where
  "anthropic_start v s =
     (case json_get ''message'' v of
        None \<Rightarrow> s
      | Some msg \<Rightarrow>
          s\<lparr>an_id := unwrap_or JNull (json_get ''id'' msg), an_model := get_str ''model'' msg,
            an_input_tokens := get_u64_at ''usage'' ''input_tokens'' msg\<rparr>)"

definition anthropic_block_delta :: "json \<Rightarrow> anthropic_state \<Rightarrow> anthropic_state" where
  "anthropic_block_delta v s =
     (case json_get ''delta'' v of
        None \<Rightarrow> s
      | Some delta \<Rightarrow>
          if get_str ''type'' delta = Some ''text_delta'' then
            (case get_str ''text'' delta of
               None \<Rightarrow> s
             | Some text \<Rightarrow> s\<lparr>an_content_text := an_content_text s @ text\<rparr>)
          else s)"

definition anthropic_message_delta :: "json \<Rightarrow> anthropic_state \<Rightarrow> anthropic_state" where
  "anthropic_message_delta v s =
     (let s = (case Option.bind (json_get ''delta'' v) (json_get ''stop_reason'') of
                 None \<Rightarrow> s
               | Some sr \<Rightarrow> s\<lparr>an_stop_reason := sr\<rparr>)
      in s\<lparr>an_output_tokens := get_u64_at ''usage'' ''output_tokens'' v\<rparr>)"

definition anthropic_event :: "libs \<Rightarrow> anthropic_state \<Rightarrow> sse_event \<Rightarrow> anthropic_state" where
  "anthropic_event X s e =
     (let event_name = unwrap_or [] (sse_event_type e) in
      case event_json X e of
        None \<Rightarrow> s
      | Some v \<Rightarrow>
          if event_name = ''message_start'' then anthropic_start v s
          else if event_name = ''content_block_delta'' then anthropic_block_delta v s
          else if event_name = ''message_delta'' then anthropic_message_delta v s
          else s)"

definition anthropic_init :: anthropic_state where
  "anthropic_init =
     \<lparr>an_id = JNull, an_model = None, an_input_tokens = None, an_output_tokens = None,
      an_stop_reason = JNull, an_content_text = []\<rparr>"

definition anthropic_result :: "anthropic_state \<Rightarrow> llm_summary" where
  "anthropic_result s =
     (JObject [(''id'', an_id s), (''model'', jopt JString (an_model s)), (''stop_reason'', an_stop_reason s),
        (''content'', JArray [JObject [(''type'', JString ''text''), (''text'', JString (an_content_text s))]]),
        (''usage'', JObject [(''input_tokens'', jopt ju64 (an_input_tokens s)),
                           (''output_tokens'', jopt ju64 (an_output_tokens s))])],
      an_model s, an_input_tokens s, an_output_tokens s)"

definition reassemble_anthropic_messages :: "libs \<Rightarrow> sse_event list \<Rightarrow> llm_summary" where
  "reassemble_anthropic_messages X events = anthropic_result (foldl (anthropic_event X) anthropic_init events)"

record openai_state =
  oa_id :: json
  oa_model :: "string option"
  oa_content_text :: string
  oa_finish_reason :: json
  oa_input_tokens :: "u64 option"
  oa_output_tokens :: "u64 option"

definition openai_choice :: "openai_state \<Rightarrow> json \<Rightarrow> openai_state" where
  "openai_choice s choice =
     (let s = (case Option.bind (json_get ''delta'' choice) (get_str ''content'') of
                 None \<Rightarrow> s
               | Some text \<Rightarrow> s\<lparr>oa_content_text := oa_content_text s @ text\<rparr>)
      in case json_get ''finish_reason'' choice of
           None \<Rightarrow> s
         | Some fr \<Rightarrow> if is_null fr then s else s\<lparr>oa_finish_reason := fr\<rparr>)"

definition openai_event :: "libs \<Rightarrow> openai_state \<Rightarrow> sse_event \<Rightarrow> openai_state" where
  "openai_event X s e =
     (case event_json X e of
        None \<Rightarrow> s
      | Some v \<Rightarrow>
          let s = (case get_str ''model'' v of None \<Rightarrow> s | Some m \<Rightarrow> s\<lparr>oa_model := Some m\<rparr>);
              s = (if is_null (oa_id s) then
                     (case json_get ''id'' v of None \<Rightarrow> s | Some i \<Rightarrow> s\<lparr>oa_id := i\<rparr>)
                   else s);
              s = (case Option.bind (json_get ''choices'' v) as_array of
                     None \<Rightarrow> s
                   | Some choices \<Rightarrow> foldl openai_choice s choices)
          in case json_get ''usage'' v of
               None \<Rightarrow> s
             | Some usage \<Rightarrow>
                 s\<lparr>oa_input_tokens := Option.bind (json_get ''prompt_tokens'' usage) as_u64,
                   oa_output_tokens := Option.bind (json_get ''completion_tokens'' usage) as_u64\<rparr>)"

definition openai_init :: openai_state where
  "openai_init =
     \<lparr>oa_id = JNull, oa_model = None, oa_content_text = [], oa_finish_reason = JNull,
      oa_input_tokens = None, oa_output_tokens = None\<rparr>"

definition openai_result :: "openai_state \<Rightarrow> llm_summary" where
  "openai_result s =
     (JObject [(''id'', oa_id s), (''model'', jopt JString (oa_model s)),
        (''choices'', JArray [JObject
           [(''message'', JObject [(''role'', JString ''assistant''), (''content'', JString (oa_content_text s))]),
            (''finish_reason'', oa_finish_reason s)]]),
        (''usage'', JObject [(''prompt_tokens'', jopt ju64 (oa_input_tokens s)),
                           (''completion_tokens'', jopt ju64 (oa_output_tokens s))])],
      oa_model s, oa_input_tokens s, oa_output_tokens s)"

definition reassemble_openai_chat :: "libs \<Rightarrow> sse_event list \<Rightarrow> llm_summary" where
  "reassemble_openai_chat X events = openai_result (foldl (openai_event X) openai_init events)"

text \<open>The first completed event whose data parses.\<close>

fun reassemble_openai_responses :: "libs \<Rightarrow> sse_event list \<Rightarrow> llm_summary" where
  "reassemble_openai_responses X [] = (JNull, None, None, None)"
| "reassemble_openai_responses X (e # events) =
     (if sse_event_type e \<noteq> Some ''response.completed'' then reassemble_openai_responses X events
      else case event_json X e of
        None \<Rightarrow> reassemble_openai_responses X events
      | Some v \<Rightarrow>
          let response = unwrap_or v (json_get ''response'' v)
          in (response, get_str ''model'' response, get_u64_at ''usage'' ''input_tokens'' response,
              get_u64_at ''usage'' ''output_tokens'' response))"

definition reassemble_stream :: "libs \<Rightarrow> string \<Rightarrow> sse_event list \<Rightarrow> llm_summary" where
  "reassemble_stream X endpoint events =
     (if endpoint = ''messages'' then reassemble_anthropic_messages X events
      else if endpoint = ''chat_completions'' then reassemble_openai_chat X events
      else if endpoint = ''responses'' then reassemble_openai_responses X events
      else (JNull, None, None, None))"

definition or_else :: "'a option \<Rightarrow> 'a option \<Rightarrow> 'a option" where
  "or_else a b = (case a of None \<Rightarrow> b | Some x \<Rightarrow> Some x)"

definition process_response :: "libs \<Rightarrow> string \<Rightarrow> string option \<Rightarrow> bytes \<Rightarrow> llm_summary" where
  "process_response X endpoint content_type body =
     (let is_streaming = (case content_type of None \<Rightarrow> False | Some ct \<Rightarrow> contains_str ''text/event-stream'' ct) in
      if is_streaming then reassemble_stream X endpoint (parse_sse body)
      else
        let v = unwrap_or JNull (json_from_slice X body)
        in (v, get_str ''model'' v,
            Option.bind (or_else (json_pointer2 ''usage'' ''input_tokens'' v)
              (json_pointer2 ''usage'' ''prompt_tokens'' v)) as_u64,
            Option.bind (or_else (json_pointer2 ''usage'' ''output_tokens'' v)
              (json_pointer2 ''usage'' ''completion_tokens'' v)) as_u64))"

definition extract_request_summary :: "libs \<Rightarrow> string \<Rightarrow> bytes \<Rightarrow> string option \<times> nat option \<times> bool option" where
  "extract_request_summary X endpoint body =
     (case json_from_slice X body of
        None \<Rightarrow> (None, None, None)
      | Some v \<Rightarrow>
          let model = get_str ''model'' v;
              streaming = Option.bind (json_get ''stream'' v) as_bool;
              message_count =
                (if endpoint = ''messages'' \<or> endpoint = ''chat_completions'' then
                   map_option length (Option.bind (json_get ''messages'' v) as_array)
                 else if endpoint = ''responses'' then
                   (case json_get ''input'' v of
                      Some (JArray arr) \<Rightarrow> Some (length arr)
                    | Some (JString _) \<Rightarrow> Some 1
                    | _ \<Rightarrow> None)
                 else None)
          in (model, message_count, streaming))"

end
