(* ===== verification/Ca.thy ===== *)
theory Ca
  imports FirecrackerApi
begin

text \<open>
  \<^verbatim>\<open>clawpot-server/src/proxy/ca.rs\<close>: the certificate authority of the TLS proxy. Keys and
  certificates are values of the \<^verbatim>\<open>rcgen\<close> crate, here type variables; its deterministic
  functions are the record \<open>rcgen\<close>, its random ones (key generation, signing) are arguments of
  each operation. The cache is behind a mutex held for the whole of \<^verbatim>\<open>get_or_create_cert\<close>, so
  that operation is one atomic step.
\<close>

subsection \<open>State\<close>

record cached_cert =
  cc_cert_pem :: string
  cc_key_pem :: string

record ('k, 'c) rcgen =
  key_from_pem :: "string \<Rightarrow> string + 'k"
  serialize_pem :: "'k \<Rightarrow> string"
  cert_to_pem :: "'c \<Rightarrow> string"

record ('k, 'c) certificate_authority =
  ca_cert :: 'c
  ca_key :: 'k
  ca_cert_pem :: string
  ca_cache :: "string \<rightharpoonup> cached_cert"
  ca_dir :: string

text \<open>The error of a crate, turned into an \<^verbatim>\<open>anyhow\<close> error with context.\<close>

definition lib_ctx :: "string \<Rightarrow> string + 'a \<Rightarrow> anyhow + 'a" where
  "lib_ctx c r = (case r of Inl e \<Rightarrow> Inl (err_context c (anyhow e)) | Inr x \<Rightarrow> Inr x)"

definition path_join :: "string \<Rightarrow> string \<Rightarrow> string" where
  "path_join d f = (if d = [] \<or> last d = CHR ''/'' then d @ f else d @ ''/'' @ f)"

subsection \<open>Creating or loading the authority\<close>

definition read_text :: "sys_host \<Rightarrow> string \<Rightarrow> (anyhow + string) sys" where
  "read_text host p = map_io (\<lambda>r. to_anyhow (reply_text r)) (ask host (ReadToString p))"

definition ca_load ::
  "('k, 'c) rcgen \<Rightarrow> ('k \<Rightarrow> string + 'c) \<Rightarrow> sys_host \<Rightarrow> string \<Rightarrow> string \<Rightarrow>
   (anyhow + 'c \<times> 'k \<times> string) sys" where
  "ca_load R self_signed host cert_path key_path =
     bindE (ctx_io ''Failed to read CA key'' (read_text host key_path)) (\<lambda>key_pem.
     bindE (ctx_io ''Failed to read CA cert'' (read_text host cert_path)) (\<lambda>cert_pem.
     bindE (ret_io (lib_ctx ''Failed to parse CA key'' (key_from_pem R key_pem))) (\<lambda>key.
     bindE (ret_io (lib_ctx ''Failed to self-sign CA cert'' (self_signed key))) (\<lambda>cert.
     ret_io (Inr (cert, key, cert_pem))))))"

definition ca_generate ::
  "('k, 'c) rcgen \<Rightarrow> (string + 'k) \<Rightarrow> ('k \<Rightarrow> string + 'c) \<Rightarrow> sys_host \<Rightarrow> string \<Rightarrow> string \<Rightarrow>
   (anyhow + 'c \<times> 'k \<times> string) sys" where
  "ca_generate R generated self_signed host cert_path key_path =
     bindE (ret_io (lib_ctx ''Failed to generate CA key pair'' generated)) (\<lambda>key.
     bindE (ret_io (lib_ctx ''Failed to self-sign CA cert'' (self_signed key))) (\<lambda>cert.
     bindE (ctx_io ''Failed to write CA cert''
       (call_unit host (WriteFile cert_path (bytes_of (cert_to_pem R cert))))) (\<lambda>_.
     bindE (ctx_io ''Failed to write CA key''
       (call_unit host (WriteFile key_path (bytes_of (serialize_pem R key))))) (\<lambda>_.
     ret_io (Inr (cert, key, cert_to_pem R cert))))))"

definition CertificateAuthority_new ::
  "('k, 'c) rcgen \<Rightarrow> (string + 'k) \<Rightarrow> ('k \<Rightarrow> string + 'c) \<Rightarrow> sys_host \<Rightarrow> string \<Rightarrow>
   (anyhow + ('k, 'c) certificate_authority) sys" where
  "CertificateAuthority_new R generated self_signed host dir =
     bindE (ctx_io (''Failed to create CA directory: '' @ path_display dir) (call_unit host (CreateDirAll dir))) (\<lambda>_.
     let cert_path = path_join dir ''ca.crt''; key_path = path_join dir ''ca.key'' in
     bind_io (path_exists host cert_path) (\<lambda>has_cert.
     bind_io (if has_cert then path_exists host key_path else ret_io False) (\<lambda>both.
     bindE (if both then ca_load R self_signed host cert_path key_path
            else ca_generate R generated self_signed host cert_path key_path) (\<lambda>(cert, key, cert_pem).
     ret_io (Inr \<lparr>ca_cert = cert, ca_key = key, ca_cert_pem = cert_pem, ca_cache = Map.empty, ca_dir = dir\<rparr>)))))"

subsection \<open>Leaf certificates\<close>

text \<open>One call of \<^verbatim>\<open>get_or_create_cert\<close>: the domain, and what the random functions of the crate
  and the check of the subject name give in this call.\<close>

record ('k, 'c) cert_request =
  cr_domain :: string
  cr_generated :: "string + 'k"
  cr_params :: "string + unit"
  cr_signed_by :: "string \<Rightarrow> 'k \<Rightarrow> 'c \<Rightarrow> 'k \<Rightarrow> string + 'c"

definition issue_cert ::
  "('k, 'c) rcgen \<Rightarrow> ('k, 'c) certificate_authority \<Rightarrow> ('k, 'c) cert_request \<Rightarrow> anyhow + cached_cert" where
  "issue_cert R ca rq =
     (case lib_ctx ''Failed to generate leaf key pair'' (cr_generated rq) of
        Inl e \<Rightarrow> Inl e
      | Inr leaf_key \<Rightarrow>
          (case lib_ctx ''Failed to create leaf cert params'' (cr_params rq) of
             Inl e \<Rightarrow> Inl e
           | Inr _ \<Rightarrow>
               (case lib_ctx ''Failed to sign leaf cert''
                   (cr_signed_by rq (cr_domain rq) leaf_key (ca_cert ca) (ca_key ca)) of
                  Inl e \<Rightarrow> Inl e
                | Inr leaf_cert \<Rightarrow>
                    Inr \<lparr>cc_cert_pem = cert_to_pem R leaf_cert, cc_key_pem = serialize_pem R leaf_key\<rparr>)))"

definition get_or_create_cert ::
  "('k, 'c) rcgen \<Rightarrow> ('k, 'c) cert_request \<Rightarrow> ('k, 'c) certificate_authority \<Rightarrow>
   (anyhow + cached_cert) \<times> ('k, 'c) certificate_authority" where
  "get_or_create_cert R rq ca =
     (case ca_cache ca (cr_domain rq) of
        Some cached \<Rightarrow> (Inr cached, ca)
      | None \<Rightarrow>
          (case issue_cert R ca rq of
             Inl e \<Rightarrow> (Inl e, ca)
           | Inr cached \<Rightarrow> (Inr cached, ca\<lparr>ca_cache := (ca_cache ca)(cr_domain rq \<mapsto> cached)\<rparr>)))"

text \<open>The state after a sequence of calls, in the order in which they got the lock.\<close>

definition after_requests ::
  "('k, 'c) rcgen \<Rightarrow> ('k, 'c) cert_request list \<Rightarrow> ('k, 'c) certificate_authority \<Rightarrow>
   ('k, 'c) certificate_authority" where
  "after_requests R rqs ca = fold (\<lambda>rq ca. snd (get_or_create_cert R rq ca)) rqs ca"

subsection \<open>The cache is a memo table\<close>

lemma issue_cert_cache [simp]: "issue_cert R (ca\<lparr>ca_cache := m\<rparr>) rq = issue_cert R ca rq"
  by (simp add: issue_cert_def split: sum.splits)

lemma is_ok_projr: "is_ok r \<Longrightarrow> r = Inr (projr r)"
  by (cases r) simp_all

definition first_issue ::
  "('k, 'c) rcgen \<Rightarrow> ('k, 'c) certificate_authority \<Rightarrow> string \<Rightarrow> ('k, 'c) cert_request list \<Rightarrow> cached_cert option" where
  "first_issue R ca d rqs =
     map_option (\<lambda>rq. projr (issue_cert R ca rq))
       (List.find (\<lambda>rq. cr_domain rq = d \<and> is_ok (issue_cert R ca rq)) rqs)"

lemma find_append: "List.find P (xs @ ys) = (case List.find P xs of None \<Rightarrow> List.find P ys | Some x \<Rightarrow> Some x)"
  by (induction xs) auto

lemma first_issue_snoc:
  "first_issue R ca d (rqs @ [rq]) =
     (case first_issue R ca d rqs of
        Some c \<Rightarrow> Some c
      | None \<Rightarrow> if cr_domain rq = d then result_ok (issue_cert R ca rq) else None)"
  by (cases "issue_cert R ca rq") (auto simp: first_issue_def find_append split: option.splits)

lemma after_requests_cache:
  "after_requests R rqs (ca\<lparr>ca_cache := Map.empty\<rparr>) = ca\<lparr>ca_cache := (\<lambda>d. first_issue R ca d rqs)\<rparr>"
proof (induction rqs rule: rev_induct)
  case Nil
  then show ?case
    by (simp add: after_requests_def first_issue_def)
next
  case (snoc rq rqs)
  have "after_requests R (rqs @ [rq]) (ca\<lparr>ca_cache := Map.empty\<rparr>) =
      snd (get_or_create_cert R rq (ca\<lparr>ca_cache := (\<lambda>d. first_issue R ca d rqs)\<rparr>))"
    using snoc by (simp add: after_requests_def)
  then show ?case
    by (cases "issue_cert R ca rq")
      (auto simp: get_or_create_cert_def first_issue_snoc fun_eq_iff split: option.splits
        intro!: certificate_authority.equality)
qed

text \<open>C20: The certificate cache is a memo table: after any sequence of requests, a request is
  answered with the certificate of the first request for the same domain whose issue succeeded,
  itself included, and with its own error if there is none. So a domain keeps one certificate,
  no domain gets another domain's, and failures are not cached.\<close>

theorem get_or_create_cert_memo:
  "fst (get_or_create_cert R rq (after_requests R rqs (ca\<lparr>ca_cache := Map.empty\<rparr>))) =
     (case List.find (\<lambda>r. cr_domain r = cr_domain rq \<and> is_ok (issue_cert R ca r)) (rqs @ [rq]) of
        Some r \<Rightarrow> issue_cert R ca r
      | None \<Rightarrow> issue_cert R ca rq)"
proof -
  have ok: "issue_cert R ca r = Inr (projr (issue_cert R ca r))"
    if "List.find (\<lambda>r. cr_domain r = cr_domain rq \<and> is_ok (issue_cert R ca r)) rqs = Some r" for r
    using that is_ok_projr [of "issue_cert R ca r"] by (auto simp: find_Some_iff)
  show ?thesis
    unfolding after_requests_cache
    using ok by (cases "issue_cert R ca rq")
      (auto simp: get_or_create_cert_def first_issue_def find_append split: option.splits)
qed

subsection \<open>The authority survives a restart\<close>

text \<open>The contents of a file according to the history, and a host whose file system agrees with it.\<close>

definition file_of :: "sys_history \<Rightarrow> string \<Rightarrow> bytes option" where
  "file_of h p =
     foldl (\<lambda>f (c, r). case c of WriteFile q b \<Rightarrow> if q = p \<and> is_ok (reply_unit r) then Some b else f | _ \<Rightarrow> f) None h"

definition fs_faithful :: "sys_host \<Rightarrow> string \<Rightarrow> bool" where
  "fs_faithful host p \<longleftrightarrow>
     (\<forall>h. host h (PathExists p) = RBool (file_of h p \<noteq> None) \<and>
        (\<forall>b. file_of h p = Some b \<longrightarrow> host h (ReadToString p) = RText (string_of b)))"

lemma file_of_snoc:
  "file_of (h @ [(c, r)]) p =
     (case c of WriteFile q b \<Rightarrow> if q = p \<and> is_ok (reply_unit r) then Some b else file_of h p | _ \<Rightarrow> file_of h p)"
  by (simp add: file_of_def split: sys_call.splits)

lemma path_join_inj [simp]: "path_join d f = path_join d g \<longleftrightarrow> f = g"
  by (simp add: path_join_def)

lemma CertificateAuthority_new_fresh:
  assumes fs: "fs_faithful host (path_join dir ''ca.crt'')" and none: "file_of h (path_join dir ''ca.crt'') = None"
    and run: "CertificateAuthority_new R generated self_signed host dir h = (Inr ca, h1)"
  shows "file_of h1 (path_join dir ''ca.crt'') = Some (bytes_of (ca_cert_pem ca)) \<and>
    file_of h1 (path_join dir ''ca.key'') = Some (bytes_of (serialize_pem R (ca_key ca))) \<and> ca_dir ca = dir"
proof -
  let ?h = "h @ [(CreateDirAll dir, host h (CreateDirAll dir))]"
  have "file_of ?h (path_join dir ''ca.crt'') = None"
    using none by (simp add: file_of_snoc)
  then have "host ?h (PathExists (path_join dir ''ca.crt'')) = RBool False"
    using fs by (simp add: fs_faithful_def)
  then show ?thesis
    using run
    by (auto simp: CertificateAuthority_new_def ca_generate_def call_unit_def path_exists_def reply_true_def
        Let_def io_simps file_of_def lib_ctx_def with_context_def to_anyhow_def split: sum.splits)
qed

text \<open>C19: The authority survives a restart: if the first start found no certificate on disk and
  created one, then the next start, whatever random values it draws, succeeds with the same
  signing key and the same CA certificate (the one installed in the guests) and writes no file.\<close>

theorem ca_survives_restart:
  assumes "fs_faithful host (path_join dir ''ca.crt'')" and "fs_faithful host (path_join dir ''ca.key'')"
    and "file_of h (path_join dir ''ca.crt'') = None"
    and "\<forall>key. key_from_pem R (serialize_pem R key) = Inr key"
    and "CertificateAuthority_new R generated self_signed host dir h = (Inr ca, h1)"
    and "host h1 (CreateDirAll dir) = ROk" and "self_signed' (ca_key ca) = Inr cert'"
  shows "\<exists>k. CertificateAuthority_new R generated' self_signed' host dir h1 =
      (Inr (ca\<lparr>ca_cert := cert', ca_cache := Map.empty\<rparr>), h1 @ k) \<and> (\<forall>p b. WriteFile p b \<notin> fst ` set k)"
proof -
  let ?c = "path_join dir ''ca.crt''" and ?k = "path_join dir ''ca.key''"
  note fresh = CertificateAuthority_new_fresh [OF assms(1,3,5)]
  have files: "file_of h1 ?c = Some (bytes_of (ca_cert_pem ca))"
      "file_of h1 ?k = Some (bytes_of (serialize_pem R (ca_key ca)))" and dir: "ca_dir ca = dir"
    using fresh by auto
  have quiet: "file_of (h' @ [(CreateDirAll q, r)]) p = file_of h' p" "file_of (h' @ [(PathExists q, r)]) p = file_of h' p"
      "file_of (h' @ [(ReadToString q, r)]) p = file_of h' p" for h' q r p
    by (simp_all add: file_of_snoc)
  let ?h1 = "h1 @ [(CreateDirAll dir, ROk)]"
  let ?h2 = "?h1 @ [(PathExists ?c, RBool True)]"
  let ?h3 = "?h2 @ [(PathExists ?k, RBool True)]"
  let ?h4 = "?h3 @ [(ReadToString ?k, RText (serialize_pem R (ca_key ca)))]"
  have "host ?h1 (PathExists ?c) = RBool True" "host ?h2 (PathExists ?k) = RBool True"
    using assms(1,2) files unfolding fs_faithful_def by (simp_all only: quiet) simp_all
  moreover have "host ?h3 (ReadToString ?k) = RText (serialize_pem R (ca_key ca))"
    using assms(2) files(2) unfolding fs_faithful_def by (metis quiet string_of_bytes_of)
  moreover have "host ?h4 (ReadToString ?c) = RText (ca_cert_pem ca)"
    using assms(1) files(1) unfolding fs_faithful_def by (metis quiet string_of_bytes_of)
  ultimately show ?thesis
    using assms(4,6,7) dir
    by (auto simp: CertificateAuthority_new_def ca_load_def call_unit_def read_text_def path_exists_def
        reply_true_def reply_unit_def reply_text_def Let_def io_simps lib_ctx_def
        intro!: certificate_authority.equality)
qed

text \<open>A file system for examples.\<close>

definition disk_host :: sys_host where
  "disk_host h c =
     (case c of
        PathExists p \<Rightarrow> RBool (file_of h p \<noteq> None)
      | ReadToString p \<Rightarrow> (case file_of h p of Some b \<Rightarrow> RText (string_of b) | None \<Rightarrow> RErr bad_reply)
      | _ \<Rightarrow> ROk)"

lemma disk_host_faithful: "fs_faithful disk_host p"
  by (simp add: fs_faithful_def disk_host_def)

definition text_rcgen :: "(string, string) rcgen" where
  "text_rcgen = \<lparr>key_from_pem = Inr, serialize_pem = id, cert_to_pem = id\<rparr>"

theorem ca_survives_restart_witness:
  "\<exists>k. CertificateAuthority_new text_rcgen (Inr ''K2'') (\<lambda>_. Inr ''C2'') disk_host ''ca''
     (snd (CertificateAuthority_new text_rcgen (Inr ''K1'') (\<lambda>_. Inr ''C1'') disk_host ''ca'' [])) =
     (Inr \<lparr>ca_cert = ''C2'', ca_key = ''K1'', ca_cert_pem = ''C1'', ca_cache = Map.empty, ca_dir = ''ca''\<rparr>, k)"
proof -
  let ?ca = "\<lparr>ca_cert = ''C1'', ca_key = ''K1'', ca_cert_pem = ''C1'', ca_cache = Map.empty, ca_dir = ''ca''\<rparr>"
  obtain h1 where run: "CertificateAuthority_new text_rcgen (Inr ''K1'') (\<lambda>_. Inr ''C1'') disk_host ''ca'' [] = (Inr ?ca, h1)"
    by (simp add: CertificateAuthority_new_def ca_generate_def call_unit_def path_exists_def reply_true_def
        reply_unit_def Let_def io_simps lib_ctx_def disk_host_def file_of_def text_rcgen_def)
  have "\<forall>key. key_from_pem text_rcgen (serialize_pem text_rcgen key) = Inr key"
    by (simp add: text_rcgen_def)
  moreover have "file_of [] (path_join ''ca'' ''ca.crt'') = None"
    by (simp add: file_of_def)
  moreover have "disk_host h1 (CreateDirAll ''ca'') = ROk"
    by (simp add: disk_host_def)
  ultimately show ?thesis
    using ca_survives_restart [OF disk_host_faithful disk_host_faithful _ _ run, of "\<lambda>_. Inr ''C2''" "''C2''" "Inr ''K2''"]
    by (auto simp: run)
qed

end
