(* ===== verification/Gateway.thy ===== *)
theory Gateway
  imports ProxyCalls "HOL-Library.Sublist"
begin

text \<open>
  The contract the DNS proxy and the HTTP proxy share. Both resolve the peer's address to a VM,
  turn an unknown peer away with a fixed answer, and hand the request of a known VM to a handler
  that puts it to the authorization service. The locale \<open>gateway\<close> states this shape and derives
  that such a proxy fails closed; \<open>sending_gateway\<close> adds which calls leave the machine and derives
  that each of them was granted before to a VM with the peer's address. The notion \<open>justified\<close>
  composes over the operations of a connection.
\<close>

subsection \<open>Listeners\<close>

text \<open>What the accept loops of the TCP proxies wake up with.\<close>

datatype listener_wake = Connection "io_error + socket_addr" | ListenerCancelled

text \<open>The result of a listener: how it has stopped (\<open>None\<close>: it has not yet), whether it has sent
  the readiness signal, and the handlers it has spawned.\<close>

type_synonym 'j listener_run = "(anyhow + unit) option \<times> bool \<times> 'j list"

definition bind_failed :: "string \<Rightarrow> io_error \<Rightarrow> 'j listener_run" where
  "bind_failed c e = (Some (Inl (err_context c (anyhow_of_io e))), False, [])"

subsection \<open>Justified traces\<close>

text \<open>Every call of \<open>C\<close> in the trace \<open>k\<close>, which starts at the history \<open>h\<close>, was granted before
  it to a VM that had the peer's address at some moment since the start.\<close>

definition justified ::
  "net_call set \<Rightarrow> (vm_id \<Rightarrow> net_call \<Rightarrow> net_history \<Rightarrow> bool) \<Rightarrow> registry_view \<Rightarrow> socket_addr \<Rightarrow>
   net_history \<Rightarrow> net_history \<Rightarrow> bool" where
  "justified C granted reg peer_addr h k \<longleftrightarrow>
     (\<forall>k1 c r k2. k = k1 @ (c, r) # k2 \<longrightarrow> c \<in> C \<longrightarrow>
        (\<exists>i k0. prefix k0 k1 \<and> vm_at reg (h @ k0) peer_addr = Some i \<and> granted i c k1))"

definition stable :: "(vm_id \<Rightarrow> net_call \<Rightarrow> net_history \<Rightarrow> bool) \<Rightarrow> bool" where
  "stable granted \<longleftrightarrow> (\<forall>i c k k'. granted i c k' \<longrightarrow> granted i c (k @ k'))"

lemma justified_quiet: "fst ` set k \<inter> C = {} \<Longrightarrow> justified C granted reg peer_addr h k"
  by (fastforce simp: justified_def)

lemma justified_mono:
  assumes "justified C granted reg peer_addr h k" and "\<And>i c k. granted i c k \<Longrightarrow> granted' i c k"
  shows "justified C granted' reg peer_addr h k"
  using assms unfolding justified_def by metis

lemma justified_append:
  assumes "stable granted"
    and "justified C granted reg peer_addr h k" "justified C granted reg peer_addr (h @ k) k'"
  shows "justified C granted reg peer_addr h (k @ k')"
  unfolding justified_def
proof (intro allI impI)
  fix k1 c r k2
  assume "k @ k' = k1 @ (c, r) # k2" and c: "c \<in> C"
  then consider us where "k = k1 @ (c, r) # us" | us where "k1 = k @ us" "k' = us @ (c, r) # k2"
    by (auto simp: append_eq_append_conv2 append_eq_Cons_conv)
  then show "\<exists>i k0. prefix k0 k1 \<and> vm_at reg (h @ k0) peer_addr = Some i \<and> granted i c k1"
  proof cases
    case (1 us)
    then show ?thesis
      using assms(2) c unfolding justified_def by blast
  next
    case (2 us)
    then obtain i k0 where "prefix k0 us" "vm_at reg ((h @ k) @ k0) peer_addr = Some i" "granted i c us"
      using assms(3) c unfolding justified_def by blast
    then show ?thesis
      using 2(1) assms(1) by (intro exI [of _ i] exI [of _ "k @ k0"]) (auto simp: stable_def)
  qed
qed

text \<open>An operation all of whose calls of \<open>C\<close> are justified.\<close>

definition lawful ::
  "net_call set \<Rightarrow> (vm_id \<Rightarrow> net_call \<Rightarrow> net_history \<Rightarrow> bool) \<Rightarrow> registry_view \<Rightarrow> socket_addr \<Rightarrow> 'a proxy \<Rightarrow> bool" where
  "lawful C granted reg peer_addr m \<longleftrightarrow>
     (\<forall>es h. \<exists>x es' k. m (es, h) = (x, es', h @ k) \<and> justified C granted reg peer_addr h k)"

named_theorems lawful_intros "operations whose outgoing calls are justified"

lemma lawfulD:
  assumes "lawful C granted reg peer_addr m"
  obtains x es' k where "m (es, h) = (x, es', h @ k)" "justified C granted reg peer_addr h k"
  using assms unfolding lawful_def by blast

lemma lawful_case:
  "lawful C granted reg peer_addr m \<Longrightarrow>
   case m (es, h) of (x, es', h') \<Rightarrow> \<exists>k. h' = h @ k \<and> justified C granted reg peer_addr h k"
  by (erule lawfulD [of _ _ _ _ m es h]) simp

lemma lawful_sonly: "sonly m (- C) \<Longrightarrow> lawful C granted reg peer_addr m"
  unfolding lawful_def sonly_def straces_def
  by (meson disjoint_eq_subset_Compl justified_quiet)

lemma lawful_ret [lawful_intros]: "lawful C granted reg peer_addr (ret_io x)"
  by (auto simp: lawful_def ret_io_def intro!: exI [of _ "[]"] justified_quiet)

lemma lawful_bind [lawful_intros]:
  assumes "stable granted" and "lawful C granted reg peer_addr m"
    and "\<And>x. lawful C granted reg peer_addr (f x)"
  shows "lawful C granted reg peer_addr (bind_io m f)"
  unfolding lawful_def
proof (intro allI)
  fix es h
  obtain x es1 k1 where m: "m (es, h) = (x, es1, h @ k1)" "justified C granted reg peer_addr h k1"
    using assms(2) by (rule lawfulD)
  obtain y es2 k2 where f: "f x (es1, h @ k1) = (y, es2, (h @ k1) @ k2)" "justified C granted reg peer_addr (h @ k1) k2"
    using assms(3) by (rule lawfulD)
  show "\<exists>x es' k. bind_io m f (es, h) = (x, es', h @ k) \<and> justified C granted reg peer_addr h k"
    using m f justified_append [OF assms(1) m(2) f(2)] by (auto simp: bind_io_def)
qed

lemma lawful_bindE [lawful_intros]:
  assumes "stable granted" and "lawful C granted reg peer_addr m"
    and "\<And>x. lawful C granted reg peer_addr (f x)"
  shows "lawful C granted reg peer_addr (bindE m f)"
  unfolding bindE_def using assms by (intro lawful_bind) (auto split: sum.splits intro: lawful_ret)

lemma lawful_map [lawful_intros]:
  "lawful C granted reg peer_addr m \<Longrightarrow> lawful C granted reg peer_addr (map_io f m)"
  unfolding lawful_def map_io_def by (metis case_prod_conv)

lemma lawful_if [lawful_intros]:
  "lawful C granted reg peer_addr m \<Longrightarrow> lawful C granted reg peer_addr n \<Longrightarrow>
   lawful C granted reg peer_addr (if b then m else n)"
  by simp

text \<open>Only the address of the peer counts, not its port.\<close>

lemma vm_at_ip: "sa_ip a = sa_ip b \<Longrightarrow> vm_at reg h a = vm_at reg h b"
  by (simp add: vm_at_def)

lemma lawful_ip: "sa_ip a = sa_ip b \<Longrightarrow> lawful C granted reg a m = lawful C granted reg b m"
  by (simp add: lawful_def justified_def vm_at_def)

subsection \<open>The contract\<close>

locale gateway =
  fixes handler :: "registry_view \<Rightarrow> 'q \<Rightarrow> socket_addr \<Rightarrow> 'r proxy"
    and known :: "vm_id \<Rightarrow> string \<Rightarrow> 'q \<Rightarrow> 'r proxy"
    and correlation :: "string net"
    and refusal :: "'q \<Rightarrow> 'r"
    and outcome_ok :: "vm_id \<Rightarrow> 'q \<Rightarrow> 'r \<Rightarrow> net_history \<Rightarrow> bool"
  assumes handler_def: "handler reg q peer_addr =
        bind_io (lift_io correlation) (\<lambda>corr_id.
        bind_io (find_vm reg (sa_ip peer_addr)) (\<lambda>found.
        case found of None \<Rightarrow> ret_io (refusal q) | Some i \<Rightarrow> known i corr_id q))"
    and correlation_trace: "traces correlation (\<lambda>_ k. \<exists>r. k = [(NewCorrelation, r)])"
    and known_ok: "straces (known i corr_id q) es (\<lambda>r _ k. outcome_ok i q r k)"
    and ok_Cons: "outcome_ok i q r k \<Longrightarrow> outcome_ok i q r ((NewCorrelation, u) # k)"
begin

lemma handler_cases:
  obtains u where "vm_at reg (h @ [(NewCorrelation, u)]) peer_addr = None"
      "handler reg q peer_addr (es, h) = (refusal q, es, h @ [(NewCorrelation, u)])"
  | u i r es' k where "vm_at reg (h @ [(NewCorrelation, u)]) peer_addr = Some i"
      "handler reg q peer_addr (es, h) = (r, es', h @ (NewCorrelation, u) # k)" "outcome_ok i q r k"
proof -
  obtain corr_id h1 where c: "correlation h = (corr_id, h1)"
    by (cases "correlation h")
  then obtain u where h1: "h1 = h @ [(NewCorrelation, u)]"
    using tracesD [OF correlation_trace] by blast
  have run: "handler reg q peer_addr (es, h) =
      (case vm_at reg h1 peer_addr of None \<Rightarrow> (refusal q, es, h1) | Some i \<Rightarrow> known i corr_id q (es, h1))"
    using c by (simp add: handler_def find_vm_def vm_at_def io_simps split: option.splits)
  show thesis
  proof (cases "vm_at reg h1 peer_addr")
    case None
    then show thesis
      using run h1 by (intro that(1) [of u]) simp_all
  next
    case (Some i)
    obtain r es' k where "known i corr_id q (es, h1) = (r, es', h1 @ k)" "outcome_ok i q r k"
      using known_ok unfolding straces_def by blast
    then show thesis
      using run h1 Some by (intro that(2) [of u i r es' k]) simp_all
  qed
qed

lemma fail_closed:
  "case handler reg q peer_addr (es, h) of (r, es', h') \<Rightarrow>
     \<exists>k. h' = h @ k \<and>
       (case vm_at reg (h @ take 1 k) peer_addr of
          None \<Rightarrow> r = refusal q \<and> es' = es \<and> map fst k = [NewCorrelation]
        | Some i \<Rightarrow> outcome_ok i q r k)"
proof (rule handler_cases [of reg h peer_addr q es])
  fix u
  assume "vm_at reg (h @ [(NewCorrelation, u)]) peer_addr = None"
    "handler reg q peer_addr (es, h) = (refusal q, es, h @ [(NewCorrelation, u)])"
  then show ?thesis
    by (auto intro!: exI [of _ "[(NewCorrelation, u)]"])
next
  fix u i r es' k
  assume "vm_at reg (h @ [(NewCorrelation, u)]) peer_addr = Some i"
    "handler reg q peer_addr (es, h) = (r, es', h @ (NewCorrelation, u) # k)" "outcome_ok i q r k"
  then show ?thesis
    using ok_Cons by (auto intro!: exI [of _ "(NewCorrelation, u) # k"])
qed

end

locale sending_gateway = gateway +
  fixes sends :: "net_call set"
    and granted :: "'b \<Rightarrow> vm_id \<Rightarrow> net_call \<Rightarrow> net_history \<Rightarrow> bool"
  assumes ok_sends: "outcome_ok i q r (k1 @ (c, x) # k2) \<Longrightarrow> c \<in> sends \<Longrightarrow> granted q i c k1"
    and correlation_stays: "NewCorrelation \<notin> sends"
begin

lemma handler_lawful: "lawful sends (granted q) reg peer_addr (handler reg q peer_addr)"
  unfolding lawful_def
proof (intro allI)
  fix es h
  show "\<exists>x es' k. handler reg q peer_addr (es, h) = (x, es', h @ k) \<and> justified sends (granted q) reg peer_addr h k"
  proof (rule handler_cases [of reg h peer_addr q es])
    fix u
    assume "handler reg q peer_addr (es, h) = (refusal q, es, h @ [(NewCorrelation, u)])"
    then show ?thesis
      using correlation_stays by (auto intro!: exI [of _ "[(NewCorrelation, u)]"] justified_quiet)
  next
    fix u i r es' k
    assume vm: "vm_at reg (h @ [(NewCorrelation, u)]) peer_addr = Some i"
      and run: "handler reg q peer_addr (es, h) = (r, es', h @ (NewCorrelation, u) # k)" and ok: "outcome_ok i q r k"
    have "\<exists>i k0. prefix k0 k1 \<and> vm_at reg (h @ k0) peer_addr = Some i \<and> granted q i c k1"
      if split: "(NewCorrelation, u) # k = k1 @ (c, x) # k2" and c: "c \<in> sends" for k1 c x k2
    proof (intro exI conjI)
      have "k1 \<noteq> []"
        using split c correlation_stays by auto
      then show "prefix [(NewCorrelation, u)] k1"
        using split by (cases k1) auto
      show "vm_at reg (h @ [(NewCorrelation, u)]) peer_addr = Some i"
        by (rule vm)
      show "granted q i c k1"
        using ok_sends [OF _ c] ok_Cons [OF ok] split by metis
    qed
    then show ?thesis
      using run by (auto simp: justified_def intro!: exI [of _ "(NewCorrelation, u) # k"])
  qed
qed

end

end
