(* ===== verification/HttpProxy.thy ===== *)
theory HttpProxy
  imports ProxyProtocol Llm Ca Gateway
begin

text \<open>
  \<^verbatim>\<open>clawpot-server/src/proxy/http_proxy.rs\<close> and \<^verbatim>\<open>body_store.rs\<close>: the HTTP proxy. A request of a
  known VM is logged, put to the authorization service, forwarded with the server's API keys
  where they apply, and its response logged and returned.

  The \<^verbatim>\<open>http\<close> crate's conversions are the record \<open>http_lib\<close>. A \<^verbatim>\<open>HeaderMap\<close> is the list of its
  entries in iteration order, names in lower case as the crate stores them; a \<^verbatim>\<open>HashMap\<close> is a map,
  iterated in the order of \<open>hm_iter\<close>.
\<close>

subsection \<open>Stored bodies\<close>

datatype stored_body = Inline bytes | External string

record body_store =
  bs_storage_dir :: string
  bs_inline_threshold :: nat

definition inline_bytes :: "stored_body \<Rightarrow> bytes option" where
  "inline_bytes b = (case b of Inline bs \<Rightarrow> Some bs | External _ \<Rightarrow> None)"

definition external_path :: "stored_body \<Rightarrow> string option" where
  "external_path b = (case b of External p \<Rightarrow> if is_utf8 p then Some p else None | Inline _ \<Rightarrow> None)"

definition BodyStore_new :: "sys_host \<Rightarrow> string \<Rightarrow> (anyhow + body_store) sys" where
  "BodyStore_new host storage_dir =
     bindE (ctx_io (''Failed to create body storage dir: '' @ path_display storage_dir)
       (call_unit host (CreateDirAll storage_dir))) (\<lambda>_.
     ret_io (Inr \<lparr>bs_storage_dir = storage_dir, bs_inline_threshold = 64 * 1024\<rparr>))"

definition store_body ::
  "net_host \<Rightarrow> body_store \<Rightarrow> int \<Rightarrow> string \<Rightarrow> bytes \<Rightarrow> (anyhow + stored_body) net" where
  "store_body host bs request_id sfx body =
     (if length body \<le> bs_inline_threshold bs then ret_io (Inr (Inline body))
      else
        let path = path_join (bs_storage_dir bs) (show_int request_id @ ''_'' @ sfx @ ''.bin'') in
        bindE (ctx_io (''Failed to write body to '' @ path_display path) (tell host (WriteBody path body))) (\<lambda>_.
        ret_io (Inr (External path))))"

definition stored_path :: "anyhow + stored_body \<Rightarrow> string option" where
  "stored_path r = (case r of Inr (External p) \<Rightarrow> Some (path_display p) | _ \<Rightarrow> None)"

subsection \<open>Requests and responses\<close>

record http_lib =
  header_to_str :: "bytes \<Rightarrow> string option"
  uri_parse :: "string \<Rightarrow> string + string"
  header_valid :: "string \<times> string \<Rightarrow> bool"
  hm_iter :: "(string \<rightharpoonup> string) \<Rightarrow> (string \<times> string) list"

record http_request =
  hr_method :: string
  hr_path_and_query :: "string option"
  hr_headers :: header_list

record http_response =
  rs_status :: u16
  rs_headers :: "(string \<times> string) list"
  rs_body :: bytes

record proxy_ctx =
  px_body_store :: body_store
  px_auth :: auth_client
  px_llm_keys :: llm_key_store
  px_use_tls_upstream :: bool

text \<open>\<^verbatim>\<open>collect()\<close> into a hash map: of equal names, the last value stays.\<close>

definition headers_map :: "http_lib \<Rightarrow> header_list \<Rightarrow> string \<rightharpoonup> string" where
  "headers_map H hs = map_of (rev (map (\<lambda>(k, v). (k, unwrap_or [] (header_to_str H v))) hs))"

definition headers_json :: "libs \<Rightarrow> http_lib \<Rightarrow> (string \<rightharpoonup> string) \<Rightarrow> string" where
  "headers_json X H m = unwrap_or [] (json_to_string X (JObject (map (\<lambda>(k, v). (k, JString v)) (hm_iter H m))))"

definition request_host :: "http_lib \<Rightarrow> http_request \<Rightarrow> string" where
  "request_host H req = unwrap_or ''unknown'' (Option.bind (map_of (hr_headers req) ''host'') (header_to_str H))"

definition request_path :: "http_request \<Rightarrow> string" where
  "request_path req = unwrap_or ''/'' (hr_path_and_query req)"

definition request_url :: "http_lib \<Rightarrow> proxy_ctx \<Rightarrow> http_request \<Rightarrow> string" where
  "request_url H ctx req =
     (if px_use_tls_upstream ctx then ''https'' else ''http'') @ ''://'' @ request_host H req @ request_path req"

definition text_response :: "u16 \<Rightarrow> string \<Rightarrow> http_response" where
  "text_response st body = \<lparr>rs_status = st, rs_headers = [], rs_body = bytes_of body\<rparr>"

definition is_success :: "u16 \<Rightarrow> bool" where
  "is_success s \<longleftrightarrow> 200 \<le> unat s \<and> unat s < 300"

subsection \<open>Forwarding\<close>

text \<open>The headers sent upstream: the guest's without the stripped one, then the injected one.\<close>

definition upstream_headers :: "llm_detection option \<Rightarrow> header_list \<Rightarrow> header_list" where
  "upstream_headers det hs =
     filter (\<lambda>(k, v). case Option.bind det det_strip_header of
         Some strip \<Rightarrow> to_ascii_lowercase k \<noteq> to_ascii_lowercase strip
       | None \<Rightarrow> True) hs @
     (case Option.bind det det_inject_header of
        Some (n, v) \<Rightarrow> [(n, bytes_of v)]
      | None \<Rightarrow> [])"

definition build_upstream ::
  "http_lib \<Rightarrow> llm_detection option \<Rightarrow> string \<Rightarrow> http_request \<Rightarrow> bytes \<Rightarrow> anyhow + upstream_request" where
  "build_upstream H det url req body =
     (case uri_parse H url of
        Inl e \<Rightarrow> Inl (err_context (''Invalid upstream URL: '' @ url) (anyhow e))
      | Inr uri \<Rightarrow>
          if (case Option.bind det det_inject_header of Some kv \<Rightarrow> \<not> header_valid H kv | None \<Rightarrow> False)
          then Inl (err_context ''Failed to build upstream request'' (anyhow ''failed to parse header value''))
          else Inr \<lparr>up_method = hr_method req, up_uri = uri,
                 up_headers = upstream_headers det (hr_headers req), up_body = body\<rparr>)"

definition send_upstream :: "net_host \<Rightarrow> upstream_request \<Rightarrow> (anyhow + u16 \<times> header_list) net" where
  "send_upstream host rq =
     ctx_io ''Upstream request failed''
       (map_io (\<lambda>r. to_anyhow (case r of NResponse s hs \<Rightarrow> Inr (s, hs) | NFail e \<Rightarrow> Inl e | _ \<Rightarrow> Inl bad_reply))
         (ask host (SendRequest rq)))"

text \<open>A body that cannot be read counts as empty.\<close>

definition collect_body :: "net_host \<Rightarrow> net_call \<Rightarrow> bytes net" where
  "collect_body host c = map_io (\<lambda>r. unwrap_or [] (result_ok (net_bytes r))) (ask host c)"

definition returned_headers :: "http_lib \<Rightarrow> (string \<rightharpoonup> string) \<Rightarrow> (string \<times> string) list" where
  "returned_headers H m =
     filter (\<lambda>(k, v). to_ascii_lowercase k \<notin> {''transfer-encoding'', ''connection''}) (hm_iter H m)"

subsection \<open>Logging\<close>

definition log_llm_request ::
  "libs \<Rightarrow> (i64 \<Rightarrow> string) \<Rightarrow> string \<Rightarrow> string \<Rightarrow> string \<Rightarrow> bytes \<Rightarrow> llm_detection option \<Rightarrow> unit proxy" where
  "log_llm_request X clock vm_id corr_id url req_body detection =
     (case detection of
        None \<Rightarrow> ret_io ()
      | Some det \<Rightarrow>
          let req_body_json = unwrap_or JNull (json_from_slice X req_body);
              (model, message_count, streaming) = extract_request_summary X (det_endpoint det) req_body
          in proxy_event X clock ''llm.request'' ''llm'' vm_id corr_id
               [(''provider'', JString (det_provider det)), (''endpoint'', JString (det_endpoint det)),
                (''model'', jopt JString model), (''message_count'', jopt jnat message_count),
                (''streaming'', jopt JBool streaming), (''url'', JString url), (''body'', req_body_json)])"

definition log_llm_response ::
  "libs \<Rightarrow> (i64 \<Rightarrow> string) \<Rightarrow> string \<Rightarrow> string \<Rightarrow> i64 \<Rightarrow> u16 \<Rightarrow> string option \<Rightarrow> bytes \<Rightarrow>
   llm_detection option \<Rightarrow> unit proxy" where
  "log_llm_response X clock vm_id corr_id duration_ms st content_type resp_body detection =
     (case detection of
        None \<Rightarrow> ret_io ()
      | Some det \<Rightarrow>
          let (body_json, model, input_tokens, output_tokens) =
                process_response X (det_endpoint det) content_type resp_body
          in proxy_event_done X clock ''llm.response'' ''llm'' vm_id corr_id duration_ms (is_success st)
               [(''provider'', JString (det_provider det)), (''endpoint'', JString (det_endpoint det)),
                (''model'', jopt JString model), (''input_tokens'', jopt ju64 input_tokens),
                (''output_tokens'', jopt ju64 output_tokens), (''status_code'', jnat (unat st)),
                (''body'', body_json)])"

subsection \<open>One request\<close>

text \<open>Lines 309 to 329.\<close>

definition deny_http ::
  "libs \<Rightarrow> net_host \<Rightarrow> (i64 \<Rightarrow> string) \<Rightarrow> string \<Rightarrow> string \<Rightarrow> string \<Rightarrow> (anyhow + http_response) proxy" where
  "deny_http X host clock vm_id corr_id reason =
     bind_io (lift_io (millis_since host)) (\<lambda>duration_ms.
     bind_io (proxy_event_done X clock ''network.http.response'' ''network'' vm_id corr_id duration_ms False
       [(''status_code'', jnat 403), (''resp_body_size'', jnat 0), (''duration_ms'', ji64 duration_ms)]) (\<lambda>_.
     ret_io (Inr (text_response 403 (''Denied: '' @ reason)))))"

text \<open>Lines 331 to 470: forward, log and return.\<close>

definition forward_http ::
  "libs \<Rightarrow> http_lib \<Rightarrow> net_host \<Rightarrow> (i64 \<Rightarrow> string) \<Rightarrow> proxy_ctx \<Rightarrow> string \<Rightarrow> string \<Rightarrow> http_request \<Rightarrow> bytes \<Rightarrow>
   (anyhow + http_response) proxy" where
  "forward_http X H host clock ctx vm_id corr_id req req_body =
     (let url = request_url H ctx req;
          detection = detect_llm_request (request_host H req) (request_path req) (px_llm_keys ctx) in
      bind_io (log_llm_request X clock vm_id corr_id url req_body detection) (\<lambda>_.
      bindE (ret_io (build_upstream H detection url req req_body)) (\<lambda>upstream_req.
      bindE (lift_io (send_upstream host upstream_req)) (\<lambda>(status, raw_headers).
        let resp_headers = headers_map H raw_headers in
        bind_io (lift_io (collect_body host CollectResponse)) (\<lambda>resp_body.
        bind_io (lift_io (millis_since host)) (\<lambda>duration_ms.
        bind_io (log_llm_response X clock vm_id corr_id duration_ms status (resp_headers ''content-type'')
          resp_body detection) (\<lambda>_.
        bind_io (lift_io (store_body host (px_body_store ctx) 0 ''resp'' resp_body)) (\<lambda>stored_resp.
        bind_io (proxy_event_done X clock ''network.http.response'' ''network'' vm_id corr_id duration_ms
          (is_success status)
          [(''status_code'', jnat (unat status)), (''resp_body_size'', jnat (length resp_body)),
           (''resp_body_path'', jopt JString (stored_path stored_resp)),
           (''resp_headers'', JString (headers_json X H resp_headers)),
           (''duration_ms'', ji64 duration_ms)]) (\<lambda>_.
        ret_io (Inr \<lparr>rs_status = status, rs_headers = returned_headers H resp_headers, rs_body = resp_body\<rparr>))))))))))"

text \<open>Lines 231 to 329: the request of a known VM up to the decision.\<close>

definition handle_known_request ::
  "libs \<Rightarrow> http_lib \<Rightarrow> net_host \<Rightarrow> (i64 \<Rightarrow> string) \<Rightarrow> proxy_ctx \<Rightarrow> string \<Rightarrow> string \<Rightarrow> http_request \<Rightarrow>
   (anyhow + http_response) proxy" where
  "handle_known_request X H host clock ctx vm_id corr_id req =
     (let headers = headers_map H (hr_headers req); url = request_url H ctx req in
      bind_io (lift_io (collect_body host CollectRequest)) (\<lambda>req_body.
      bind_io (lift_io (store_body host (px_body_store ctx) 0 ''req'' req_body)) (\<lambda>stored_body.
      bind_io (proxy_event X clock ''network.http.request'' ''network'' vm_id corr_id
        [(''method'', JString (hr_method req)), (''url'', JString url),
         (''headers'', JString (headers_json X H headers)), (''req_body_size'', jnat (length req_body)),
         (''req_body_path'', jopt JString (stored_path stored_body))]) (\<lambda>_.
      bind_io (lift_io (authorize_http host (px_auth ctx) 0 vm_id (hr_method req) url headers req_body)) (\<lambda>answer.
      bind_io (lift_io (millis_since host)) (\<lambda>auth_latency.
        let (allowed, reason) = decision answer in
        bind_io (proxy_event X clock ''network.http.authorized'' ''network'' vm_id corr_id
          [(''allowed'', JBool allowed), (''reason'', JString reason), (''latency_ms'', ji64 auth_latency)]) (\<lambda>_.
        if \<not> allowed then deny_http X host clock vm_id corr_id reason
        else forward_http X H host clock ctx vm_id corr_id req req_body)))))))"

definition handle_request_inner ::
  "libs \<Rightarrow> http_lib \<Rightarrow> net_host \<Rightarrow> (i64 \<Rightarrow> string) \<Rightarrow> registry_view \<Rightarrow> proxy_ctx \<Rightarrow> http_request \<Rightarrow>
   socket_addr \<Rightarrow> (anyhow + http_response) proxy" where
  "handle_request_inner X H host clock reg ctx req peer_addr =
     bind_io (lift_io (new_correlation X host)) (\<lambda>corr_id.
     bind_io (find_vm reg (sa_ip peer_addr)) (\<lambda>found.
     case found of
       None \<Rightarrow> ret_io (Inr (text_response 403 ''Unknown VM''))
     | Some i \<Rightarrow> handle_known_request X H host clock ctx (uuid_to_string X i) corr_id req))"

definition handle_request ::
  "libs \<Rightarrow> http_lib \<Rightarrow> net_host \<Rightarrow> (i64 \<Rightarrow> string) \<Rightarrow> registry_view \<Rightarrow> proxy_ctx \<Rightarrow> http_request \<Rightarrow>
   socket_addr \<Rightarrow> http_response proxy" where
  "handle_request X H host clock reg ctx req peer_addr =
     map_io (\<lambda>r. case r of
         Inr resp \<Rightarrow> resp
       | Inl e \<Rightarrow> text_response 502 (''Proxy error: '' @ err_display e))
       (handle_request_inner X H host clock reg ctx req peer_addr)"

subsection \<open>One connection\<close>

text \<open>
  On the listener behind the TLS proxy the peer is the TLS proxy, and the guest's address comes
  from the PROXY header. Keep-alive is off, so a connection carries at most one request, the one
  that the HTTP library delivers (\<open>incoming\<close>), if any.
\<close>

definition effective_addr :: "net_host \<Rightarrow> bool \<Rightarrow> socket_addr \<Rightarrow> (anyhow + socket_addr) net" where
  "effective_addr host proxy_protocol peer_addr =
     (if proxy_protocol then
        map_io (\<lambda>r. case r of Inl e \<Rightarrow> Inl e | Inr ip \<Rightarrow> Inr \<lparr>sa_ip = ip, sa_port = sa_port peer_addr\<rparr>)
          (read_proxy_header host)
      else ret_io (Inr peer_addr))"

definition serve_connection ::
  "libs \<Rightarrow> http_lib \<Rightarrow> net_host \<Rightarrow> (i64 \<Rightarrow> string) \<Rightarrow> registry_view \<Rightarrow> proxy_ctx \<Rightarrow> bool \<Rightarrow> http_request option \<Rightarrow>
   socket_addr \<Rightarrow> http_response option proxy" where
  "serve_connection X H host clock reg ctx proxy_protocol incoming peer_addr =
     bind_io (lift_io (effective_addr host proxy_protocol peer_addr)) (\<lambda>r.
     case r of
       Inl e \<Rightarrow> ret_io None
     | Inr addr \<Rightarrow>
         (case incoming of
            None \<Rightarrow> ret_io None
          | Some req \<Rightarrow> map_io Some (handle_request X H host clock reg ctx req addr)))"

subsection \<open>The listeners\<close>

text \<open>A connection to be served: the peer, the context and whether a PROXY header comes first.\<close>

type_synonym http_job = "socket_addr \<times> proxy_ctx \<times> bool"

fun run_listener :: "proxy_ctx \<Rightarrow> bool \<Rightarrow> listener_wake list \<Rightarrow> (anyhow + unit) option \<times> http_job list" where
  "run_listener ctx proxy_protocol [] = (None, [])"
| "run_listener ctx proxy_protocol (Connection (Inl e) # ws) =
     (Some (Inl (err_context ''Failed to accept connection'' (anyhow_of_io e))), [])"
| "run_listener ctx proxy_protocol (Connection (Inr peer_addr) # ws) =
     (case run_listener ctx proxy_protocol ws of (r, jobs) \<Rightarrow> (r, (peer_addr, ctx, proxy_protocol) # jobs))"
| "run_listener ctx proxy_protocol (ListenerCancelled # ws) = (Some (Inr ()), [])"

text \<open>\<^verbatim>\<open>run\<close>: one listener for plain HTTP, one behind the TLS proxy. An error of a listener is only
  reported; the function returns when both have stopped.\<close>

definition http_run ::
  "io_error + unit \<Rightarrow> io_error + unit \<Rightarrow> proxy_ctx \<Rightarrow> listener_wake list \<Rightarrow> listener_wake list \<Rightarrow>
   http_job listener_run" where
  "http_run http_bound https_bound ctx http_ws https_ws =
     (case http_bound of
        Inl e \<Rightarrow> bind_failed ''Failed to bind HTTP proxy on 0.0.0.0:10080'' e
      | Inr _ \<Rightarrow>
          (case https_bound of
             Inl e \<Rightarrow> bind_failed ''Failed to bind HTTP proxy on 0.0.0.0:10081'' e
           | Inr _ \<Rightarrow>
               (case (run_listener (ctx\<lparr>px_use_tls_upstream := False\<rparr>) False http_ws,
                      run_listener (ctx\<lparr>px_use_tls_upstream := True\<rparr>) True https_ws) of
                  ((r1, jobs1), (r2, jobs2)) \<Rightarrow>
                    (if r1 = None \<or> r2 = None then None else Some (Inr ()), True, jobs1 @ jobs2))))"

end
