(* ===== verification/TlsSni.thy ===== *)
theory TlsSni
  imports Utf8
begin

text \<open>
  \<open>extract_sni\<close> of \<^verbatim>\<open>clawpot-server/src/proxy/tls_mitm.rs\<close>: the server name out of the first
  bytes of a TLS connection. The bytes come from the guest; every slice access is the checked
  one of Rust, which panics out of range.
\<close>

subsection \<open>The parser\<close>

definition be16 :: "bytes \<Rightarrow> nat \<Rightarrow> u16 outcome" where
  "be16 xs i = bind_outcome (index xs i) (\<lambda>a. bind_outcome (index xs (i + 1)) (\<lambda>b.
     Ret (u16_from_be_bytes a b)))"

text \<open>\<^verbatim>\<open>u32::from_be_bytes([0, a, b, c]) as usize\<close>.\<close>

definition be24 :: "u8 \<Rightarrow> u8 \<Rightarrow> u8 \<Rightarrow> nat" where
  "be24 a b c = unat a * 65536 + unat b * 256 + unat c"

function sni_walk :: "bytes \<Rightarrow> nat \<Rightarrow> nat \<Rightarrow> string option outcome" where
  "sni_walk client_hello pos extensions_end =
     (if \<not> pos + 4 \<le> extensions_end then Ret None
      else
        bind_outcome (be16 client_hello pos) (\<lambda>ext_type.
        bind_outcome (be16 client_hello (pos + 2)) (\<lambda>len.
          let ext_len = unat len; pos = pos + 4 in
          if ext_type = 0 then
            if 5 \<le> ext_len \<and> pos + ext_len \<le> extensions_end then
              bind_outcome (index client_hello (pos + 2)) (\<lambda>name_type.
                if name_type = 0 then
                  bind_outcome (be16 client_hello (pos + 3)) (\<lambda>nlen.
                    let name_len = unat nlen in
                    if pos + 5 + name_len \<le> extensions_end then
                      bind_outcome (slice client_hello (pos + 5) (pos + 5 + name_len)) (\<lambda>name.
                        Ret (if is_utf8 (string_of name) then Some (string_of name) else None))
                    else Ret None)
                else Ret None)
            else Ret None
          else sni_walk client_hello (pos + ext_len) extensions_end)))"
  by pat_completeness auto
termination
  by (relation "measure (\<lambda>(ch, pos, end). end - pos)") auto

declare sni_walk.simps [simp del]

text \<open>From the session id to the extensions of a ClientHello.\<close>

definition hello_sni :: "bytes \<Rightarrow> string option outcome" where
  "hello_sni client_hello =
     (if length client_hello < 34 then Ret None
      else if length client_hello \<le> 34 then Ret None
      else bind_outcome (index client_hello 34) (\<lambda>session_id_len.
        let pos = 34 + (1 + unat session_id_len) in
        if length client_hello < pos + 2 then Ret None
        else bind_outcome (be16 client_hello pos) (\<lambda>cipher_suites_len.
          let pos = pos + (2 + unat cipher_suites_len) in
          if length client_hello \<le> pos then Ret None
          else bind_outcome (index client_hello pos) (\<lambda>compression_len.
            let pos = pos + (1 + unat compression_len) in
            if length client_hello < pos + 2 then Ret None
            else bind_outcome (be16 client_hello pos) (\<lambda>extensions_len.
              let pos = pos + 2;
                  extensions_end = pos + min (unat extensions_len) (length client_hello - pos)
              in sni_walk client_hello pos extensions_end)))))"

definition extract_sni :: "bytes \<Rightarrow> string option outcome" where
  "extract_sni buf =
     (if length buf < 5 then Ret None
      else bind_outcome (index buf 0) (\<lambda>b0.
        if b0 \<noteq> 0x16 then Ret None
        else bind_outcome (be16 buf 3) (\<lambda>record_len.
        bind_outcome (slice buf 5 (min (length buf) (5 + unat record_len))) (\<lambda>handshake.
          if handshake = [] then Ret None
          else bind_outcome (index handshake 0) (\<lambda>t.
            if t \<noteq> 0x01 then Ret None
            else
              bind_outcome (index handshake 1) (\<lambda>h1.
              bind_outcome (index handshake 2) (\<lambda>h2.
              bind_outcome (index handshake 3) (\<lambda>h3.
              bind_outcome (slice handshake 4 (min (length handshake) (4 + be24 h1 h2 h3))) (\<lambda>client_hello.
                hello_sni client_hello)))))))))"

subsection \<open>When it panics\<close>

lemma be16_in [simp]: "i + 1 < length xs \<Longrightarrow> be16 xs i = Ret (u16_from_be_bytes (xs ! i) (xs ! (i + 1)))"
  by (simp add: be16_def)

lemma sni_walk_total:
  "extensions_end \<le> length client_hello \<Longrightarrow> \<exists>r. sni_walk client_hello pos extensions_end = Ret r"
proof (induction client_hello pos extensions_end rule: sni_walk.induct)
  case (1 client_hello pos extensions_end)
  show ?case
  proof (cases "pos + 4 \<le> extensions_end \<and> u16_from_be_bytes (client_hello ! pos) (client_hello ! (pos + 1)) \<noteq> 0")
    case True
    then show ?thesis
      using 1 by (subst sni_walk.simps) (auto simp: Let_def)
  next
    case False
    then show ?thesis
      using "1.prems" by (subst sni_walk.simps) (auto simp: Let_def)
  qed
qed

lemma hello_sni_total: "\<exists>r. hello_sni client_hello = Ret r"
  unfolding hello_sni_def Let_def
  by (auto simp: not_less not_le simp del: index_in index_out intro!: sni_walk_total
      intro: exI [of _ None] simp: index_def)

text \<open>The record's handshake bytes that are in the buffer.\<close>

definition handshake_of :: "bytes \<Rightarrow> bytes" where
  "handshake_of buf = take (unat (u16_from_be_bytes (buf ! 3) (buf ! 4))) (drop 5 buf)"

lemma slice_handshake:
  assumes "5 \<le> length buf"
  shows "slice buf 5 (min (length buf) (5 + unat (u16_from_be_bytes (buf ! 3) (buf ! 4)))) = Ret (handshake_of buf)"
  using assms by (simp add: handshake_of_def min_def)

lemma extract_sni_unfold:
  assumes "5 \<le> length buf" "buf ! 0 = 0x16" "handshake_of buf \<noteq> []" "handshake_of buf ! 0 = 1"
  shows "extract_sni buf =
    (if length (handshake_of buf) < 4 then Panic
     else hello_sni (take (be24 (handshake_of buf ! 1) (handshake_of buf ! 2) (handshake_of buf ! 3))
       (drop 4 (handshake_of buf))))"
proof -
  let ?hs = "handshake_of buf"
  have "index buf 0 = Ret 0x16" "index ?hs 0 = Ret 1"
      "be16 buf 3 = Ret (u16_from_be_bytes (buf ! 3) (buf ! 4))"
    using assms by (auto simp: index_def)
  then have rest: "extract_sni buf = bind_outcome (index ?hs 1) (\<lambda>h1. bind_outcome (index ?hs 2) (\<lambda>h2.
      bind_outcome (index ?hs 3) (\<lambda>h3.
      bind_outcome (slice ?hs 4 (min (length ?hs) (4 + be24 h1 h2 h3))) hello_sni)))"
    using assms(1,3) slice_handshake [OF assms(1)]
    by (simp add: extract_sni_def del: slice_in index_in be16_in)
  show ?thesis
  proof (cases "length ?hs < 4")
    case True
    then have "length ?hs = 1 \<or> length ?hs = 2 \<or> length ?hs = 3"
      using assms(3) by (cases "length ?hs") auto
    then show ?thesis
      using True unfolding rest by (auto simp: index_def)
  next
    case False
    have "slice ?hs 4 (min (length ?hs) (4 + n)) = Ret (take n (drop 4 ?hs))" for n
      using False by (simp add: min_def)
    then show ?thesis
      using False unfolding rest by simp
  qed
qed

text \<open>C22: The SNI parser panics on exactly these inputs: a handshake record of type ClientHello
  that is cut off before the end of its four-byte handshake header (one to three bytes of it
  in the buffer). On every other byte string it returns.\<close>

theorem extract_sni_panics:
  "extract_sni buf = Panic \<longleftrightarrow>
     5 \<le> length buf \<and> buf ! 0 = 0x16 \<and> handshake_of buf \<noteq> [] \<and> handshake_of buf ! 0 = 1 \<and>
     length (handshake_of buf) < 4"
proof (cases "5 \<le> length buf \<and> buf ! 0 = 0x16 \<and> handshake_of buf \<noteq> [] \<and> handshake_of buf ! 0 = 1")
  case True
  then show ?thesis
    using extract_sni_unfold [of buf]
      hello_sni_total [of "take (be24 (handshake_of buf ! 1) (handshake_of buf ! 2) (handshake_of buf ! 3))
        (drop 4 (handshake_of buf))"]
    by auto
next
  case False
  have "extract_sni buf = Ret None"
  proof (cases "5 \<le> length buf \<and> buf ! 0 = 0x16")
    case True
    then have "index buf 0 = Ret 0x16" "be16 buf 3 = Ret (u16_from_be_bytes (buf ! 3) (buf ! 4))"
      by (auto simp: index_def)
    moreover have "index (handshake_of buf) 0 = Ret (handshake_of buf ! 0)" if "handshake_of buf \<noteq> []"
      using that by simp
    ultimately show ?thesis
      using True False slice_handshake [of buf]
      by (cases "handshake_of buf = []") (simp_all add: extract_sni_def del: slice_in index_in be16_in)
  next
    case False
    then show ?thesis
      by (cases "buf = []") (auto simp: extract_sni_def not_less)
  qed
  with False show ?thesis
    by auto
qed

subsection \<open>A server name survives encoding and parsing\<close>

definition wire_ext :: "u16 \<times> bytes \<Rightarrow> bytes" where
  "wire_ext e = u16_to_be_bytes (fst e) @ u16_to_be_bytes (of_nat (length (snd e))) @ snd e"

text \<open>The data of a server_name extension with one host name.\<close>

definition sni_data :: "string \<Rightarrow> bytes" where
  "sni_data name =
     u16_to_be_bytes (of_nat (length name + 3)) @ [0] @ u16_to_be_bytes (of_nat (length name)) @ bytes_of name"

definition wire_hello :: "bytes \<Rightarrow> bytes \<Rightarrow> bytes \<Rightarrow> bytes \<Rightarrow> bytes \<Rightarrow> bytes" where
  "wire_hello fixed session_id ciphers compression extensions =
     fixed @ [of_nat (length session_id)] @ session_id @
     u16_to_be_bytes (of_nat (length ciphers)) @ ciphers @
     [of_nat (length compression)] @ compression @
     u16_to_be_bytes (of_nat (length extensions)) @ extensions"

definition wire_record :: "bytes \<Rightarrow> bytes \<Rightarrow> bytes" where
  "wire_record version hello =
     (let n = length hello
      in [0x16] @ version @ u16_to_be_bytes (of_nat (n + 4)) @
         [1, of_nat (n div 65536), of_nat (n div 256), of_nat n] @ hello)"

lemma length_u16_to_be_bytes [simp]: "length (u16_to_be_bytes w) = 2"
  by (simp add: u16_to_be_bytes_def)

lemma be16_append: "i = length pre \<Longrightarrow> be16 (pre @ u16_to_be_bytes w @ post) i = Ret w"
  using u16_to_from_be_bytes [OF u16_to_be_bytes_def]
  by (simp add: be16_def u16_to_be_bytes_def nth_append)

lemma index_at: "i = length pre \<Longrightarrow> index (pre @ [y] @ post) i = Ret y"
  by simp

lemma slice_at: "i = length pre \<Longrightarrow> j = i + length xs \<Longrightarrow> slice (pre @ xs @ post) i j = Ret xs"
  by simp

lemma unat_u16_of_nat: "n < 65536 \<Longrightarrow> unat (of_nat n :: u16) = n"
  by (simp add: unat_of_nat take_bit_nat_eq_self)

lemma sni_walk_name:
  assumes "is_utf8 name" and "length name + 5 < 65536"
    and "ee \<ge> length pre + length (wire_ext (0, sni_data name))"
  shows "sni_walk (pre @ wire_ext (0, sni_data name) @ post) (length pre) ee = Ret (Some name)"
proof -
  let ?n = "length name"
  let ?ch = "pre @ wire_ext (0, sni_data name) @ post"
  have len: "length (sni_data name) = ?n + 5"
    by (simp add: sni_data_def)
  have ch: "?ch = pre @ u16_to_be_bytes 0 @ u16_to_be_bytes (of_nat (?n + 5)) @
      u16_to_be_bytes (of_nat (?n + 3)) @ [0] @ u16_to_be_bytes (of_nat ?n) @ bytes_of name @ post"
    by (simp only: wire_ext_def len fst_conv snd_conv) (simp add: sni_data_def)
  have "be16 ?ch (length pre) = Ret 0"
    unfolding ch by (rule be16_append) simp
  moreover have "be16 ?ch (length pre + 2) = Ret (of_nat (?n + 5))"
    unfolding ch
    using be16_append [of "length pre + 2" "pre @ u16_to_be_bytes 0" "of_nat (?n + 5)" "u16_to_be_bytes (of_nat (?n + 3)) @
        [0] @ u16_to_be_bytes (of_nat ?n) @ bytes_of name @ post"] by (simp del: be16_in)
  moreover have "index ?ch (length pre + 4 + 2) = Ret 0"
    unfolding ch
    using index_at [of "length pre + 4 + 2" "pre @ u16_to_be_bytes 0 @ u16_to_be_bytes (of_nat (?n + 5)) @
        u16_to_be_bytes (of_nat (?n + 3))" 0 "u16_to_be_bytes (of_nat ?n) @ bytes_of name @ post"]
    by (simp del: index_in)
  moreover have "be16 ?ch (length pre + 4 + 3) = Ret (of_nat ?n)"
    unfolding ch
    using be16_append [of "length pre + 4 + 3" "pre @ u16_to_be_bytes 0 @ u16_to_be_bytes (of_nat (?n + 5)) @
        u16_to_be_bytes (of_nat (?n + 3)) @ [0]" "of_nat ?n" "bytes_of name @ post"] by (simp del: be16_in)
  moreover have "slice ?ch (length pre + 4 + 5) (length pre + 4 + 5 + ?n) = Ret (bytes_of name)"
    unfolding ch
    using slice_at [of "length pre + 4 + 5" "pre @ u16_to_be_bytes 0 @ u16_to_be_bytes (of_nat (?n + 5)) @
        u16_to_be_bytes (of_nat (?n + 3)) @ [0] @ u16_to_be_bytes (of_nat ?n)" _ "bytes_of name" post]
    by (simp del: slice_in)
  moreover have "length pre + 4 + (?n + 5) \<le> ee"
    using assms(3) len by (simp add: wire_ext_def)
  ultimately show ?thesis
    using assms(1,2) by (subst sni_walk.simps) (simp add: Let_def unat_u16_of_nat del: of_nat_add be16_in index_in slice_in)
qed

lemma sni_walk_skip:
  assumes "\<forall>e \<in> set es. fst e \<noteq> 0 \<and> length (snd e) < 65536"
    and "is_utf8 name" and "length name + 5 < 65536"
    and "ee \<ge> length pre + length (concat (map wire_ext es) @ wire_ext (0, sni_data name))"
  shows "sni_walk (pre @ concat (map wire_ext es) @ wire_ext (0, sni_data name) @ post) (length pre) ee =
    Ret (Some name)"
  using assms(1,4)
proof (induction es arbitrary: pre)
  case Nil
  then show ?case
    using sni_walk_name [OF assms(2,3)] by simp
next
  case (Cons e es)
  let ?tail = "concat (map wire_ext es) @ wire_ext (0, sni_data name) @ post"
  let ?ch = "pre @ wire_ext e @ ?tail"
  have e: "fst e \<noteq> 0" "length (snd e) < 65536"
    using Cons.prems by auto
  have "be16 ?ch (length pre) = Ret (fst e)"
    using be16_append [of "length pre" pre "fst e"] by (simp add: wire_ext_def del: be16_in)
  moreover have "be16 ?ch (length pre + 2) = Ret (of_nat (length (snd e)))"
    using be16_append [of "length pre + 2" "pre @ u16_to_be_bytes (fst e)" "of_nat (length (snd e))" "snd e @ ?tail"]
    by (simp add: wire_ext_def del: be16_in)
  moreover have len: "length (wire_ext e) = 4 + length (snd e)"
    by (simp add: wire_ext_def)
  moreover have "sni_walk ?ch (length pre + 4 + length (snd e)) ee = Ret (Some name)"
    using Cons.IH [of "pre @ wire_ext e"] Cons.prems len by (simp add: add.assoc)
  moreover have "length pre + 4 \<le> ee"
    using Cons.prems by (simp add: wire_ext_def)
  ultimately show ?case
    using e by (subst sni_walk.simps) (simp add: Let_def unat_u16_of_nat del: be16_in)
qed

lemma unat_u8_of_nat: "n < 256 \<Longrightarrow> unat (of_nat n :: u8) = n"
  by (simp add: unat_of_nat take_bit_nat_eq_self)

lemma hello_sni_wire:
  assumes "length fixed = 34" "length sid < 256" "length cs < 65536" "length cm < 256" "length exts < 65536"
  shows "hello_sni (wire_hello fixed sid cs cm exts) =
    sni_walk (wire_hello fixed sid cs cm exts) (40 + length sid + length cs + length cm)
      (length (wire_hello fixed sid cs cm exts))"
proof -
  let ?ch = "wire_hello fixed sid cs cm exts"
  let ?a = "fixed @ [of_nat (length sid)] @ sid"
  let ?b = "?a @ u16_to_be_bytes (of_nat (length cs)) @ cs"
  let ?c = "?b @ [of_nat (length cm)] @ cm"
  have len: "length ?ch = 40 + length sid + length cs + length cm + length exts"
    using assms(1) by (simp add: wire_hello_def)
  have i1: "index ?ch 34 = Ret (of_nat (length sid))"
    unfolding wire_hello_def by (rule index_at) (simp add: assms(1))
  have i2: "be16 ?ch (35 + length sid) = Ret (of_nat (length cs))"
    using be16_append [of "35 + length sid" ?a] assms(1) by (simp add: wire_hello_def del: be16_in)
  have i3: "index ?ch (37 + length sid + length cs) = Ret (of_nat (length cm))"
    using index_at [of "37 + length sid + length cs" ?b "of_nat (length cm)"] assms(1)
    by (simp add: wire_hello_def del: index_in)
  have i4: "be16 ?ch (38 + length sid + length cs + length cm) = Ret (of_nat (length exts))"
    using be16_append [of "38 + length sid + length cs + length cm" ?c "of_nat (length exts)" exts] assms(1)
    by (simp add: wire_hello_def del: be16_in)
  show ?thesis
    unfolding hello_sni_def Let_def len
    using assms i1 i2 i3 i4
    by (simp add: unat_u8_of_nat unat_u16_of_nat add.assoc del: be16_in index_in)
qed

lemma be24_of_nat:
  assumes "n < 16777216"
  shows "be24 (of_nat (n div 65536)) (of_nat (n div 256)) (of_nat n) = n"
proof -
  have low: "unat (of_nat m :: u8) = m mod 256" for m
    by (simp add: unat_of_nat take_bit_eq_mod)
  have "n div 65536 < 256"
    using assms by (simp add: less_mult_imp_div_less)
  moreover have "n div 65536 = n div 256 div 256"
    by (simp add: div_mult2_eq [symmetric])
  moreover have "n div 256 div 256 * 256 + n div 256 mod 256 = n div 256"
    by simp
  moreover have "n div 256 * 256 + n mod 256 = n"
    by simp
  ultimately show ?thesis
    unfolding be24_def low by (simp only: mod_less)
qed

lemma extract_sni_wire:
  assumes "length version = 2" "length hello + 4 < 65536"
  shows "extract_sni (wire_record version hello @ rest) = hello_sni hello"
proof -
  let ?n = "length hello"
  let ?hs = "[1, of_nat (?n div 65536), of_nat (?n div 256), of_nat ?n] @ hello"
  let ?buf = "wire_record version hello @ rest"
  have buf: "?buf = ([0x16] @ version) @ u16_to_be_bytes (of_nat (?n + 4)) @ ?hs @ rest"
    by (simp add: wire_record_def Let_def)
  have "be16 ?buf 3 = Ret (of_nat (?n + 4))"
    unfolding buf by (rule be16_append) (simp add: assms(1))
  moreover have "be16 ?buf 3 = Ret (u16_from_be_bytes (?buf ! 3) (?buf ! 4))"
    unfolding buf using assms(1) by simp
  ultimately have "unat (u16_from_be_bytes (?buf ! 3) (?buf ! 4)) = ?n + 4"
    using unat_u16_of_nat [OF assms(2)] by simp
  moreover have "drop 5 ?buf = ?hs @ rest"
    using assms(1) unfolding buf by simp
  moreover have "length ?hs = ?n + 4"
    by simp
  then have "take (?n + 4) (?hs @ rest) = ?hs"
    by (metis append_eq_conv_conj)
  ultimately have "handshake_of ?buf = ?hs"
    by (simp only: handshake_of_def)
  then show ?thesis
    using extract_sni_unfold [of ?buf] be24_of_nat [of ?n] assms by (simp add: buf)
qed

text \<open>C21: Round trip: the parser finds the server name of every well-formed ClientHello, whatever
  its session id, cipher suites and compression methods, whatever other extensions come before
  the server name and whatever follows it, in the hello and in the buffer.\<close>

theorem extract_sni_roundtrip:
  assumes "length version = 2" and "length fixed = 34"
    and "length sid < 256" and "length cs < 65536" and "length cm < 256"
    and "\<forall>e \<in> set es. fst e \<noteq> 0 \<and> length (snd e) < 65536"
    and "is_utf8 name" and "length name + 5 < 65536"
    and "exts = concat (map wire_ext es) @ wire_ext (0, sni_data name) @ post"
    and "length (wire_hello fixed sid cs cm exts) + 4 < 65536"
  shows "extract_sni (wire_record version (wire_hello fixed sid cs cm exts) @ rest) = Ret (Some name)"
proof -
  let ?ch = "wire_hello fixed sid cs cm exts"
  define pre where "pre = fixed @ [of_nat (length sid)] @ sid @ u16_to_be_bytes (of_nat (length cs)) @ cs @
    [of_nat (length cm)] @ cm @ u16_to_be_bytes (of_nat (length exts))"
  have pre: "length pre = 40 + length sid + length cs + length cm"
    using assms(2) by (simp add: pre_def)
  have ch: "?ch = pre @ exts"
    by (simp add: wire_hello_def pre_def)
  have "length exts < 65536"
    using assms(10) by (simp add: ch)
  then have "hello_sni ?ch = sni_walk ?ch (length pre) (length ?ch)"
    unfolding pre using hello_sni_wire [OF assms(2-5)] by blast
  also have "\<dots> = Ret (Some name)"
    unfolding ch unfolding assms(9) by (rule sni_walk_skip [OF assms(6-8)]) simp
  finally show ?thesis
    using extract_sni_wire [OF assms(1,10)] by simp
qed

theorem extract_sni_roundtrip_witness:
  "extract_sni (wire_record [3, 1] (wire_hello (replicate 34 7) [1, 2] [0x13, 1] [0]
     (wire_ext (10, [0, 2, 0, 29]) @ wire_ext (0, sni_data ''a.io'') @ wire_ext (16, []))) @ [9, 9]) =
   Ret (Some ''a.io'')"
  using extract_sni_roundtrip [of "[3, 1]" "replicate 34 7" "[1, 2]" "[0x13, 1]" "[0]" "[(10, [0, 2, 0, 29])]"
      "''a.io''" _ "wire_ext (16, [])" "[9, 9]"]
  by (simp add: is_utf8_def utf8_valid_ascii wire_hello_def wire_ext_def sni_data_def)

end
