(* ===== verification/TlsMitm.thy ===== *)
theory TlsMitm
  imports TlsSni Ca ProxyProtocol Gateway
begin

text \<open>
  \<^verbatim>\<open>clawpot-server/src/proxy/tls_mitm.rs\<close>: the TLS proxy. It peeks at the ClientHello, issues a
  certificate for the server name in it, terminates TLS with that certificate and hands the
  plain stream to the HTTP proxy, preceded by a PROXY header with the guest's address.
  PEM parsing and the checks of the \<^verbatim>\<open>rustls\<close> configuration are the record \<open>rustls\<close>.
\<close>

record rustls =
  pem_certs :: "string \<Rightarrow> string + string list"
  pem_private_key :: "string \<Rightarrow> string + string option"
  with_single_cert :: "string list \<Rightarrow> string \<Rightarrow> string + unit"

definition build_server_config :: "rustls \<Rightarrow> string \<Rightarrow> string \<Rightarrow> string \<Rightarrow> anyhow + string list \<times> string" where
  "build_server_config T cert_pem key_pem ca_pem =
     (case lib_ctx ''Failed to parse leaf cert PEM'' (pem_certs T cert_pem) of
        Inl e \<Rightarrow> Inl e
      | Inr certs \<Rightarrow>
          (case lib_ctx ''Failed to parse CA cert PEM'' (pem_certs T ca_pem) of
             Inl e \<Rightarrow> Inl e
           | Inr ca_certs \<Rightarrow>
               (case lib_ctx ''Failed to read private key PEM'' (pem_private_key T key_pem) of
                  Inl e \<Rightarrow> Inl e
                | Inr None \<Rightarrow> Inl (anyhow ''No private key found in PEM'')
                | Inr (Some key) \<Rightarrow>
                    (case lib_ctx ''Failed to build ServerConfig'' (with_single_cert T (certs @ ca_certs) key) of
                       Inl e \<Rightarrow> Inl e
                     | Inr _ \<Rightarrow> Inr (certs @ ca_certs, key)))))"

abbreviation HTTP_PROXY_TLS_ADDR :: string where
  "HTTP_PROXY_TLS_ADDR \<equiv> ''127.0.0.1:10081''"

text \<open>\<^verbatim>\<open>"0.0.0.0:10443".parse()\<close>.\<close>

definition MITM_LISTEN_ADDR :: socket_addr where
  "MITM_LISTEN_ADDR = \<lparr>sa_ip = V4 0, sa_port = 10443\<rparr>"

type_synonym ('k, 'c, 'a) mitm = "(('k, 'c) certificate_authority \<times> net_history, 'a) io"

definition peek_hello :: "net_host \<Rightarrow> (anyhow + bytes) net" where
  "peek_hello host =
     ctx_io ''Failed to peek at TLS ClientHello''
       (map_io (\<lambda>r. to_anyhow (net_bytes r)) (ask host (PeekStream 4096)))"

text \<open>Lines 80 to 113, once the server name is known. \<open>draw\<close> is what the random functions of the
  certificate crate give in this connection.\<close>

definition mitm_serve ::
  "('k, 'c) rcgen \<Rightarrow> rustls \<Rightarrow> net_host \<Rightarrow> (string \<Rightarrow> ('k, 'c) cert_request) \<Rightarrow> socket_addr \<Rightarrow> string \<Rightarrow>
   ('k, 'c, anyhow + unit) mitm" where
  "mitm_serve R T host draw client_addr sni =
     bindE (\<lambda>(ca, h). case get_or_create_cert R ((draw sni)\<lparr>cr_domain := sni\<rparr>) ca of
         (r, ca') \<Rightarrow> (with_context (''Failed to generate cert for '' @ sni) r, (ca', h))) (\<lambda>leaf.
     bindE (gets_io (\<lambda>ca. with_context (''Failed to build TLS config for '' @ sni)
         (build_server_config T (cc_cert_pem leaf) (cc_key_pem leaf) (ca_cert_pem ca)))) (\<lambda>(chain, key).
     bindE (lift_io (ctx_io ''TLS handshake failed'' (tell host (TlsHandshake chain key)))) (\<lambda>_.
     bindE (lift_io (ctx_io (''Failed to connect to HTTP proxy at '' @ HTTP_PROXY_TLS_ADDR)
         (tell host (ConnectTcp HTTP_PROXY_TLS_ADDR)))) (\<lambda>_.
     bindE (lift_io (write_proxy_header host client_addr MITM_LISTEN_ADDR)) (\<lambda>_.
     bind_io (lift_io (tell host CopyStreams)) (\<lambda>_.
     ret_io (Inr ())))))))"

definition handle_connection ::
  "('k, 'c) rcgen \<Rightarrow> rustls \<Rightarrow> net_host \<Rightarrow> (string \<Rightarrow> ('k, 'c) cert_request) \<Rightarrow> socket_addr \<Rightarrow>
   ('k, 'c, (anyhow + unit) outcome) mitm" where
  "handle_connection R T host draw client_addr =
     bind_io (lift_io (peek_hello host)) (\<lambda>r.
     case r of
       Inl e \<Rightarrow> ret_io (Ret (Inl e))
     | Inr buf \<Rightarrow>
         (case extract_sni buf of
            Panic \<Rightarrow> ret_io Panic
          | Ret found \<Rightarrow>
              let sni = unwrap_or [] found in
              if sni = [] then ret_io (Ret (Inl (anyhow ''No SNI found in ClientHello'')))
              else map_io Ret (mitm_serve R T host draw client_addr sni)))"

subsection \<open>The listener\<close>

text \<open>How the accept loop stops (with an error, on cancellation, or not yet: \<open>None\<close>), and the
  clients it has spawned handlers for by then.\<close>

fun accept_loop :: "listener_wake list \<Rightarrow> (anyhow + unit) option \<times> socket_addr list" where
  "accept_loop [] = (None, [])"
| "accept_loop (Connection (Inl e) # ws) =
     (Some (Inl (err_context ''Failed to accept connection'' (anyhow_of_io e))), [])"
| "accept_loop (Connection (Inr addr) # ws) =
     (case accept_loop ws of (r, jobs) \<Rightarrow> (r, addr # jobs))"
| "accept_loop (ListenerCancelled # ws) = (Some (Inr ()), [])"

definition mitm_run :: "io_error + unit \<Rightarrow> listener_wake list \<Rightarrow> socket_addr listener_run" where
  "mitm_run bound ws =
     (case bound of
        Inl e \<Rightarrow> bind_failed ''Failed to bind TLS MITM proxy on 0.0.0.0:10443'' e
      | Inr _ \<Rightarrow> (case accept_loop ws of (r, clients) \<Rightarrow> (r, True, clients)))"

subsection \<open>The guest's address comes first\<close>

text \<open>
  What a trace of one connection may look like: a part that writes nothing to the HTTP proxy;
  then, if the stream is handed over, exactly one write, the PROXY header of this client,
  right before it.
\<close>

definition mitm_trace :: "socket_addr \<Rightarrow> net_history \<Rightarrow> bool" where
  "mitm_trace client_addr k \<longleftrightarrow>
     only_after (\<lambda>k1. written k1 = bytes_of (proxy_line client_addr MITM_LISTEN_ADDR)) k {CopyStreams}"

lemma straces_mitm_serve:
  "straces (mitm_serve R T host draw client_addr sni) ca (\<lambda>_ _ k. mitm_trace client_addr k)"
proof (rule stracesI)
  fix h
  let ?m = "mitm_serve R T host draw client_addr sni (ca, h)"
  show "\<exists>k. snd (snd ?m) = h @ k \<and> mitm_trace client_addr k"
    by (auto simp: mitm_serve_def write_proxy_header_def tell_def io_simps mitm_trace_def written_def
        split: prod.splits sum.splits)
qed

lemma mitm_trace_peek:
  "mitm_trace client_addr k \<Longrightarrow> mitm_trace client_addr ((PeekStream n, r) # k)"
  by (simp add: mitm_trace_def written_def)

lemma mitm_trace_peek_only: "mitm_trace client_addr [(PeekStream n, r)]"
  by (simp add: mitm_trace_def)

lemma straces_handle_connection:
  "straces (handle_connection R T host draw client_addr) ca (\<lambda>_ _ k. mitm_trace client_addr k)"
  unfolding handle_connection_def peek_hello_def
proof (rule straces_bind [OF straces_lift])
  show "traces (ctx_io ''Failed to peek at TLS ClientHello''
      (map_io (\<lambda>r. to_anyhow (net_bytes r)) (ask host (PeekStream 4096)))) (\<lambda>_ k. \<exists>r. k = [(PeekStream 4096, r)])"
    by (intro traces_ctx traces_map_ask) simp
qed (auto split: sum.splits outcome.splits simp: Let_def mitm_trace_peek_only
    intro!: straces_ret straces_map straces_weaken [OF straces_mitm_serve] mitm_trace_peek)

text \<open>C12: The TLS proxy vouches for the guest's address: whenever it starts to copy a
  connection to the HTTP proxy, all it has sent there before is the PROXY header of this
  very client.\<close>

theorem mitm_announces_client:
  "case handle_connection R T host draw client_addr (ca, h) of (r, ca', h') \<Rightarrow>
     \<exists>k. h' = h @ k \<and> only_after (\<lambda>k1. written k1 = bytes_of (proxy_line client_addr MITM_LISTEN_ADDR)) k {CopyStreams}"
  unfolding mitm_trace_def [symmetric] by (rule straces_case [OF straces_handle_connection])

end
