(* ===== verification/DnsMessage.thy ===== *)
theory DnsMessage
  imports Utf8
begin

unbundle bit_operations_syntax

text \<open>
  The DNS messages of \<^verbatim>\<open>clawpot-server/src/proxy/dns_proxy.rs\<close>: the parser of the question
  section, the REFUSED answer and the two-byte length prefix of DNS over TCP. Packets come
  from the guests, so the slice accesses are the checked ones, which panic out of range.
\<close>

subsection \<open>The question section\<close>

function parse_labels :: "bytes \<Rightarrow> nat \<Rightarrow> string list \<Rightarrow> (string list \<times> nat) option outcome" where
  "parse_labels packet pos labels =
     (if length packet \<le> pos then Ret None
      else bind_outcome (index packet pos) (\<lambda>b.
        let label_len = unat b in
        if label_len = 0 then Ret (Some (labels, pos + 1))
        else if length packet < pos + 1 + label_len then Ret None
        else bind_outcome (slice packet (pos + 1) (pos + 1 + label_len)) (\<lambda>l.
          parse_labels packet (pos + 1 + label_len) (labels @ [from_utf8_lossy l]))))"
  by pat_completeness auto
termination
  by (relation "measure (\<lambda>(packet, pos, labels). length packet - pos)") auto

declare parse_labels.simps [simp del]

definition qtype_str :: "u16 \<Rightarrow> string" where
  "qtype_str qtype =
     (if qtype = 1 then ''A'' else if qtype = 2 then ''NS'' else if qtype = 5 then ''CNAME''
      else if qtype = 6 then ''SOA'' else if qtype = 15 then ''MX'' else if qtype = 16 then ''TXT''
      else if qtype = 28 then ''AAAA'' else if qtype = 33 then ''SRV'' else if qtype = 255 then ''ANY''
      else ''OTHER'')"

definition parse_dns_question :: "bytes \<Rightarrow> (string \<times> string) option outcome" where
  "parse_dns_question packet =
     (if length packet < 12 then Ret None
      else bind_outcome (index packet 4) (\<lambda>q4. bind_outcome (index packet 5) (\<lambda>q5.
        if u16_from_be_bytes q4 q5 = 0 then Ret None
        else bind_outcome (parse_labels packet 12 []) (\<lambda>r.
          case r of
            None \<Rightarrow> Ret None
          | Some (labels, pos) \<Rightarrow>
              let name = join ''.'' labels in
              if length packet < pos + 2 then Ret (Some (name, ''unknown''))
              else bind_outcome (index packet pos) (\<lambda>a. bind_outcome (index packet (pos + 1)) (\<lambda>b.
                Ret (Some (name, qtype_str (u16_from_be_bytes a b)))))))))"

subsection \<open>The REFUSED answer\<close>

definition build_refused_response :: "bytes \<Rightarrow> bytes" where
  "build_refused_response query =
     (if length query < 12 then []
      else
        let resp = query;
            resp = resp[2 := (resp ! 2 OR 0x80) AND 0xFD];
            resp = resp[3 := (resp ! 3 AND 0xF0) OR 0x05]
        in take 6 resp @ [0, 0, 0, 0, 0, 0] @ drop 12 resp)"

subsection \<open>No packet makes the parser panic\<close>

lemma parse_labels_total: "\<exists>r. parse_labels packet pos labels = Ret r"
proof (induction packet pos labels rule: parse_labels.induct)
  case (1 packet pos labels)
  show ?case
  proof (cases "length packet \<le> pos \<or> unat (packet ! pos) = 0 \<or>
      length packet < pos + 1 + unat (packet ! pos)")
    case True
    then show ?thesis
      by (subst parse_labels.simps) (auto simp: Let_def not_le)
  next
    case False
    then show ?thesis
      using 1 by (subst parse_labels.simps) (auto simp: Let_def not_le not_less)
  qed
qed

lemma parse_labels_utf8:
  "\<forall>l \<in> set labels. is_utf8 l \<Longrightarrow> parse_labels packet pos labels = Ret (Some (ls, p)) \<Longrightarrow> \<forall>l \<in> set ls. is_utf8 l"
proof (induction packet pos labels rule: parse_labels.induct)
  case (1 packet pos labels)
  have pos: "pos < length packet"
    using "1.prems"(2) by (rule contrapos_pp) (simp add: parse_labels.simps [of packet pos])
  let ?n = "unat (packet ! pos)"
  let ?l = "take ?n (drop (pos + 1) packet)"
  show ?case
  proof (cases "?n = 0")
    case True
    then show ?thesis
      using "1.prems" pos by (auto simp: parse_labels.simps [of packet pos] Let_def)
  next
    case False
    then have n: "pos + 1 + ?n \<le> length packet"
      using "1.prems"(2) pos by (auto simp: parse_labels.simps [of packet pos] Let_def split: if_splits)
    then have rec: "parse_labels packet (pos + 1 + ?n) (labels @ [from_utf8_lossy ?l]) = Ret (Some (ls, p))"
      using "1.prems"(2) pos False by (auto simp: parse_labels.simps [of packet pos] Let_def)
    have "\<forall>l \<in> set (labels @ [from_utf8_lossy ?l]). is_utf8 l"
      using "1.prems"(1) is_utf8_lossy by auto
    then show ?thesis
      by (intro "1.IH" [of "packet ! pos" ?n ?l]) (use pos n False rec in simp_all)
  qed
qed

definition qtype_names :: "string list" where
  "qtype_names = [''A'', ''NS'', ''CNAME'', ''SOA'', ''MX'', ''TXT'', ''AAAA'', ''SRV'', ''ANY'', ''OTHER'', ''unknown'']"

text \<open>C33: The question parser returns a value of its type on every byte string a guest can send: none
  of its slice accesses is out of bounds, a name it returns is valid UTF-8, as every Rust string
  has to be, and the query type is one of eleven names.\<close>

theorem parse_dns_question_total:
  "\<exists>r. parse_dns_question packet = Ret r \<and>
     (case r of None \<Rightarrow> True | Some (name, qtype) \<Rightarrow> is_utf8 name \<and> qtype \<in> set qtype_names)"
proof -
  obtain r where r: "parse_labels packet 12 [] = Ret r"
    using parse_labels_total by blast
  have names: "is_utf8 (join ''.'' labels)" if "r = Some (labels, p)" for labels p
    using that r parse_labels_utf8 [of "[]" packet 12 labels p] by (intro is_utf8_join) (simp_all add: is_utf8_ascii)
  have qtype: "qtype_str w \<in> set qtype_names" for w
    by (simp add: qtype_str_def qtype_names_def)
  show ?thesis
  proof (cases r)
    case None
    then show ?thesis
      using r by (auto simp: parse_dns_question_def Let_def not_less)
  next
    case (Some lp)
    then show ?thesis
      using r names qtype by (cases lp) (auto simp: parse_dns_question_def Let_def not_less qtype_names_def)
  qed
qed

subsection \<open>A question survives encoding and parsing\<close>

definition wire_label :: "string \<Rightarrow> bytes" where
  "wire_label l = of_nat (length l) # bytes_of l"

definition wire_name :: "string list \<Rightarrow> bytes" where
  "wire_name ls = concat (map wire_label ls) @ [0]"

definition label_ok :: "string \<Rightarrow> bool" where
  "label_ok l \<longleftrightarrow> l \<noteq> [] \<and> length l < 256 \<and> (\<forall>c \<in> set l. (of_char c :: nat) < 0x80)"

lemma length_wire_label [simp]: "length (wire_label l) = Suc (length l)"
  by (simp add: wire_label_def)

lemma parse_labels_wire:
  assumes "\<forall>l \<in> set ls. label_ok l"
  shows "parse_labels (pre @ wire_name ls @ rest) (length pre) acc =
    Ret (Some (acc @ ls, length pre + length (wire_name ls)))"
  using assms
proof (induction ls arbitrary: pre acc)
  case Nil
  then show ?case
    by (subst parse_labels.simps) (simp add: wire_name_def)
next
  case (Cons l ls)
  have l: "l \<noteq> []" "unat (of_nat (length l) :: u8) = length l" "from_utf8_lossy (bytes_of l) = l"
    using Cons.prems from_utf8_lossy_ascii [of l]
    by (auto simp: label_ok_def unat_of_nat take_bit_nat_eq_self)
  let ?p = "pre @ wire_label l @ wire_name ls @ rest"
  have p: "pre @ wire_name (l # ls) @ rest = ?p"
    by (simp add: wire_name_def)
  have "slice ?p (length pre + 1) (length pre + 1 + length l) = Ret (bytes_of l)"
    using slice_append [of "pre @ [of_nat (length l)]" "bytes_of l" "wire_name ls @ rest"]
    by (simp add: wire_label_def)
  moreover have "index ?p (length pre) = Ret (of_nat (length l))"
    by (simp add: wire_label_def)
  moreover have "parse_labels ?p (length pre + 1 + length l) (acc @ [l]) =
      Ret (Some (acc @ l # ls, length pre + length (wire_name (l # ls))))"
    using Cons.IH [of "pre @ wire_label l" "acc @ [l]"] Cons.prems by (simp add: wire_name_def)
  ultimately show ?case
    unfolding p using l by (subst parse_labels.simps) (simp add: Let_def)
qed

text \<open>C32: Round trip: a query packet made of any twelve-byte header with a non-zero question
  count, the wire form of a name of ASCII labels, a type and anything after it, parses to the
  labels joined with dots and the mnemonic of the type.\<close>

theorem dns_question_roundtrip:
  assumes "length header = 12" and "u16_from_be_bytes (header ! 4) (header ! 5) \<noteq> 0"
    and "\<forall>l \<in> set ls. label_ok l"
  shows "parse_dns_question (header @ wire_name ls @ u16_to_be_bytes qtype @ rest) =
    Ret (Some (join ''.'' ls, qtype_str qtype))"
proof -
  obtain a b where ab: "u16_to_be_bytes qtype = [a, b]"
    by (simp add: u16_to_be_bytes_def)
  let ?n = "12 + length (wire_name ls)"
  have "index (header @ wire_name ls @ [a, b] @ rest) ?n = Ret a"
    using index_append [of "header @ wire_name ls" a "b # rest"] assms(1) by simp
  moreover have "index (header @ wire_name ls @ [a, b] @ rest) (?n + 1) = Ret b"
    using index_append [of "header @ wire_name ls @ [a]" b rest] assms(1) by simp
  ultimately show ?thesis
    using parse_labels_wire [OF assms(3), of header "[a, b] @ rest" "[]"] assms ab
      u16_to_from_be_bytes [OF ab] by (simp add: parse_dns_question_def nth_append Let_def)
qed

theorem dns_question_roundtrip_witness:
  "parse_dns_question
     ([0xAB, 0xCD, 1, 0, 0, 1, 0, 0, 0, 0, 0, 0] @ wire_name [''example'', ''com''] @
      u16_to_be_bytes 28 @ [0, 1]) = Ret (Some (''example.com'', ''AAAA''))"
  using dns_question_roundtrip [of "[0xAB, 0xCD, 1, 0, 0, 1, 0, 0, 0, 0, 0, 0]"
      "[''example'', ''com'']" 28 "[0, 1]"]
  by (simp add: label_ok_def u16_from_be_bytes_def qtype_str_def)

subsection \<open>What the REFUSED answer says\<close>

lemma parse_labels_cong:
  assumes "length p = length q" and "\<forall>i. pos \<le> i \<longrightarrow> i < length q \<longrightarrow> p ! i = q ! i"
  shows "parse_labels p pos labels = parse_labels q pos labels"
  using assms
proof (induction q pos labels rule: parse_labels.induct)
  case (1 q pos labels)
  show ?case
  proof (cases "length q \<le> pos")
    case True
    then show ?thesis
      using 1(2) by (subst (1 2) parse_labels.simps) simp
  next
    case False
    then have b: "p ! pos = q ! pos"
      using 1 by simp
    have "take n (drop (Suc pos) p) = take n (drop (Suc pos) q)" for n
      using 1(2,3) by (auto intro!: nth_equalityI)
    then show ?thesis
      using 1 False b by (subst (1 2) parse_labels.simps) (auto simp: Let_def not_le not_less)
  qed
qed

lemma refused_nth:
  assumes "12 \<le> length q" and "i < length q"
  shows "build_refused_response q ! i =
    (if i = 2 then (q ! 2 OR 0x80) AND 0xFD else if i = 3 then (q ! 3 AND 0xF0) OR 0x05
     else if 6 \<le> i \<and> i < 12 then 0 else q ! i)"
proof -
  consider "i < 6" | "6 \<le> i" "i < 12" | "12 \<le> i"
    by linarith
  then show ?thesis
  proof cases
    case 2
    then have "i \<in> {6, 7, 8, 9, 10, 11}"
      by auto
    then show ?thesis
      using assms by (auto simp: build_refused_response_def Let_def nth_append)
  qed (use assms in \<open>auto simp: build_refused_response_def Let_def nth_append nth_list_update\<close>)
qed

lemma length_refused: "12 \<le> length q \<Longrightarrow> length (build_refused_response q) = length q"
  by (simp add: build_refused_response_def Let_def)

lemma refused_same_question:
  assumes "12 \<le> length q"
  shows "parse_dns_question (build_refused_response q) = parse_dns_question q"
proof -
  let ?r = "build_refused_response q"
  have nth: "?r ! i = q ! i" if "12 \<le> i \<or> i = 4 \<or> i = 5" "i < length q" for i
    using refused_nth [OF assms that(2)] that by auto
  then have labels: "parse_labels ?r 12 [] = parse_labels q 12 []"
    by (intro parse_labels_cong) (auto simp: length_refused assms)
  have pos: "12 \<le> pos" if "parse_labels packet n ls = Ret (Some (ls', pos))" "12 \<le> n" for packet n ls ls' pos
    using that
  proof (induction packet n ls rule: parse_labels.induct)
    case (1 packet n ls)
    then show ?case
      by (subst (asm) parse_labels.simps) (auto simp: Let_def split: if_splits)
  qed
  have idx: "index ?r i = index q i" if "12 \<le> i \<or> i = 4 \<or> i = 5" for i
    using nth that assms by (simp add: index_def length_refused)
  show ?thesis
    unfolding parse_dns_question_def labels length_refused [OF assms]
    by (auto simp: idx Let_def split: option.splits intro!: bind_outcome_cong dest!: pos)
qed

text \<open>C34: The REFUSED answer to a query is a response (QR set) with code 5 that repeats the
  query's id and question, counts no records in the other sections and has the query's length.
  Of the flags, it clears TC (bit 1 of byte 2) and leaves AA (bit 2) as the guest sent it.\<close>

theorem refused_response_spec:
  assumes "12 \<le> length q" and "r = build_refused_response q"
  shows "length r = length q \<and> parse_dns_question r = parse_dns_question q \<and>
    take 2 r = take 2 q \<and> bit (r ! 2) 7 \<and> r ! 3 AND 0x0F = 5 \<and>
    (\<forall>i \<in> {6..<12}. r ! i = 0) \<and> (bit (r ! 2) 2 \<longleftrightarrow> bit (q ! 2) 2) \<and> \<not> bit (r ! 2) 1"
proof -
  note nth = refused_nth [OF assms(1), folded assms(2)]
  have id: "take 2 r = take 2 q"
    using nth length_refused [OF assms(1)] assms by (intro nth_equalityI) auto
  have flags: "r ! 2 = (q ! 2 OR 0x80) AND 0xFD"
    using nth [of 2] assms(1) by simp
  have rcode: "r ! 3 AND 0x0F = 5"
    using nth [of 3] assms(1) by (simp add: and.assoc bit.conj_disj_distrib2)
  have counts: "\<forall>i \<in> {6..<12}. r ! i = 0"
    using nth assms(1) by auto
  show ?thesis
    using id flags rcode counts refused_same_question [OF assms(1)] length_refused [OF assms(1)] assms(2)
    by (simp add: bit_simps)
qed

theorem refused_response_spec_witness:
  "parse_dns_question (build_refused_response (replicate 12 1)) = parse_dns_question (replicate 12 1)"
  using refused_response_spec [of "replicate 12 1" "build_refused_response (replicate 12 1)"] by simp

end
