(* ===== verification/DnsProxy.thy ===== *)
theory DnsProxy
  imports Gateway DnsMessage
begin

unbundle bit_operations_syntax

text \<open>
  \<^verbatim>\<open>clawpot-server/src/proxy/dns_proxy.rs\<close>: the filtering DNS forwarder. A query of a known VM
  is put to the authorization service and forwarded to the upstream resolver only if allowed;
  everything else is answered REFUSED. UDP datagrams and length-prefixed TCP messages share
  \<open>process_dns_query\<close>.
\<close>

subsection \<open>One query\<close>

text \<open>The question shown to the authorization service; the parser does not panic.\<close>

definition dns_question :: "bytes \<Rightarrow> string \<times> string" where
  "dns_question packet =
     (case parse_dns_question packet of
        Ret q \<Rightarrow> unwrap_or (''unknown'', ''unknown'') q
      | Panic \<Rightarrow> (''unknown'', ''unknown''))"

definition dns_refuse ::
  "libs \<Rightarrow> net_host \<Rightarrow> (i64 \<Rightarrow> string) \<Rightarrow> string \<Rightarrow> string \<Rightarrow> bytes \<Rightarrow> (anyhow + bytes) proxy" where
  "dns_refuse X host clock vm_id corr_id packet =
     bind_io (lift_io (millis_since host)) (\<lambda>duration_ms.
     bind_io (proxy_event_done X clock ''network.dns.response'' ''network'' vm_id corr_id duration_ms False
       [(''rcode'', jnat 5), (''answers'', JString ''REFUSED''), (''duration_ms'', ji64 duration_ms)]) (\<lambda>_.
     ret_io (Inr (build_refused_response packet))))"

definition recv_upstream :: "net_host \<Rightarrow> (anyhow + bytes) net" where
  "recv_upstream host =
     map_io (\<lambda>r. case r of
         NTimeout \<Rightarrow> Inl (err_context ''DNS upstream timeout'' (anyhow ''deadline has elapsed''))
       | r \<Rightarrow> with_context ''Failed to receive DNS response'' (to_anyhow (net_bytes r)))
       (ask host RecvUpstream)"

definition dns_forward ::
  "libs \<Rightarrow> net_host \<Rightarrow> (i64 \<Rightarrow> string) \<Rightarrow> string \<Rightarrow> string \<Rightarrow> bytes \<Rightarrow> (anyhow + bytes) proxy" where
  "dns_forward X host clock vm_id corr_id packet =
     bindE (lift_io (ctx_io ''Failed to send to upstream DNS'' (tell host (SendUpstream packet)))) (\<lambda>_.
     bindE (lift_io (recv_upstream host)) (\<lambda>response.
     bind_io (lift_io (millis_since host)) (\<lambda>duration_ms.
       let rcode = (if 4 \<le> length response then Some (unat (response ! 3 AND 0x0F)) else None) in
       bind_io (proxy_event_done X clock ''network.dns.response'' ''network'' vm_id corr_id duration_ms
         (rcode = Some 0)
         [(''rcode'', jopt jnat rcode), (''resp_size'', jnat (length response)),
          (''duration_ms'', ji64 duration_ms)]) (\<lambda>_.
       ret_io (Inr response)))))"

text \<open>The query of a known VM: log, authorize, then refuse or forward.\<close>

definition process_known_query ::
  "libs \<Rightarrow> net_host \<Rightarrow> (i64 \<Rightarrow> string) \<Rightarrow> auth_client \<Rightarrow> string \<Rightarrow> string \<Rightarrow> bytes \<Rightarrow>
   (anyhow + bytes) proxy" where
  "process_known_query X host clock auth vm_id corr_id packet =
     (let (query_name, query_type) = dns_question packet in
      bind_io (proxy_event X clock ''network.dns.request'' ''network'' vm_id corr_id
        [(''query_name'', JString query_name), (''query_type'', JString query_type)]) (\<lambda>_.
      bind_io (lift_io (authorize_dns host auth 0 vm_id query_name query_type)) (\<lambda>answer.
      bind_io (lift_io (millis_since host)) (\<lambda>auth_latency.
        let (allowed, reason) = decision answer in
        bind_io (proxy_event X clock ''network.dns.authorized'' ''network'' vm_id corr_id
          [(''allowed'', JBool allowed), (''reason'', JString reason), (''latency_ms'', ji64 auth_latency)])
          (\<lambda>_.
        if \<not> allowed then dns_refuse X host clock vm_id corr_id packet
        else dns_forward X host clock vm_id corr_id packet)))))"

definition process_dns_query ::
  "libs \<Rightarrow> net_host \<Rightarrow> (i64 \<Rightarrow> string) \<Rightarrow> registry_view \<Rightarrow> auth_client \<Rightarrow> bytes \<Rightarrow> socket_addr \<Rightarrow>
   (anyhow + bytes) proxy" where
  "process_dns_query X host clock reg auth packet peer_addr =
     bind_io (lift_io (new_correlation X host)) (\<lambda>corr_id.
     bind_io (find_vm reg (sa_ip peer_addr)) (\<lambda>found.
     case found of
       None \<Rightarrow> ret_io (Inr (build_refused_response packet))
     | Some i \<Rightarrow> process_known_query X host clock auth (uuid_to_string X i) corr_id packet))"

subsection \<open>DNS over TCP\<close>

text \<open>The error keeps the kind of the I/O error below its context, for the caller's downcast.\<close>

definition read_dns_length :: "net_host \<Rightarrow> (io_kind \<times> anyhow + nat) net" where
  "read_dns_length host =
     map_io (\<lambda>r. case net_bytes r of
         Inl e \<Rightarrow> Inl (io_kind e, err_context ''Failed to read DNS TCP length prefix'' (anyhow_of_io e))
       | Inr [a, b] \<Rightarrow> Inr (unat (u16_from_be_bytes a b))
       | Inr _ \<Rightarrow> Inl (OtherKind, anyhow_of_io bad_reply)) (ask host (ReadExact 2))"

definition write_dns_message :: "net_host \<Rightarrow> bytes \<Rightarrow> (anyhow + unit) net" where
  "write_dns_message host message =
     bindE (ctx_io ''Failed to write DNS TCP length prefix''
       (tell host (WriteAll (u16_to_be_bytes (of_nat (length message)))))) (\<lambda>_.
     bindE (ctx_io ''Failed to write DNS TCP message'' (tell host (WriteAll message))) (\<lambda>_.
     ctx_io ''Failed to flush DNS TCP message'' (tell host FlushStream)))"

definition read_dns_body :: "net_host \<Rightarrow> nat \<Rightarrow> (anyhow + bytes) net" where
  "read_dns_body host msg_len =
     ctx_io ''Failed to read TCP DNS message''
       (map_io (\<lambda>r. to_anyhow (net_bytes r)) (ask host (ReadExact msg_len)))"

text \<open>One turn of the loop: \<open>Inr True\<close> goes round again, \<open>Inr False\<close> leaves the loop.\<close>

definition tcp_dns_turn ::
  "libs \<Rightarrow> net_host \<Rightarrow> (i64 \<Rightarrow> string) \<Rightarrow> registry_view \<Rightarrow> auth_client \<Rightarrow> socket_addr \<Rightarrow>
   (anyhow + bool) proxy" where
  "tcp_dns_turn X host clock reg auth peer_addr =
     bind_io (lift_io (read_dns_length host)) (\<lambda>r.
     case r of
       Inl (kind, e) \<Rightarrow> ret_io (if kind = UnexpectedEof then Inr False else Inl e)
     | Inr msg_len \<Rightarrow>
         if msg_len = 0 then ret_io (Inr True)
         else
           bindE (lift_io (read_dns_body host msg_len)) (\<lambda>msg_buf.
           bindE (lift_io (ctx_io ''Failed to bind upstream UDP socket for TCP DNS'' (tell host BindUdp))) (\<lambda>_.
           bindE (process_dns_query X host clock reg auth msg_buf peer_addr) (\<lambda>response.
           bindE (lift_io (write_dns_message host response)) (\<lambda>_.
           ret_io (Inr True))))))"

text \<open>The connection loop runs as long as the guest keeps sending; \<open>None\<close> after \<open>turns\<close> turns
  means that it is still running.\<close>

primrec handle_tcp_dns_connection ::
  "nat \<Rightarrow> libs \<Rightarrow> net_host \<Rightarrow> (i64 \<Rightarrow> string) \<Rightarrow> registry_view \<Rightarrow> auth_client \<Rightarrow> socket_addr \<Rightarrow>
   (anyhow + unit) option proxy" where
  "handle_tcp_dns_connection 0 X host clock reg auth peer_addr = ret_io None"
| "handle_tcp_dns_connection (Suc turns) X host clock reg auth peer_addr =
     bind_io (tcp_dns_turn X host clock reg auth peer_addr) (\<lambda>r.
     case r of
       Inl e \<Rightarrow> ret_io (Some (Inl e))
     | Inr again \<Rightarrow>
         if again then handle_tcp_dns_connection turns X host clock reg auth peer_addr
         else ret_io (Some (Inr ())))"

subsection \<open>The listener\<close>

text \<open>
  What the \<^verbatim>\<open>select!\<close> of the listener can wake up with, and the handlers it has spawned by the
  time it stops: with an error, or on cancellation, or (\<open>None\<close>) not yet.
\<close>

datatype dns_wake =
    Datagram "io_error + bytes \<times> socket_addr" "io_error + unit"
  | Accepted "io_error + socket_addr"
  | DnsCancelled

datatype dns_job = UdpJob bytes socket_addr | TcpJob socket_addr

fun dns_listener :: "dns_wake list \<Rightarrow> (anyhow + unit) option \<times> dns_job list" where
  "dns_listener [] = (None, [])"
| "dns_listener (Datagram (Inl e) _ # ws) =
     (Some (Inl (err_context ''Failed to receive DNS packet'' (anyhow_of_io e))), [])"
| "dns_listener (Datagram (Inr (packet, peer)) upstream # ws) =
     (case dns_listener ws of (r, jobs) \<Rightarrow>
       (r, (case upstream of Inr _ \<Rightarrow> [UdpJob packet peer] | Inl _ \<Rightarrow> []) @ jobs))"
| "dns_listener (Accepted (Inl e) # ws) =
     (Some (Inl (err_context ''Failed to accept TCP DNS connection'' (anyhow_of_io e))), [])"
| "dns_listener (Accepted (Inr peer) # ws) =
     (case dns_listener ws of (r, jobs) \<Rightarrow> (r, TcpJob peer # jobs))"
| "dns_listener (DnsCancelled # ws) = (Some (Inr ()), [])"

definition dns_run :: "io_error + unit \<Rightarrow> io_error + unit \<Rightarrow> dns_wake list \<Rightarrow> dns_job listener_run" where
  "dns_run udp_bound tcp_bound ws =
     (case udp_bound of
        Inl e \<Rightarrow> bind_failed ''Failed to bind DNS proxy UDP on 0.0.0.0:10053'' e
      | Inr _ \<Rightarrow>
          (case tcp_bound of
             Inl e \<Rightarrow> bind_failed ''Failed to bind DNS proxy TCP on 0.0.0.0:10053'' e
           | Inr _ \<Rightarrow> (case dns_listener ws of (r, jobs) \<Rightarrow> (r, True, jobs))))"

text \<open>The two kinds of spawned handler; a UDP handler sends its answer back or drops it.\<close>

definition udp_job ::
  "libs \<Rightarrow> net_host \<Rightarrow> (i64 \<Rightarrow> string) \<Rightarrow> registry_view \<Rightarrow> auth_client \<Rightarrow> bytes \<Rightarrow> socket_addr \<Rightarrow> unit proxy" where
  "udp_job X host clock reg auth packet peer_addr =
     bind_io (process_dns_query X host clock reg auth packet peer_addr) (\<lambda>r.
     case r of
       Inr response \<Rightarrow> bind_io (lift_io (tell host (WriteAll response))) (\<lambda>_. ret_io ())
     | Inl e \<Rightarrow> ret_io ())"

subsection \<open>Nothing is forwarded without permission\<close>

definition dns_permitted :: "libs \<Rightarrow> auth_client \<Rightarrow> vm_id \<Rightarrow> bytes \<Rightarrow> net_history \<Rightarrow> bool" where
  "dns_permitted X auth i packet k \<longleftrightarrow>
     permitted auth (case_prod (dns_auth_request 0 (uuid_to_string X i)) (dns_question packet)) k"

abbreviation upstream_sends :: "net_call set" where
  "upstream_sends \<equiv> range SendUpstream"

lemma sonly_dns_refuse [only_intros]:
  "MillisSince \<in> S \<Longrightarrow> sonly (dns_refuse X host clock v c packet) S"
  unfolding dns_refuse_def by (intro only_intros)

lemma only_recv_upstream [only_intros]: "RecvUpstream \<in> S \<Longrightarrow> only (recv_upstream host) S"
  unfolding recv_upstream_def by (intro only_intros)

lemma sonly_dns_forward [only_intros]:
  "{SendUpstream packet, RecvUpstream, MillisSince} \<subseteq> S \<Longrightarrow> sonly (dns_forward X host clock v c packet) S"
  unfolding dns_forward_def Let_def by (intro only_intros) auto

lemma straces_dns_refuse:
  "straces (dns_refuse X host clock v c packet) es (\<lambda>r _ k. r = Inr (build_refused_response packet) \<and>
     fst ` set k \<subseteq> {MillisSince})"
  by (auto simp: straces_def dns_refuse_def millis_since_def proxy_event_done_def io_simps)

lemma straces_dns_forward:
  "straces (dns_forward X host clock v c packet) es
     (\<lambda>r _ k. SendUpstream packet \<in> fst ` set k \<and> fst ` set k \<inter> upstream_sends \<subseteq> {SendUpstream packet})"
  unfolding dns_forward_def
proof (rule straces_bindE)
  show "straces (lift_io (ctx_io ''Failed to send to upstream DNS'' (tell host (SendUpstream packet)))) es
    (\<lambda>_ _ k. fst ` set k = {SendUpstream packet})"
    unfolding tell_def by (rule straces_lift, intro traces_ctx traces_map_ask) simp_all
qed (auto simp: Let_def image_Un intro!: sonlyD [THEN straces_weaken, of _ "{RecvUpstream, MillisSince}"] only_intros)

lemma straces_known_query:
  "straces (process_known_query X host clock auth (uuid_to_string X i) corr_id packet) es
     (\<lambda>r _ k. (SendUpstream packet \<in> fst ` set k \<or> r = Inr (build_refused_response packet)) \<and>
        fst ` set k \<inter> upstream_sends \<subseteq> {SendUpstream packet} \<and>
        only_after (dns_permitted X auth i packet) k upstream_sends)"
proof -
  obtain n t where q: "dns_question packet = (n, t)"
    by (cases "dns_question packet")
  let ?v = "uuid_to_string X i"
  have event: "straces (proxy_event X clock e c v j d) s (\<lambda>_ _ k. k = [])" for e c v j d s
    by (simp add: proxy_event_def straces_modify)
  have auth: "straces (lift_io (authorize_dns host auth 0 ?v n t)) s
      (\<lambda>r _ k. (fst (decision r) \<longrightarrow> dns_permitted X auth i packet k) \<and> fst ` set k \<inter> upstream_sends = {})" for s
    by (rule straces_lift [OF traces_authorize_dns]) (auto simp: dns_permitted_def q)
  have millis: "straces (lift_io (millis_since host)) s (\<lambda>_ _ k. fst ` set k = {MillisSince})" for s
    unfolding millis_since_def by (rule straces_lift, rule traces_map_ask) simp_all
  have finish: "straces (if \<not> b then dns_refuse X host clock ?v corr_id packet
      else dns_forward X host clock ?v corr_id packet) s
      (\<lambda>r _ k'. (SendUpstream packet \<in> fst ` set (k @ k') \<or> r = Inr (build_refused_response packet)) \<and>
        fst ` set (k @ k') \<inter> upstream_sends \<subseteq> {SendUpstream packet} \<and>
        only_after (dns_permitted X auth i packet) (k @ k') upstream_sends)"
    if k: "fst ` set k \<inter> upstream_sends = {}" "b \<longrightarrow> dns_permitted X auth i packet k" for b s k
  proof (cases b)
    case True
    then have "only_after (dns_permitted X auth i packet) (k @ k') upstream_sends" for k'
      using k permitted_append by (intro only_after_append) (auto simp: dns_permitted_def)
    then show ?thesis
      using True k(1) by (auto simp: image_Un Int_Un_distrib2 intro!: straces_weaken [OF straces_dns_forward])
  next
    case False
    have "only_after G (k @ k') upstream_sends" if "fst ` set k' \<subseteq> {MillisSince}" for k' G
      using k(1) that by (intro only_after_none) (auto simp: image_Un)
    then show ?thesis
      using False k(1) by (auto simp: image_Un Int_Un_distrib2 intro!: straces_weaken [OF straces_dns_refuse])
  qed
  show ?thesis
    unfolding process_known_query_def q Let_def prod.case case_prod_unfold fst_conv snd_conv
    by (rule straces_bind [OF event], rule straces_bind [OF auth], rule straces_bind [OF millis],
        rule straces_bind [OF event], simp only: append.assoc [symmetric], rule finish)
      (auto simp: image_Un Int_Un_distrib2 dns_permitted_def intro: permitted_append)
qed

text \<open>What may come of the query of a known VM: the packet goes upstream or the answer is REFUSED;
  nothing but this packet goes upstream, and only with permission.\<close>

definition dns_outcome_ok :: "libs \<Rightarrow> auth_client \<Rightarrow> vm_id \<Rightarrow> bytes \<Rightarrow> anyhow + bytes \<Rightarrow> net_history \<Rightarrow> bool" where
  "dns_outcome_ok X auth i packet r k \<longleftrightarrow>
     (SendUpstream packet \<in> fst ` set k \<or> r = Inr (build_refused_response packet)) \<and>
     fst ` set k \<inter> upstream_sends \<subseteq> {SendUpstream packet} \<and>
     only_after (dns_permitted X auth i packet) k upstream_sends"

definition dns_granted :: "libs \<Rightarrow> auth_client \<Rightarrow> vm_id \<Rightarrow> net_call \<Rightarrow> net_history \<Rightarrow> bool" where
  "dns_granted X auth i c k \<longleftrightarrow> (\<exists>p. c = SendUpstream p \<and> dns_permitted X auth i p k)"

lemma stable_dns_granted: "stable (dns_granted X auth)"
  by (auto simp: stable_def dns_granted_def dns_permitted_def permitted_def)

interpretation dns: sending_gateway
  "\<lambda>reg packet peer_addr. process_dns_query X host clock reg auth packet peer_addr"
  "\<lambda>i corr_id packet. process_known_query X host clock auth (uuid_to_string X i) corr_id packet"
  "new_correlation X host" "\<lambda>packet. Inr (build_refused_response packet)" "dns_outcome_ok X auth"
  upstream_sends "\<lambda>_. dns_granted X auth" for X host clock auth
proof unfold_locales
  fix i corr_id packet es
  show "straces (process_known_query X host clock auth (uuid_to_string X i) corr_id packet) es
      (\<lambda>r _ k. dns_outcome_ok X auth i packet r k)"
    unfolding dns_outcome_ok_def by (rule straces_known_query)
next
  fix i packet r k u
  assume "dns_outcome_ok X auth i packet r k"
  then show "dns_outcome_ok X auth i packet r ((NewCorrelation, u) # k)"
    unfolding dns_outcome_ok_def
    by (auto simp del: only_after_Cons_iff simp: dns_permitted_def permitted_def intro!: only_after_Cons)
next
  fix i packet r k1 c x k2
  assume "dns_outcome_ok X auth i packet r (k1 @ (c, x) # k2)" and "c \<in> upstream_sends"
  then show "dns_granted X auth i c k1"
    unfolding dns_outcome_ok_def dns_granted_def only_after_def by auto
qed (auto simp: process_dns_query_def new_correlation_def intro: traces_map_ask)

text \<open>C4: The DNS proxy fails closed. A query from an address no VM has is answered REFUSED, with
  no call and no event besides drawing the correlation id. For a query of a VM, only its own
  packet can reach the upstream resolver, and only after authorization is switched off or the
  service allowed this VM this question; if it is not forwarded the answer is REFUSED.\<close>

theorem dns_fail_closed:
  "case process_dns_query X host clock reg auth packet peer_addr (es, h) of (r, es', h') \<Rightarrow>
     \<exists>k. h' = h @ k \<and>
       (case vm_at reg (h @ take 1 k) peer_addr of
          None \<Rightarrow> r = Inr (build_refused_response packet) \<and> es' = es \<and> map fst k = [NewCorrelation]
        | Some i \<Rightarrow>
            (SendUpstream packet \<in> fst ` set k \<or> r = Inr (build_refused_response packet)) \<and>
            fst ` set k \<inter> upstream_sends \<subseteq> {SendUpstream packet} \<and>
            only_after (dns_permitted X auth i packet) k upstream_sends)"
  unfolding dns_outcome_ok_def [symmetric] by (rule dns.fail_closed)

subsection \<open>The same for a whole TCP connection\<close>

lemma only_tcp_io [only_intros]:
  "ReadExact 2 \<in> S \<Longrightarrow> only (read_dns_length host) S"
  "ReadExact n \<in> S \<Longrightarrow> only (read_dns_body host n) S"
  "range WriteAll \<subseteq> S \<Longrightarrow> FlushStream \<in> S \<Longrightarrow> only (write_dns_message host m) S"
  unfolding read_dns_length_def read_dns_body_def write_dns_message_def by (intro only_intros; blast)+

lemma lawful_turn:
  "lawful upstream_sends (dns_granted X auth) reg peer_addr (tcp_dns_turn X host clock reg auth peer_addr)"
  unfolding tcp_dns_turn_def
  by (intro lawful_intros stable_dns_granted lawful_sonly [OF sonly_lift] only_intros)
    (auto split: sum.splits intro!: lawful_intros stable_dns_granted dns.handler_lawful
      lawful_sonly [OF sonly_lift] only_intros)

lemma lawful_connection:
  "lawful upstream_sends (dns_granted X auth) reg peer_addr
     (handle_tcp_dns_connection turns X host clock reg auth peer_addr)"
  by (induction turns) (auto intro!: lawful_intros stable_dns_granted lawful_turn split: sum.splits)

text \<open>C23: A TCP connection fails closed too: in every run of the connection loop, however long,
  every packet sent upstream was permitted earlier in this connection, for a VM that had the
  peer's address.\<close>

theorem tcp_dns_fail_closed:
  "case handle_tcp_dns_connection turns X host clock reg auth peer_addr (es, h) of (r, es', h') \<Rightarrow>
     \<exists>k. h' = h @ k \<and> justified upstream_sends (dns_granted X auth) reg peer_addr h k"
  by (rule lawful_case [OF lawful_connection])

subsection \<open>The length prefix\<close>

lemma write_dns_message_written:
  assumes "write_dns_message host m h = (Inr (), h')"
  shows "written h' = written h @ u16_to_be_bytes (of_nat (length m)) @ m"
  using assms
  by (auto simp: write_dns_message_def tell_def io_simps written_def split: sum.splits prod.splits)

lemma unat_frame_length: "n < 65536 \<Longrightarrow> unat (of_nat n :: u16) = n"
  by (simp add: unat_of_nat take_bit_nat_eq_self)

text \<open>Framing round trip: a message of less than 65536 bytes that \<open>write_dns_message\<close> wrote
  is what a reader at the same place of the stream gets, length first and then the bytes,
  whatever follows in the stream.\<close>

theorem dns_framing_roundtrip:
  assumes "write_dns_message host m h = (Inr (), h')" and "length m < 65536"
    and "\<forall>g n. peer g (ReadExact n) = served (written h' @ rest) g n"
    and "bytes_read g = length (written h)"
  shows "\<exists>g'. read_dns_length peer g = (Inr (length m), g') \<and> fst (read_dns_body peer (length m) g') = Inr m"
proof -
  obtain a b where ab: "u16_to_be_bytes (of_nat (length m)) = [a, b]"
    by (simp add: u16_to_be_bytes_def)
  have stream: "written h' @ rest = written h @ [a, b] @ m @ rest"
    using write_dns_message_written [OF assms(1)] ab by simp
  have len: "unat (u16_from_be_bytes a b) = length m"
    using u16_to_from_be_bytes [OF ab] unat_frame_length [OF assms(2)] by simp
  have two: "peer g (ReadExact 2) = NBytes [a, b]"
    using assms(3,4) stream by (simp add: served_def)
  let ?g = "g @ [(ReadExact 2, NBytes [a, b])]"
  have "bytes_read ?g = length (written h @ [a, b])"
    using assms(4) by (simp add: bytes_read_def)
  then have "peer ?g (ReadExact (length m)) = NBytes m"
    using assms(3) stream by (simp add: served_def)
  then show ?thesis
    using two len by (simp add: read_dns_length_def read_dns_body_def net_bytes_def io_simps)
qed

theorem dns_framing_roundtrip_witness:
  "fst (read_dns_body (\<lambda>g c. case c of ReadExact n \<Rightarrow> served [0, 2, 7, 9, 5] g n | _ \<Rightarrow> NDone) 2
     [(ReadExact 2, NBytes [0, 2])]) = Inr [7, 9]"
proof -
  let ?peer = "\<lambda>g c. case c of ReadExact n \<Rightarrow> served [0, 2, 7, 9, 5] g n | _ \<Rightarrow> NDone"
  let ?h = "[(WriteAll [0, 2], NDone), (WriteAll [7, 9], NDone), (FlushStream, NDone)]"
  have "write_dns_message (\<lambda>_ _. NDone) [7, 9] [] = (Inr (), ?h)"
    by (simp add: write_dns_message_def tell_def net_unit_def u16_to_be_bytes_def io_simps)
  moreover have "written ?h = [0, 2, 7, 9]"
    by (simp add: written_def)
  ultimately obtain g' where g: "read_dns_length ?peer [] = (Inr 2, g')"
      "fst (read_dns_body ?peer 2 g') = Inr [7, 9]"
    using dns_framing_roundtrip [of "\<lambda>_ _. NDone" "[7, 9]" "[]" ?h ?peer "[5]" "[]"]
    by (auto simp: bytes_read_def written_def numeral_2_eq_2)
  then show ?thesis
    by (auto simp: read_dns_length_def served_def bytes_read_def net_bytes_def io_simps)
qed

end
