(* ===== verification/StartUp.thy ===== *)
theory StartUp
  imports HttpProxy TlsMitm DnsProxy ServerMain
begin

text \<open>
  \<^verbatim>\<open>main\<close> of \<^verbatim>\<open>clawpot-server/src/main.rs\<close> up to the moment the gRPC server starts: root check,
  event store, packet filter, certificate authority, body store, authorization client, keys,
  the three proxies, the VM assets. Each step that fails ends the program. The proxies run as
  tasks of their own and each signals when its sockets are bound; a proxy that ends before drops
  its end of the channel. They and the background writer of the log go on beside start-up: before
  each line that start-up logs, they may have sent events and stored them. Standard output and
  tracing are left out.
\<close>

text \<open>The state of the program while it starts. \<open>bt_sent\<close> and \<open>bt_lost\<close> are ghosts: the messages the log
  accepted, and whether a transaction of the background writer failed.\<close>

record boot =
  bt_es :: event_store
  bt_writer :: "writer option"
  bt_sys :: sys_history
  bt_net :: net_history
  bt_sent :: "writer_msg list"
  bt_lost :: bool

type_synonym 'a boots = "(boot, 'a) io"

definition on_sys :: "'a sys \<Rightarrow> 'a boots" where
  "on_sys m = (\<lambda>b. case m (bt_sys b) of (x, h) \<Rightarrow> (x, b\<lparr>bt_sys := h\<rparr>))"

definition on_net :: "'a net \<Rightarrow> 'a boots" where
  "on_net m = (\<lambda>b. case m (bt_net b) of (x, h) \<Rightarrow> (x, b\<lparr>bt_net := h\<rparr>))"

definition boot_sends :: "(event_store \<Rightarrow> i64 \<times> event_store) \<Rightarrow> boot \<Rightarrow> boot" where
  "boot_sends f b =
     (let es = snd (f (bt_es b)) in b\<lparr>bt_es := es, bt_sent := bt_sent b @ sent_between (bt_es b) es\<rparr>)"

definition boot_emit :: "(event_store \<Rightarrow> i64 \<times> event_store) \<Rightarrow> unit boots" where
  "boot_emit f = (\<lambda>b. ((), boot_sends f b))"

text \<open>
  What other tasks do to the log while the program starts: the proxies, once they are spawned, emit
  events for the connections they serve, and the background writer of the log takes steps.
\<close>

datatype other_step =
    ProxyEmits string string "string option" "string option" "i64 option" "bool option" json
  | WriterRuns bool bool string

definition run_other :: "libs \<Rightarrow> (i64 \<Rightarrow> string) \<Rightarrow> other_step \<Rightarrow> boot \<Rightarrow> boot" where
  "run_other X clock a b =
     (case a of
        ProxyEmits t c v i d ok data \<Rightarrow> boot_sends (emit_inner X clock t c v i d ok data) b
      | WriterRuns commits updates now \<Rightarrow>
          (case bt_writer b of
             None \<Rightarrow> b
           | Some w \<Rightarrow>
               (case writer_step commits updates True now (bt_es b, w) of
                  (es, w') \<Rightarrow> b\<lparr>bt_es := es, bt_writer := Some w', bt_lost := bt_lost b \<or> \<not> commits\<rparr>)))"

text \<open>
  \<^verbatim>\<open>Path::parent\<close> as the standard library computes it: trailing separators and \<^verbatim>\<open>.\<close> components do
  not count; \<open>n\<close> is the length of what comes before the body (the root, or a leading \<^verbatim>\<open>.\<close>).
\<close>

definition last_component :: "string \<Rightarrow> string" where
  "last_component body = rev (takeWhile (\<lambda>c. c \<noteq> CHR ''/'') (rev body))"

definition drop_component :: "nat \<Rightarrow> string \<Rightarrow> string" where
  "drop_component n p =
     (let body = drop n p; size = length (last_component body) + (if CHR ''/'' \<in> set body then 1 else 0)
      in take (length p - size) p)"

lemma length_drop_component: "n < length p \<Longrightarrow> length (drop_component n p) < length p"
proof -
  assume n: "n < length p"
  then have "last_component (drop n p) \<noteq> [] \<or> CHR ''/'' \<in> set (drop n p)"
    by (cases "rev (drop n p)") (auto simp: last_component_def)
  then show ?thesis
    using n by (auto simp: drop_component_def Let_def intro!: diff_less)
qed

function trim_path :: "nat \<Rightarrow> string \<Rightarrow> string" where
  "trim_path n p =
     (if n < length p \<and> last_component (drop n p) \<in> {[], ''.''} then trim_path n (drop_component n p) else p)"
  by pat_completeness auto
termination
  by (relation "measure (\<lambda>(n, p). length p)") (auto intro: length_drop_component)

declare trim_path.simps [simp del]

definition path_parent :: "string \<Rightarrow> string option" where
  "path_parent p =
     (let rooted = starts_with ''/'' p; cur_dir = \<not> rooted \<and> (p = ''.'' \<or> starts_with ''./'' p);
          n = (if rooted \<or> cur_dir then 1 else 0); q = trim_path n p
      in if n < length q then Some (trim_path n (drop_component n q))
         else if cur_dir then Some [] else None)"

text \<open>What the calls of SQLite give while the database is opened; connecting gives what the file
  holds, nothing for a new file.\<close>

record sqlite_open =
  sq_connect :: "string + events_db"
  sq_pragmas :: "string + unit"
  sq_tables :: "string + unit"
  sq_session :: "string + unit"

definition new_session :: "string \<Rightarrow> string \<Rightarrow> string \<Rightarrow> string \<Rightarrow> session_row" where
  "new_session session_id now server_version config =
     \<lparr>sess_id = session_id, sess_started_at = now, sess_stopped_at = None,
      sess_server_version = server_version, sess_config = config\<rparr>"

text \<open>\<^verbatim>\<open>EventStore::new\<close>: the handle, and the background writer it spawns.\<close>

definition open_event_store ::
  "sys_host \<Rightarrow> sqlite_open \<Rightarrow> string \<Rightarrow> string \<Rightarrow> string \<Rightarrow> string \<Rightarrow> string \<Rightarrow> persist_mode \<Rightarrow>
   (anyhow + event_store \<times> writer) sys" where
  "open_event_store host S now path session_id server_version config mode =
     bindE (case path_parent path of
         Some parent \<Rightarrow> ctx_io (''Failed to create DB directory: '' @ path_display parent)
           (call_unit host (CreateDirAll parent))
       | None \<Rightarrow> ret_io (Inr ())) (\<lambda>_.
     bindE (ret_io (lib_ctx (''Failed to open events DB at '' @ path_display path) (sq_connect S))) (\<lambda>db.
     bindE (ret_io (lib_ctx ''Failed to set SQLite pragmas'' (sq_pragmas S))) (\<lambda>_.
     bindE (ret_io (lib_ctx ''Failed to create events tables'' (sq_tables S))) (\<lambda>_.
     bindE (ret_io (lib_ctx ''Failed to insert session'' (sq_session S))) (\<lambda>_.
     ret_io (Inr (EventStore_new session_id mode,
       writer_new (db\<lparr>db_sessions := db_sessions db @ [new_session session_id now server_version config]\<rparr>))))))))"

subsection \<open>The environment\<close>

text \<open>What binding the sockets of the proxies gives.\<close>

record proxy_sockets =
  ps_mitm :: "io_error + unit"
  ps_http :: "io_error + unit"
  ps_https :: "io_error + unit"
  ps_dns_udp :: "io_error + unit"
  ps_dns_tcp :: "io_error + unit"

definition all_bound :: "proxy_sockets \<Rightarrow> bool" where
  "all_bound S \<longleftrightarrow> is_ok (ps_mitm S) \<and> is_ok (ps_http S) \<and> is_ok (ps_https S) \<and> is_ok (ps_dns_udp S) \<and> is_ok (ps_dns_tcp S)"

text \<open>The environment of the process, what SQLite, the netlink socket and the proxies' sockets give, and
  what other tasks do before start-up logs each of its lines.\<close>

record boot_env =
  be_is_root :: bool
  be_var :: "string \<Rightarrow> string option"
  be_version :: string
  be_pid :: nat
  be_session_id :: string
  be_now :: string
  be_sqlite :: sqlite_open
  be_netlink :: "string + unit"
  be_sockets :: proxy_sockets
  be_others :: "string \<Rightarrow> other_step list"

definition boot_log :: "libs \<Rightarrow> (i64 \<Rightarrow> string) \<Rightarrow> boot_env \<Rightarrow> string \<Rightarrow> unit boots" where
  "boot_log X clock E message =
     bind_io (\<lambda>b. ((), fold (run_other X clock) (be_others E message) b)) (\<lambda>_.
     boot_emit (clawpot_log X clock ''server'' None message))"

definition project_root :: "boot_env \<Rightarrow> string" where
  "project_root E = unwrap_or ''/workspaces/clawpot'' (be_var E ''CLAWPOT_ROOT'')"

record ('k, 'c) started =
  sd_ca :: "('k, 'c) certificate_authority"
  sd_ctx :: proxy_ctx
  sd_service :: service

subsection \<open>The steps\<close>

text \<open>Lines 57 to 82. The boot state keeps the background writer beside the handle.\<close>

definition boot_events :: "libs \<Rightarrow> sys_host \<Rightarrow> (i64 \<Rightarrow> string) \<Rightarrow> boot_env \<Rightarrow> (anyhow + unit) boots" where
  "boot_events X host clock E =
     (let events_db_path = unwrap_or (path_join (project_root E) ''data/events.db'') (be_var E ''CLAWPOT_EVENTS_DB'');
          persist_mode = persist_from_env (be_var E ''CLAWPOT_EVENTS_PERSIST'');
          auth_addr = be_var E ''CLAWPOT_AUTH_ADDR'';
          config = JObject [(''root'', JString (path_display (project_root E))), (''auth_addr'', jopt JString auth_addr)]
      in
      bindE (on_sys (ctx_io ''Failed to initialize event store''
        (open_event_store host (be_sqlite E) (be_now E) events_db_path (be_session_id E) (be_version E)
          (unwrap_or [] (json_to_string X config)) persist_mode))) (\<lambda>(es, w).
      bind_io (\<lambda>b. ((), b\<lparr>bt_es := es, bt_writer := Some w, bt_sent := [], bt_lost := False\<rparr>)) (\<lambda>_.
      bind_io (boot_emit (clawpot_event X clock ''server.started'' ''server'' None (JObject
        [(''version'', JString (be_version E)), (''pid'', jnat (be_pid E)),
         (''config_root'', JString (path_display (project_root E))),
         (''auth_addr'', jopt JString auth_addr)]))) (\<lambda>_.
      ret_io (Inr ())))))"

text \<open>Lines 84 to 94.\<close>

definition boot_network :: "libs \<Rightarrow> sys_host \<Rightarrow> (i64 \<Rightarrow> string) \<Rightarrow> boot_env \<Rightarrow> (anyhow + unit) boots" where
  "boot_network X host clock E =
     bindE (ret_io (with_context ''Failed to create network manager''
       (lib_ctx ''Failed to create netlink connection'' (be_netlink E)))) (\<lambda>_.
     bind_io (boot_log X clock E ''Ensuring network bridge exists...'') (\<lambda>_.
     bindE (on_sys (ctx_io ''Failed to ensure bridge exists'' (NetworkManager_ensure_bridge host))) (\<lambda>_.
     bind_io (boot_log X clock E ''Network bridge ready'') (\<lambda>_.
     ret_io (Inr ())))))"

text \<open>Lines 96 to 131.\<close>

definition boot_stores ::
  "libs \<Rightarrow> ('k, 'c) rcgen \<Rightarrow> (string + 'k) \<Rightarrow> ('k \<Rightarrow> string + 'c) \<Rightarrow> sys_host \<Rightarrow> net_host \<Rightarrow> (i64 \<Rightarrow> string) \<Rightarrow>
   boot_env \<Rightarrow> (anyhow + ('k, 'c) certificate_authority \<times> proxy_ctx) boots" where
  "boot_stores X R generated self_signed host nhost clock E =
     bindE (on_sys (ctx_io ''Failed to initialize CA''
       (CertificateAuthority_new R generated self_signed host (path_join (project_root E) ''ca'')))) (\<lambda>ca.
     bind_io (boot_log X clock E ''Certificate authority ready'') (\<lambda>_.
     bindE (on_sys (ctx_io ''Failed to initialize body store''
       (BodyStore_new host (path_join (project_root E) ''data/bodies'')))) (\<lambda>body_store.
     bind_io (boot_log X clock E ''Body store ready'') (\<lambda>_.
     bindE (on_net (ctx_io ''Failed to initialize auth client''
       (AuthClient_new nhost (be_var E ''CLAWPOT_AUTH_ADDR'')))) (\<lambda>auth.
     bind_io (boot_log X clock E ''Authorization client ready'') (\<lambda>_.
     bind_io (boot_log X clock E ''LLM key store initialized'') (\<lambda>_.
     bind_io (boot_log X clock E ''IP allocator initialized (192.168.100.2-254)'') (\<lambda>_.
     bind_io (boot_log X clock E ''VM registry initialized'') (\<lambda>_.
     ret_io (Inr (ca, \<lparr>px_body_store = body_store, px_auth = auth,
       px_llm_keys = LlmKeyStore_from_env (be_var E), px_use_tls_upstream = False\<rparr>)))))))))))"

text \<open>Lines 133 to 187: the receiving end of a proxy's readiness channel, and the wait for it.\<close>

definition ready_rx :: "'j listener_run \<Rightarrow> anyhow + unit" where
  "ready_rx r = (case r of (_, ready, _) \<Rightarrow> if ready then Inr () else Inl (anyhow ''channel closed''))"

definition await_proxy :: "libs \<Rightarrow> (i64 \<Rightarrow> string) \<Rightarrow> boot_env \<Rightarrow> string \<Rightarrow> 'j listener_run \<Rightarrow> (anyhow + unit) boots" where
  "await_proxy X clock E name r =
     bindE (ret_io (with_context (name @ '' failed to start'') (ready_rx r))) (\<lambda>_.
     bind_io (boot_log X clock E (name @ '' started'')) (\<lambda>_.
     ret_io (Inr ())))"

text \<open>Lines 189 to 221.\<close>

definition boot_assets :: "libs \<Rightarrow> sys_host \<Rightarrow> (i64 \<Rightarrow> string) \<Rightarrow> boot_env \<Rightarrow> (anyhow + service) boots" where
  "boot_assets X host clock E =
     (let kernel_path = path_join (project_root E) ''assets/kernels/vmlinux'';
          rootfs_path = path_join (project_root E) ''assets/rootfs/ubuntu.ext4'' in
      bind_io (on_sys (path_exists host kernel_path)) (\<lambda>has_kernel.
      if \<not> has_kernel then
        ret_io (Inl (anyhow ''Kernel image not found. Run './scripts/install-vm-assets.sh' to download assets.''))
      else
        bind_io (on_sys (path_exists host rootfs_path)) (\<lambda>has_rootfs.
        if \<not> has_rootfs then
          ret_io (Inl (anyhow ''Rootfs image not found. Run './scripts/install-vm-assets.sh' to download assets.''))
        else
          bind_io (boot_log X clock E ''VM assets verified'') (\<lambda>_.
          bind_io (boot_log X clock E ''Starting gRPC server on 0.0.0.0:50051'') (\<lambda>_.
          ret_io (Inr \<lparr>svc_kernel_path = kernel_path, svc_rootfs_path = rootfs_path\<rparr>))))))"

definition start_up ::
  "libs \<Rightarrow> ('k, 'c) rcgen \<Rightarrow> (string + 'k) \<Rightarrow> ('k \<Rightarrow> string + 'c) \<Rightarrow> sys_host \<Rightarrow> net_host \<Rightarrow> (i64 \<Rightarrow> string) \<Rightarrow>
   boot_env \<Rightarrow> (anyhow + ('k, 'c) started) boots" where
  "start_up X R generated self_signed host nhost clock E =
     (if \<not> be_is_root E then
        ret_io (Inl (anyhow ''Server must be run as root (sudo required for TAP devices, bridge, and iptables)''))
      else
        bindE (boot_events X host clock E) (\<lambda>_.
        bindE (boot_network X host clock E) (\<lambda>_.
        bindE (boot_stores X R generated self_signed host nhost clock E) (\<lambda>(ca, ctx).
        bindE (await_proxy X clock E ''TLS MITM proxy'' (mitm_run (ps_mitm (be_sockets E)) [])) (\<lambda>_.
        bindE (await_proxy X clock E ''HTTP proxy''
          (http_run (ps_http (be_sockets E)) (ps_https (be_sockets E)) ctx [] [])) (\<lambda>_.
        bindE (await_proxy X clock E ''DNS proxy''
          (dns_run (ps_dns_udp (be_sockets E)) (ps_dns_tcp (be_sockets E)) [])) (\<lambda>_.
        bindE (boot_assets X host clock E) (\<lambda>svc.
        ret_io (Inr \<lparr>sd_ca = ca, sd_ctx = ctx, sd_service = svc\<rparr>)))))))))"

lemma bindE_InrE:
  assumes "bindE m f b = (Inr y, b')"
  obtains x b1 where "m b = (Inr x, b1)" "f x b1 = (Inr y, b')"
  using assms by (auto simp: bindE_apply split: prod.splits sum.splits)

lemma bind_ioE:
  assumes "bind_io m f b = (y, b')"
  obtains x b1 where "m b = (x, b1)" "f x b1 = (y, b')"
  using assms by (auto simp: bind_io_def split: prod.splits)

text \<open>\<open>moves Q m\<close>: the step \<open>m\<close> takes every state \<open>b\<close> to one with \<open>Q b\<close>. Two such relations matter: the rule
  table stays as it is, and the log makes a run in which only events are sent.\<close>

definition moves :: "(boot \<Rightarrow> boot \<Rightarrow> bool) \<Rightarrow> 'a boots \<Rightarrow> bool" where
  "moves Q m \<longleftrightarrow> (\<forall>b. Q b (snd (m b)))"

definition same_table :: "boot \<Rightarrow> boot \<Rightarrow> bool" where
  "same_table b b' \<longleftrightarrow> (\<forall>T. table_after T (bt_sys b') = table_after T (bt_sys b))"

definition log_of :: "boot \<Rightarrow> log_state" where
  "log_of b = \<lparr>l_sent = bt_sent b, l_alive = True, l_lost = bt_lost b, l_es = bt_es b,
     l_writer = (case bt_writer b of None \<Rightarrow> writer_new empty_db | Some w \<Rightarrow> w)\<rparr>"

definition logs :: "boot \<Rightarrow> boot \<Rightarrow> bool" where
  "logs b b' \<longleftrightarrow> log_step\<^sup>*\<^sup>* (log_of b) (log_of b') \<and> (\<exists>rs. bt_sent b' = bt_sent b @ map Event rs) \<and>
     (bt_writer b' = None \<longleftrightarrow> bt_writer b = None)"

lemma logs_same: "log_of b' = log_of b \<Longrightarrow> bt_sent b' = bt_sent b \<Longrightarrow> bt_writer b' = bt_writer b \<Longrightarrow> logs b b'"
  by (simp add: logs_def)

lemma logs_trans:
  assumes "logs a b" "logs b c"
  shows "logs a c"
proof -
  obtain rs ss where "bt_sent b = bt_sent a @ map Event rs" "bt_sent c = bt_sent b @ map Event ss"
    using assms unfolding logs_def by blast
  then have "bt_sent c = bt_sent a @ map Event (rs @ ss)"
    by simp
  then show ?thesis
    using assms unfolding logs_def by (meson rtranclp_trans)
qed

lemma logs_sends: "(\<And>es. emits es (snd (f es))) \<Longrightarrow> logs b (boot_sends f b)"
proof -
  assume f: "\<And>es. emits es (snd (f es))"
  have "log_step\<^sup>*\<^sup>* (log_of b) (log_of (boot_sends f b))"
    using emits_log_steps [of "log_of b" "snd (f (bt_es b))"] f by (simp add: log_of_def boot_sends_def Let_def)
  moreover obtain rs where "sent_between (bt_es b) (snd (f (bt_es b))) = map Event rs"
    using f by (rule sent_between_emits)
  ultimately show ?thesis
    by (auto simp: logs_def boot_sends_def Let_def)
qed

lemma logs_other: "logs b (run_other X clock a b)"
proof (cases a)
  case (WriterRuns commits updates now)
  show ?thesis
  proof (cases "bt_writer b")
    case (Some w)
    obtain es w' where step: "writer_step commits updates True now (bt_es b, w) = (es, w')"
      by (cases "writer_step commits updates True now (bt_es b, w)")
    then have "log_step (log_of b) (log_of (run_other X clock a b))"
      using work [of commits updates "log_of b" now es w'] by (simp add: log_of_def run_other_def WriterRuns Some)
    then show ?thesis
      using step by (auto simp: logs_def run_other_def WriterRuns Some)
  qed (simp add: run_other_def WriterRuns logs_same)
qed (simp add: run_other_def logs_sends emits_emit_inner)

lemma logs_others: "logs b (fold (run_other X clock) as b)"
  by (induction as arbitrary: b) (auto simp: logs_same intro: logs_trans logs_other)

lemma run_other_sys: "bt_sys (fold (run_other X clock) as b) = bt_sys b"
  by (induction as arbitrary: b)
    (simp_all add: run_other_def boot_sends_def Let_def split: other_step.split option.split prod.split)

definition preorder_rel :: "(boot \<Rightarrow> boot \<Rightarrow> bool) \<Rightarrow> bool" where
  "preorder_rel Q \<longleftrightarrow> reflp Q \<and> transp Q"

lemma preorder_rels [simp]: "preorder_rel same_table" "preorder_rel logs"
  unfolding preorder_rel_def
  by (auto simp: same_table_def logs_same intro!: reflpI transpI, blast intro: logs_trans)

named_theorems moves_intros "steps of the start-up and what they keep"

lemma movesD: "moves Q m \<Longrightarrow> m b = (x, b') \<Longrightarrow> Q b b'"
  unfolding moves_def by (metis snd_conv)

lemma moves_ret [moves_intros]: "preorder_rel Q \<Longrightarrow> moves Q (ret_io x)"
  by (simp add: moves_def ret_io_def preorder_rel_def reflpD)

lemma moves_bind [moves_intros]:
  "preorder_rel Q \<Longrightarrow> moves Q m \<Longrightarrow> (\<And>x. moves Q (f x)) \<Longrightarrow> moves Q (bind_io m f)"
  unfolding moves_def preorder_rel_def by (auto simp: bind_io_def split: prod.split) (metis snd_conv transpD)

lemma moves_bindE [moves_intros]:
  "preorder_rel Q \<Longrightarrow> moves Q m \<Longrightarrow> (\<And>x. moves Q (f x)) \<Longrightarrow> moves Q (bindE m f)"
  unfolding bindE_def by (intro moves_bind) (auto split: sum.splits intro: moves_ret)

lemma moves_if [moves_intros]: "moves Q m \<Longrightarrow> moves Q n \<Longrightarrow> moves Q (if c then m else n)"
  by simp

lemma moves_log [moves_intros]:
  "moves same_table (boot_emit g)" "moves same_table (boot_log X clock E message)"
  "moves logs (boot_emit (clawpot_event X clock t c v d))" "moves logs (boot_log X clock E message)"
proof -
  show emit: "moves same_table (boot_emit g)" for g
    by (simp add: moves_def same_table_def boot_emit_def boot_sends_def Let_def)
  show "moves logs (boot_emit (clawpot_event X clock t c v d))"
    by (simp add: moves_def boot_emit_def logs_sends)
  show "moves same_table (boot_log X clock E message)"
    unfolding boot_log_def by (rule moves_bind [OF _ _ emit]) (simp_all add: moves_def same_table_def run_other_sys)
  show "moves logs (boot_log X clock E message)"
    unfolding boot_log_def by (rule moves_bind) (simp_all add: moves_def boot_emit_def logs_sends logs_others)
qed

lemma moves_sys [moves_intros]: "only m non_rule \<Longrightarrow> moves same_table (on_sys m)" "moves logs (on_sys m)"
  by (auto simp: moves_def same_table_def on_sys_def table_after_non_rule log_of_def split: prod.splits
      elim!: onlyD intro!: logs_same)

lemma moves_net [moves_intros]: "moves same_table (on_net m)" "moves logs (on_net m)"
  by (auto simp: moves_def same_table_def on_net_def log_of_def split: prod.splits intro!: logs_same)

lemma only_CertificateAuthority_new:
  "only (CertificateAuthority_new R generated self_signed host dir) non_rule"
  unfolding CertificateAuthority_new_def ca_load_def ca_generate_def read_text_def Let_def
  by (intro only_intros) (auto simp: non_rule_def)

lemma only_BodyStore_new: "only (BodyStore_new host dir) non_rule"
  unfolding BodyStore_new_def by (intro only_intros) (auto simp: non_rule_def)

lemma moves_steps:
  "moves same_table (boot_stores X R generated self_signed host nhost clock E)"
  "moves same_table (await_proxy X clock E name r)" "moves same_table (boot_assets X host clock E)"
  "moves logs (boot_stores X R generated self_signed host nhost clock E)"
  "moves logs (await_proxy X clock E name r)" "moves logs (boot_assets X host clock E)"
  "moves logs (boot_network X host clock E)"
  unfolding boot_stores_def await_proxy_def boot_assets_def boot_network_def Let_def
  by (intro moves_intros only_intros only_CertificateAuthority_new only_BodyStore_new;
      simp add: non_rule_def)+

lemma boot_network_rules:
  assumes "ipt_faithful T0 host" and "boot_network X host clock E b = (Inr (), b')"
  shows "set (bridge_rules bridge_name) \<subseteq> set (table_after T0 (bt_sys b'))"
proof -
  obtain b1 b2 where m: "on_sys (ctx_io ''Failed to ensure bridge exists'' (NetworkManager_ensure_bridge host)) b1 = (Inr (), b2)"
    and b2: "bt_sys b' = bt_sys b2"
    using assms(2) unfolding boot_network_def boot_log_def boot_emit_def
    by (auto elim!: bindE_InrE bind_ioE simp: ret_io_def run_other_sys boot_sends_def Let_def)
  then have "ensure_bridge host bridge_name (V4 (ipv4_new 192 168 100 1)) (bt_sys b1) = (Inr (), bt_sys b2)"
    by (auto simp: on_sys_def NetworkManager_ensure_bridge_def io_simps split: prod.splits sum.splits)
  from ensure_bridge_rules_after [OF assms(1) this] show ?thesis
    by (auto simp: b2)
qed

text \<open>A proxy that signalled has bound its sockets.\<close>

lemma await_proxy_ready:
  "await_proxy X clock E name (mitm_run bound ws) b = (Inr (), b') \<Longrightarrow> is_ok bound"
  "await_proxy X clock E name (http_run bound bound2 ctx ws ws2) b = (Inr (), b') \<Longrightarrow> is_ok bound \<and> is_ok bound2"
  "await_proxy X clock E name (dns_run bound bound2 ws') b = (Inr (), b') \<Longrightarrow> is_ok bound \<and> is_ok bound2"
  by (auto simp: await_proxy_def ready_rx_def mitm_run_def http_run_def dns_run_def bind_failed_def with_context_def
      is_ok_def io_simps split: sum.splits prod.splits if_splits)

lemma boot_stores_auth:
  assumes "boot_stores X R generated self_signed host nhost clock E b = (Inr (ca, ctx), b')"
  shows "px_auth ctx = Disabled \<longleftrightarrow> be_var E ''CLAWPOT_AUTH_ADDR'' = None"
  using assms unfolding boot_stores_def
  by (auto elim!: bindE_InrE bind_ioE simp: on_net_def AuthClient_new_def tell_def io_simps
      split: option.splits sum.splits prod.splits)

lemma start_upE:
  assumes "start_up X R generated self_signed host nhost clock E b = (Inr sd, b')"
  obtains b1 b2 ca ctx b3 b4 b5 b6 svc where
    "boot_events X host clock E b = (Inr (), b1)" "boot_network X host clock E b1 = (Inr (), b2)"
    "boot_stores X R generated self_signed host nhost clock E b2 = (Inr (ca, ctx), b3)"
    "await_proxy X clock E ''TLS MITM proxy'' (mitm_run (ps_mitm (be_sockets E)) []) b3 = (Inr (), b4)"
    "await_proxy X clock E ''HTTP proxy'' (http_run (ps_http (be_sockets E)) (ps_https (be_sockets E)) ctx [] []) b4 = (Inr (), b5)"
    "await_proxy X clock E ''DNS proxy'' (dns_run (ps_dns_udp (be_sockets E)) (ps_dns_tcp (be_sockets E)) []) b5 = (Inr (), b6)"
    "boot_assets X host clock E b6 = (Inr svc, b')" "sd_ctx sd = ctx"
  using assms unfolding start_up_def by (cases "be_is_root E") (auto elim!: bindE_InrE simp: ret_io_def)

text \<open>When start-up succeeds, the redirect and drop rules of the bridge are in force, the sockets of
  the three proxies are bound, and requests go unauthorized only if no authorization service was
  configured.\<close>

lemma start_up_guards:
  assumes host: "ipt_faithful T0 host"
    and start: "start_up X R generated self_signed host nhost clock E b = (Inr sd, b')"
  shows "set (bridge_rules bridge_name) \<subseteq> set (table_after T0 (bt_sys b')) \<and> all_bound (be_sockets E) \<and>
    (px_auth (sd_ctx sd) = Disabled \<longleftrightarrow> be_var E ''CLAWPOT_AUTH_ADDR'' = None)"
  using start
proof (rule start_upE, goal_cases)
  case (1 b1 b2 ca ctx b3 b4 b5 b6 svc)
  have "table_after T0 (bt_sys b') = table_after T0 (bt_sys b2)"
    using moves_steps(1) [THEN movesD, OF 1(3)] moves_steps(2) [THEN movesD, OF 1(4)]
      moves_steps(2) [THEN movesD, OF 1(5)] moves_steps(2) [THEN movesD, OF 1(6)]
      moves_steps(3) [THEN movesD, OF 1(7)] unfolding same_table_def by simp
  then show ?case
    using boot_network_rules [OF host 1(2)] boot_stores_auth [OF 1(3)] 1(8)
      await_proxy_ready(1) [OF 1(4)] await_proxy_ready(2) [OF 1(5)] await_proxy_ready(3) [OF 1(6)]
    by (simp add: all_bound_def)
qed

text \<open>After \<open>boot_events\<close>, start-up only logs, and the log runs on.\<close>

lemma start_up_logs:
  assumes "start_up X R generated self_signed host nhost clock E b = (Inr sd, b')"
  obtains b1 where "boot_events X host clock E b = (Inr (), b1)" "logs b1 b'"
  using assms
proof (rule start_upE, goal_cases)
  case (1 b1 b2 ca ctx b3 b4 b5 b6 svc)
  have "logs b1 b'"
    using moves_steps(7) [THEN movesD, OF 1(3)] moves_steps(4) [THEN movesD, OF 1(4)]
      moves_steps(5) [THEN movesD, OF 1(5)] moves_steps(5) [THEN movesD, OF 1(6)]
      moves_steps(5) [THEN movesD, OF 1(7)] moves_steps(6) [THEN movesD, OF 1(8)]
    by (blast intro: logs_trans)
  with 1 show ?case
    by blast
qed

text \<open>A start on a host where everything works, without an authorization service.\<close>

definition sample_env :: boot_env where
  "sample_env = \<lparr>be_is_root = True, be_var = (\<lambda>_. None), be_version = ''0.1.0'', be_pid = 1, be_session_id = ''s'', be_now = ''t'',
     be_sqlite = \<lparr>sq_connect = Inr \<lparr>db_sessions = [], db_events = [], db_last_id = 0\<rparr>, sq_pragmas = Inr (),
       sq_tables = Inr (), sq_session = Inr ()\<rparr>, be_netlink = Inr (),
     be_sockets = \<lparr>ps_mitm = Inr (), ps_http = Inr (), ps_https = Inr (), ps_dns_udp = Inr (), ps_dns_tcp = Inr ()\<rparr>,
     be_others = (\<lambda>_. [])\<rparr>"

definition sample_boot :: boot where
  "sample_boot = \<lparr>bt_es = EventStore_new ''s'' All, bt_writer = None, bt_sys = [], bt_net = [], bt_sent = [], bt_lost = False\<rparr>"

definition succeeds :: "('s, 'e + 'a) io \<Rightarrow> bool" where
  "succeeds m \<longleftrightarrow> (\<forall>s. is_ok (fst (m s)))"

lemma is_ok_iff: "is_ok r \<longleftrightarrow> (\<exists>x. r = Inr x)"
  by (cases r) simp_all

lemma succeeds_ret: "succeeds (ret_io (Inr x))"
  by (simp add: succeeds_def ret_io_def)

lemma succeeds_bind: "(\<And>x. succeeds (g x)) \<Longrightarrow> succeeds (bind_io l g)"
  by (simp add: succeeds_def bind_io_def case_prod_beta)

lemma succeeds_bindE: "succeeds m \<Longrightarrow> (\<And>x. succeeds (f x)) \<Longrightarrow> succeeds (bindE m f)"
  unfolding succeeds_def
proof
  fix s
  assume "\<forall>s. is_ok (fst (m s))" and f: "\<And>x. \<forall>s. is_ok (fst (f x s))"
  then obtain x s1 where "m s = (Inr x, s1)"
    unfolding is_ok_iff by (metis prod.collapse)
  then show "is_ok (fst (bindE m f s))"
    using f by (simp add: bindE_apply)
qed

lemma succeeds_ctx: "succeeds m \<Longrightarrow> succeeds (ctx_io c m)"
  by (simp add: succeeds_def ctx_io_apply case_prod_beta)

lemma succeeds_on: "succeeds m \<Longrightarrow> succeeds (on_sys m)" "succeeds n \<Longrightarrow> succeeds (on_net n)"
  by (simp_all add: succeeds_def on_sys_def on_net_def case_prod_beta)

lemma succeeds_prod: "(\<And>x y. succeeds (f x y)) \<Longrightarrow> succeeds (case p of (x, y) \<Rightarrow> f x y)"
  by (cases p) simp

lemma succeeds_option:
  "succeeds m \<Longrightarrow> (\<And>x. succeeds (f x)) \<Longrightarrow> succeeds (case v of None \<Rightarrow> m | Some x \<Rightarrow> f x)"
  by (cases v) simp_all

lemmas succeeds_intros = succeeds_ret succeeds_bindE succeeds_ctx succeeds_on succeeds_prod

lemma succeeds_rule_host:
  "succeeds (call_unit (rule_host True T0) (CreateDirAll p))"
  "succeeds (read_text (rule_host True T0) p)"
  by (simp_all add: succeeds_def call_unit_def read_text_def rule_host_def reply_unit_def reply_text_def
      to_anyhow_def io_simps)

lemma succeeds_ensure_bridge: "succeeds (NetworkManager_ensure_bridge (rule_host True T0))"
  unfolding NetworkManager_ensure_bridge_def
  by (intro succeeds_intros) (simp add: succeeds_def rule_host_ensure_bridge)

text \<open>On this host a file that is asked for exists.\<close>

lemma succeeds_if_exists:
  "succeeds (f True) \<Longrightarrow> succeeds (bind_io (path_exists (rule_host True T0) p) f)"
  "succeeds (g True) \<Longrightarrow> succeeds (bind_io (on_sys (path_exists (rule_host True T0) p)) g)"
  by (simp_all add: succeeds_def bind_io_def on_sys_def path_exists_def rule_host_def reply_true_def io_simps)

lemma succeeds_CertificateAuthority_new:
  "succeeds (CertificateAuthority_new text_rcgen (Inr ''K'') (\<lambda>_. Inr ''C'') (rule_host True T0) dir)"
  unfolding CertificateAuthority_new_def ca_load_def Let_def text_rcgen_def lib_ctx_def
  by (intro succeeds_bindE succeeds_ctx succeeds_rule_host succeeds_if_exists; simp)
    (intro succeeds_if_exists; simp; intro succeeds_intros succeeds_rule_host)

lemma succeeds_start_up:
  "succeeds (start_up sample_libs text_rcgen (Inr ''K'') (\<lambda>_. Inr ''C'') (rule_host True []) (\<lambda>_ _. NDone)
     (\<lambda>_. ''t'') sample_env)"
proof -
  let ?host = "rule_host True []" and ?nhost = "\<lambda>_ _. NDone"
  have events: "succeeds (boot_events sample_libs ?host (\<lambda>_. ''t'') sample_env)"
    unfolding boot_events_def open_event_store_def Let_def
    by (intro succeeds_bind succeeds_intros succeeds_option succeeds_rule_host;
        simp add: sample_env_def lib_ctx_def succeeds_ret)
  have network: "succeeds (boot_network sample_libs ?host (\<lambda>_. ''t'') sample_env)"
    unfolding boot_network_def by (simp add: sample_env_def lib_ctx_def)
      (intro succeeds_bind succeeds_intros succeeds_ensure_bridge)
  have stores: "succeeds (boot_stores sample_libs text_rcgen (Inr ''K'') (\<lambda>_. Inr ''C'') ?host ?nhost (\<lambda>_. ''t'') sample_env)"
    unfolding boot_stores_def BodyStore_new_def AuthClient_new_def by (simp add: sample_env_def)
      (intro succeeds_bind succeeds_intros succeeds_CertificateAuthority_new succeeds_rule_host)
  have proxy: "succeeds (await_proxy sample_libs (\<lambda>_. ''t'') sample_env name r)" if "fst (snd r)" for name and r :: "'j listener_run"
    unfolding await_proxy_def using that
    by (intro succeeds_bind succeeds_intros) (simp add: succeeds_def ready_rx_def with_context_def case_prod_beta ret_io_def)
  have assets: "succeeds (boot_assets sample_libs ?host (\<lambda>_. ''t'') sample_env)"
    unfolding boot_assets_def Let_def
    by (rule succeeds_if_exists, simp, rule succeeds_if_exists, simp) (intro succeeds_bind succeeds_ret)
  show ?thesis
    unfolding start_up_def
    by (simp add: sample_env_def [THEN arg_cong [of _ _ be_is_root]])
      (intro succeeds_intros events network stores proxy assets;
        simp add: sample_env_def mitm_run_def http_run_def dns_run_def)
qed

end
