(* ===== verification/ServerProgram.thy ===== *)
theory ServerProgram
  imports Shutdown StartUp
begin

text \<open>
  The server as a whole: \<^verbatim>\<open>telemetry.rs\<close>, and \<^verbatim>\<open>main\<close> of \<^verbatim>\<open>main.rs\<close> from its first line to its last, with
  start-up, the requests, proxies and shutdown that run concurrently while it serves, and the end of
  the session.
\<close>

subsection \<open>Telemetry\<close>

text \<open>What the tracing libraries and the environment give: whether the exporter can be built, the
  variable \<^verbatim>\<open>RUST_LOG\<close>, which filters parse, and whether no subscriber has been installed yet.\<close>

record telemetry_env =
  te_exporter :: "string + unit"
  te_rust_log :: "string option"
  te_filter_ok :: "string \<Rightarrow> bool"
  te_fresh :: bool

record telemetry =
  tl_service_name :: string
  tl_service_version :: string
  tl_session_id :: string
  tl_filter :: string

definition init_telemetry :: "telemetry_env \<Rightarrow> string \<Rightarrow> string \<Rightarrow> (anyhow + telemetry) outcome" where
  "init_telemetry T version session_id =
     (case te_exporter T of
        Inl e \<Rightarrow> Ret (Inl (anyhow e))
      | Inr _ \<Rightarrow>
          let filter = (case te_rust_log T of
                None \<Rightarrow> ''info''
              | Some f \<Rightarrow> if te_filter_ok T f then f else ''info'')
          in if \<not> te_fresh T then Panic
             else Ret (Inr \<lparr>tl_service_name = ''clawpot-server'', tl_service_version = version,
               tl_session_id = session_id, tl_filter = filter\<rparr>))"

subsection \<open>The program\<close>

record main_env =
  me_crypto_provider :: bool
  me_telemetry :: telemetry_env
  me_boot :: boot_env

text \<open>Lines 28 to 39: both failures are panics.\<close>

definition main_prologue :: "main_env \<Rightarrow> telemetry outcome" where
  "main_prologue M =
     (if \<not> me_crypto_provider M then Panic
      else case init_telemetry (me_telemetry M) (be_version (me_boot M)) (be_session_id (me_boot M)) of
        Ret (Inr t) \<Rightarrow> Ret t
      | _ \<Rightarrow> Panic)"

text \<open>What the proxies contribute to the shared state while the server serves: events.\<close>

definition proxy_events :: "libs \<Rightarrow> (i64 \<Rightarrow> string) \<Rightarrow> unit task set" where
  "proxy_events X clock =
     {on_events (emit_inner X clock t c v i d ok data) | t c v i d ok data. True}"

text \<open>
  The program from the moment it serves. \<^verbatim>\<open>main\<close> is at one of its last waits, or has ended; around it run
  the tasks (requests, the shutdown, and the connections of the proxies, which are detached and go
  on while \<^verbatim>\<open>main\<close> ends) and the background writer of the log. \<open>sy_sent\<close> and \<open>sy_lost\<close> are ghosts, as in
  \<open>boot\<close>.
\<close>

datatype main_phase = AtServe | AtStopped | AtClose | MainReturned "anyhow + unit" | MainPanicked

record system =
  sy_main :: main_phase
  sy_tasks :: "unit task list"
  sy_server :: server
  sy_sys :: sys_history
  sy_writer :: writer
  sy_sent :: "writer_msg list"
  sy_lost :: bool

definition main_result :: "main_phase \<Rightarrow> (anyhow + unit) outcome option" where
  "main_result p = (case p of MainReturned r \<Rightarrow> Some (Ret r) | MainPanicked \<Rightarrow> Some Panic | _ \<Rightarrow> None)"

definition system_of :: "boot \<Rightarrow> writer \<Rightarrow> system" where
  "system_of b w = \<lparr>sy_main = AtServe, sy_tasks = [], sy_server = server_new (bt_es b), sy_sys = bt_sys b,
     sy_writer = w, sy_sent = bt_sent b, sy_lost = bt_lost b\<rparr>"

text \<open>A send by \<^verbatim>\<open>main\<close> itself.\<close>

definition main_sends :: "(event_store \<Rightarrow> event_store) \<Rightarrow> system \<Rightarrow> system" where
  "main_sends f S =
     (let es = sv_events (sy_server S) in
      S\<lparr>sy_server := (sy_server S)\<lparr>sv_events := f es\<rparr>, sy_sent := sy_sent S @ sent_between es (f es)\<rparr>)"

definition server_stopped :: "libs \<Rightarrow> (i64 \<Rightarrow> string) \<Rightarrow> event_store \<Rightarrow> event_store" where
  "server_stopped X clock es =
     snd (clawpot_event X clock ''server.stopped'' ''server'' None (JObject [(''reason'', JString ''shutdown'')]) es)"

text \<open>
  One step. Until \<^verbatim>\<open>main\<close> has ended, any task and the writer may step. The gRPC server of the library
  returns, with an error or without, when the shutdown future has ended or the transport fails; the
  relation lets it return at any moment, so it includes every run of the program whatever the
  library does with the requests in flight. Then \<^verbatim>\<open>main\<close> emits its last event, asks the writer to close
  the session, and waits for the answer or for 5 seconds, in steps of its own. A panic of the
  shutdown future is a panic of \<^verbatim>\<open>main\<close>. The last lines, which flush the tracing, change no state of
  the model.
\<close>

inductive system_step ::
  "libs \<Rightarrow> sys_host \<Rightarrow> (i64 \<Rightarrow> string) \<Rightarrow> service \<Rightarrow> (vm_registry \<Rightarrow> vm_id list) \<Rightarrow> system \<Rightarrow> system \<Rightarrow> bool"
  for X host clock svc order where
  task: "main_result (sy_main S) = None \<Longrightarrow>
    pool_step (server_tasks X host clock svc order \<union> proxy_events X clock)
      (sy_tasks S, (sy_server S, sy_sys S)) (ts, (s, h)) \<Longrightarrow>
    system_step X host clock svc order S (S\<lparr>sy_tasks := ts, sy_server := s, sy_sys := h,
      sy_sent := sy_sent S @ sent_between (sv_events (sy_server S)) (sv_events s)\<rparr>)"
| writes: "main_result (sy_main S) = None \<Longrightarrow>
    writer_step commits updates True now (sv_events (sy_server S), sy_writer S) = (es, w) \<Longrightarrow>
    system_step X host clock svc order S (S\<lparr>sy_server := (sy_server S)\<lparr>sv_events := es\<rparr>, sy_writer := w,
      sy_lost := sy_lost S \<or> \<not> commits\<rparr>)"
| serve_fails: "sy_main S = AtServe \<Longrightarrow>
    system_step X host clock svc order S (S\<lparr>sy_main := MainReturned (lib_ctx ''gRPC server failed'' (Inl e))\<rparr>)"
| serve_ends: "sy_main S = AtServe \<Longrightarrow>
    system_step X host clock svc order S ((main_sends (server_stopped X clock) S)\<lparr>sy_main := AtStopped\<rparr>)"
| close: "sy_main S = AtStopped \<Longrightarrow>
    system_step X host clock svc order S ((main_sends close_session S)\<lparr>sy_main := AtClose\<rparr>)"
| closed: "sy_main S = AtClose \<Longrightarrow> close_wait five_seconds_over (sy_writer S) \<Longrightarrow>
    system_step X host clock svc order S (S\<lparr>sy_main := MainReturned (Inr ())\<rparr>)"
| no_signals: "sy_main S = AtServe \<Longrightarrow>
    run (shutdown_signal X host clock order registered wake) (sy_server S, sy_sys S) = (Panic, (s, h)) \<Longrightarrow>
    system_step X host clock svc order S (S\<lparr>sy_main := MainPanicked, sy_server := s, sy_sys := h\<rparr>)"

text \<open>The runs of \<^verbatim>\<open>main\<close>: how it ends, and the system at that moment if it came to serve.\<close>

inductive server_run ::
  "libs \<Rightarrow> ('k, 'c) rcgen \<Rightarrow> (string + 'k) \<Rightarrow> ('k \<Rightarrow> string + 'c) \<Rightarrow> sys_host \<Rightarrow> net_host \<Rightarrow> (i64 \<Rightarrow> string) \<Rightarrow>
   (vm_registry \<Rightarrow> vm_id list) \<Rightarrow> main_env \<Rightarrow> boot \<Rightarrow> (anyhow + unit) outcome \<Rightarrow> system option \<Rightarrow> bool"
  for X R generated self_signed host nhost clock order M where
  no_prologue: "main_prologue M = Panic \<Longrightarrow>
    server_run X R generated self_signed host nhost clock order M b Panic None"
| not_started: "main_prologue M = Ret t \<Longrightarrow>
    start_up X R generated self_signed host nhost clock (me_boot M) b = (Inl e, b') \<Longrightarrow>
    server_run X R generated self_signed host nhost clock order M b (Ret (Inl e)) None"
| served: "main_prologue M = Ret t \<Longrightarrow>
    start_up X R generated self_signed host nhost clock (me_boot M) b = (Inr sd, b1) \<Longrightarrow>
    bt_writer b1 = Some w \<Longrightarrow>
    (system_step X host clock (sd_service sd) order)\<^sup>*\<^sup>* (system_of b1 w) S \<Longrightarrow>
    main_result (sy_main S) = Some r \<Longrightarrow>
    server_run X R generated self_signed host nhost clock order M b r (Some S)"

inductive_cases server_run_SomeE: "server_run X R generated self_signed host nhost clock order M b r (Some S)"

subsection \<open>What every task keeps to\<close>

text \<open>Tasks add events to the log and nothing else, and make only calls of \<open>S\<close>.\<close>

definition behaves :: "sys_call set \<Rightarrow> sv \<Rightarrow> sv \<Rightarrow> bool" where
  "behaves S = (\<lambda>(s, h) (s', h').
     emits (sv_events s) (sv_events s') \<and> (\<exists>k. h' = h @ k \<and> fst ` set k \<subseteq> S))"

lemma behavesI: "emits (sv_events (fst t)) (sv_events (fst u)) \<Longrightarrow> snd u = snd t @ k \<Longrightarrow> fst ` set k \<subseteq> S \<Longrightarrow> behaves S t u"
  unfolding behaves_def case_prod_beta by blast

lemma behavesE:
  assumes "behaves S t u"
  obtains k where "emits (sv_events (fst t)) (sv_events (fst u))" "snd u = snd t @ k" "fst ` set k \<subseteq> S"
  using assms unfolding behaves_def case_prod_beta by blast

interpretation wb: guarantee "behaves S" for S
proof
  show "behaves S t t" for t
    by (rule behavesI [where k = "[]"]) simp_all
  show "behaves S t w" if tu: "behaves S t u" and uw: "behaves S u w" for t u w
    using tu
  proof (rule behavesE)
    fix k
    assume k: "emits (sv_events (fst t)) (sv_events (fst u))" "snd u = snd t @ k" "fst ` set k \<subseteq> S"
    show ?thesis
      using uw
    proof (rule behavesE)
      fix l
      assume "emits (sv_events (fst u)) (sv_events (fst w))" "snd w = snd u @ l" "fst ` set l \<subseteq> S"
      with k show ?thesis
        by (intro behavesI [where k = "k @ l"]) (auto intro: emits_trans)
    qed
  qed
qed

named_theorems behaves_intros "tasks that keep to the guarantee"

lemmas behaves_structure [behaves_intros] = wb.always_bind wb.always_forget wb.always_sum wb.always.simps(1) [THEN iffD2, OF TrueI]

lemma behaves_prod [behaves_intros]: "(\<And>x y. wb.always S (f x y)) \<Longrightarrow> wb.always S (case p of (x, y) \<Rightarrow> f x y)"
  by (cases p) simp

lemma behaves_outside [behaves_intros]:
  assumes "only m S"
  shows "wb.always S (outside m)"
  unfolding outside_def
proof (rule wb.always_atomic)
  fix t :: sv
  obtain k where "snd (m (snd t)) = snd t @ k" "fst ` set k \<subseteq> S"
    using assms unfolding only_def traces_def by blast
  then show "behaves S t (snd (lift_io m t))"
    by (intro behavesI [where k = k]) (simp_all add: lift_io_def case_prod_beta)
qed

lemma only_sonly:
  assumes "sonly m S"
  shows "only (\<lambda>h. case m (s, h) of (x, (s', h')) \<Rightarrow> (f x s', h')) S"
  unfolding only_def traces_def
proof
  fix h
  show "\<exists>k. snd (case m (s, h) of (x, (s', h')) \<Rightarrow> (f x s', h')) = h @ k \<and> fst ` set k \<subseteq> S"
    using straces_case [OF sonlyD [OF assms], where s = s and h = h] by (auto split: prod.splits)
qed

lemma behaves_steps [behaves_intros]:
  "wb.always S (reads g)" "wb.always S task_allocate" "wb.always S (task_release ip)"
  "wb.always S (task_insert X i e)" "wb.always S (task_remove X i)"
  unfolding reads_def task_allocate_def task_release_def task_insert_def task_remove_def
  by (rule wb.always_atomic, simp add: behaves_def split: prod.splits sum.splits)+

lemma behaves_on_events: "(\<And>es. emits es (snd (g es))) \<Longrightarrow> wb.always S (on_events g)"
  unfolding on_events_def by (rule wb.always_atomic) (simp add: behaves_def split: prod.splits)

lemma behaves_logging [behaves_intros]:
  "wb.always S (vm_event X clock t i d)" "wb.always S (vm_failed X clock i e st)" "wb.always S (server_log X clock v m)"
  unfolding vm_event_def vm_failed_def server_log_def by (rule behaves_on_events, simp)+

lemma behaves_timed [behaves_intros]:
  assumes "ElapsedMs \<in> S"
  shows "wb.always S (elapsed_ms host)" "wb.always S (finish_event X host clock t i ok d)"
proof -
  show elapsed: "wb.always S (elapsed_ms host)"
    unfolding elapsed_ms_def by (intro behaves_outside only_intros assms)
  show "wb.always S (finish_event X host clock t i ok d)"
    unfolding finish_event_def by (intro wb.always_bind elapsed behaves_on_events) simp
qed

text \<open>The groups of outside calls in the handlers.\<close>

lemma safe_asks:
  "only (map_io f (ask host SystemNow)) filter_safe" "only (map_io g (ask host NewUuid)) filter_safe"
  "only (ask host (RemoveFile q)) filter_safe"
  by (intro only_intros; simp add: filter_safe_def case_prod_beta)+

lemma elapsed_safe: "ElapsedMs \<in> filter_safe"
  by (simp add: filter_safe_def case_prod_beta)

lemmas safe_calls = safe_asks
  quiet_agent(1) [THEN only_mono, OF quiet_subset(2)] quiet_agent_exec [THEN only_mono, OF quiet_subset(2)]
  quiet_network(1) [THEN only_mono, OF quiet_subset(2)] quiet_network(2) [THEN only_mono, OF quiet_subset(2)]
  quiet_wait_ready [of _ _ _ 0, folded wait_ready_def, THEN only_mono, OF quiet_subset(2)]

lemmas safe_managers =
  only_sonly [OF sonly_mono [OF quiet_manager(1) quiet_subset(2)]]
  only_sonly [OF sonly_mono [OF quiet_manager(2) quiet_subset(2)]]
  only_sonly [OF sonly_mono [OF quiet_manager(3) quiet_subset(2)]]

lemma requests_behave:
  assumes "p \<in> request_tasks X host clock svc order \<union> proxy_events X clock"
  shows "wb.always filter_safe p"
proof -
  have "wb.always filter_safe (register_vm X host clock req i ip m)" for req i ip m
    unfolding register_vm_def Let_def by (intro behaves_intros safe_calls safe_managers elapsed_safe)
  then have "wb.always filter_safe (boot_vm X host clock svc req i ip)" for req i ip
    unfolding boot_vm_def Let_def by (intro behaves_intros safe_calls safe_managers elapsed_safe)
  then have "wb.always filter_safe (create_vm X host clock svc req)" for req
    unfolding create_vm_def Let_def by (intro behaves_intros safe_calls safe_managers elapsed_safe)
  moreover have "wb.always filter_safe (delete_vm X host clock i)" for i
    unfolding delete_vm_def Let_def by (intro behaves_intros safe_calls safe_managers elapsed_safe)
  moreover have "wb.always filter_safe (exec_vm X host clock rq)" for rq
    unfolding exec_vm_def by (intro behaves_intros safe_calls elapsed_safe)
  moreover have "wb.always filter_safe (list_v_ms X order)" "wb.always filter_safe exec_vm_stream"
    unfolding list_v_ms_def exec_vm_stream_def by (intro behaves_intros)+
  moreover have "wb.always filter_safe (on_events (emit_inner X clock t c v i d ok data))" for t c v i d ok data
    by (rule behaves_on_events, rule emits_emit_inner)
  ultimately show ?thesis
    using assms unfolding request_tasks_def proxy_events_def by (auto intro: wb.always_forget)
qed

text \<open>The clean-up of the shutdown also makes other calls.\<close>

lemma only_any: "only m S \<Longrightarrow> only m UNIV"
  by (erule only_mono) simp

lemma behaves_mono: "behaves S t u \<Longrightarrow> S \<subseteq> T \<Longrightarrow> behaves T t u"
  by (erule behavesE, rule behavesI) auto

lemma always_mono: "wb.always S p \<Longrightarrow> S \<subseteq> T \<Longrightarrow> wb.always T p"
proof (induction p rule: prog_induct)
  case (Step g)
  have "wb.always T (fst (g t)) \<and> behaves T t (snd (g t))" for t
    using Step.IH [of t] Step.prems behaves_mono unfolding wb.always_Step by blast
  then show ?case
    by (simp add: wb.always_Step del: wb.always.simps)
qed simp

lemma cleanup_behaves: "wb.always UNIV (cleanup_vm X host clock row)" "wb.always UNIV (cleanup_all X host clock rows)"
proof -
  show vm: "wb.always UNIV (cleanup_vm X host clock row)" for row
    unfolding cleanup_vm_def
    by (intro behaves_intros safe_calls [THEN only_any] safe_managers [THEN only_any])
  show "wb.always UNIV (cleanup_all X host clock rows)"
    by (induction rows) (auto intro!: wb.always_bind vm)
qed

lemma shutdown_behaves: "wb.always UNIV (shutdown_signal X host clock order registered wake)"
proof -
  have "wb.always UNIV (cleanup_server X host clock order)"
    unfolding cleanup_server_def
    by (intro behaves_intros cleanup_behaves only_remove_proxy_rules [THEN only_any] only_intros) simp
  then have "wb.always UNIV (bindP (server_log X clock None l) (\<lambda>_. bindP (cleanup_server X host clock order) (\<lambda>_. Done (Ret ()))))" for l
    by (intro behaves_intros)
  then show ?thesis
    by (auto simp: shutdown_signal_def split: sum.split shutdown_wake.split)
qed

lemma server_behaves:
  "p \<in> server_tasks X host clock svc order \<union> proxy_events X clock \<Longrightarrow> wb.always UNIV p"
  unfolding server_tasks_def
  using always_mono [OF requests_behave, of p X host clock svc order UNIV]
  by (auto intro: wb.always_forget shutdown_behaves)

subsection \<open>The filter stands while the server serves\<close>

lemma table_keeps_bridge:
  "fst ` set k \<subseteq> filter_safe \<Longrightarrow> set (bridge_rules bridge_name) \<subseteq> set T \<Longrightarrow>
   set (bridge_rules bridge_name) \<subseteq> set (table_after T k)"
proof (induction T k rule: table_after.induct)
  case (3 T t c r reply k)
  then have "(t, c, r) \<notin> set (bridge_rules bridge_name)"
    by (auto simp: filter_safe_def)
  then have "set (bridge_rules bridge_name) \<subseteq> set (if is_ok (reply_unit reply) then remove1 (t, c, r) T else T)"
    using "3.prems"(2) by (auto simp del: split_paired_All) (metis in_set_remove1 subsetD)
  with 3 show ?case
    by simp
next
  case (2 T t c r reply k)
  then have "set (bridge_rules bridge_name) \<subseteq> set (if is_ok (reply_unit reply) then T @ [(t, c, r)] else T)"
    by auto
  with 2 show ?case
    by simp
qed simp_all

text \<open>C5: The guests are never without the filter while the control API is served. When start-up succeeds,
  the sockets of the three proxies are bound and requests go unauthorized only if no authorization
  service was configured; and from then on, in every interleaving of any number of requests with
  each other and with the proxies, up to the moment a shutdown begins, the redirect and drop rules
  of the bridge are in force.\<close>

theorem guarded_until_shutdown:
  assumes "ipt_faithful T0 host"
    and "start_up X R generated self_signed host nhost clock E b = (Inr sd, b')"
    and "(pool_step (request_tasks X host clock (sd_service sd) order \<union> proxy_events X clock))\<^sup>*\<^sup>*
      ([], (server_new (bt_es b'), bt_sys b')) (ts, (s, h))"
  shows "set (bridge_rules bridge_name) \<subseteq> set (table_after T0 h) \<and> all_bound (be_sockets E) \<and>
    (px_auth (sd_ctx sd) = Disabled \<longleftrightarrow> be_var E ''CLAWPOT_AUTH_ADDR'' = None)"
proof -
  have "behaves filter_safe (server_new (bt_es b'), bt_sys b') (s, h)"
    using wb.always_pool [OF assms(3)] requests_behave by fastforce
  then obtain k where "h = bt_sys b' @ k" "fst ` set k \<subseteq> filter_safe"
    by (rule behavesE) simp
  then show ?thesis
    using start_up_guards [OF assms(1,2)] table_keeps_bridge [of k "table_after T0 (bt_sys b')"] by simp
qed

text \<open>A start on a host where everything works, and a request served to its end.\<close>

theorem guarded_until_shutdown_witness:
  "\<exists>sd b'. start_up sample_libs text_rcgen (Inr ''K'') (\<lambda>_. Inr ''C'') (rule_host True []) (\<lambda>_ _. NDone)
      (\<lambda>_. ''t'') sample_env sample_boot = (Inr sd, b') \<and> px_auth (sd_ctx sd) = Disabled \<and>
    (case run (forget (create_vm sample_libs (rule_host True []) (\<lambda>_. ''t'') (sd_service sd) sample_request))
       (server_new (bt_es b'), bt_sys b') of (_, (s, h)) \<Rightarrow> set (bridge_rules bridge_name) \<subseteq> set (table_after [] h))"
proof -
  obtain sd b' where start: "start_up sample_libs text_rcgen (Inr ''K'') (\<lambda>_. Inr ''C'') (rule_host True [])
      (\<lambda>_ _. NDone) (\<lambda>_. ''t'') sample_env sample_boot = (Inr sd, b')"
    using succeeds_start_up unfolding succeeds_def is_ok_iff by (metis prod.collapse)
  let ?p = "forget (create_vm sample_libs (rule_host True []) (\<lambda>_. ''t'') (sd_service sd) sample_request)"
  obtain s h where run: "snd (run ?p (server_new (bt_es b'), bt_sys b')) = (s, h)"
    by (metis prod.collapse)
  have "(pool_step (request_tasks sample_libs (rule_host True []) (\<lambda>_. ''t'') (sd_service sd) order \<union>
      proxy_events sample_libs (\<lambda>_. ''t'')))\<^sup>*\<^sup>* ([], (server_new (bt_es b'), bt_sys b')) ([] @ [Done ()], (s, h))" for order
    unfolding run [symmetric] by (rule pool_run) (auto simp: request_tasks_def)
  from guarded_until_shutdown [OF rule_host_faithful start this] start run show ?thesis
    by (auto simp: sample_env_def case_prod_beta)
qed

subsection \<open>The log of a session\<close>

text \<open>The part of the system that is the log: every step of the system is a run of it.\<close>

definition system_log :: "system \<Rightarrow> log_state" where
  "system_log S = \<lparr>l_sent = sy_sent S, l_alive = True, l_lost = sy_lost S, l_es = sv_events (sy_server S),
     l_writer = sy_writer S\<rparr>"

definition tasks_behave :: "system \<Rightarrow> bool" where
  "tasks_behave S \<longleftrightarrow> (\<forall>p \<in> set (sy_tasks S). wb.always UNIV p)"

lemma task_emits:
  assumes "tasks_behave S"
    and "pool_step (server_tasks X host clock svc order \<union> proxy_events X clock)
      (sy_tasks S, (sy_server S, sy_sys S)) (ts, (s, h))"
  shows "emits (sv_events (sy_server S)) (sv_events s)" "\<forall>p \<in> set ts. wb.always UNIV p"
proof -
  have "\<forall>p \<in> (server_tasks X host clock svc order \<union> proxy_events X clock) \<union> set (sy_tasks S). wb.always UNIV p"
    using assms(1) server_behaves unfolding tasks_behave_def by blast
  from wb.always_step [OF assms(2) this]
  show "emits (sv_events (sy_server S)) (sv_events s)" "\<forall>p \<in> set ts. wb.always UNIV p"
    by (auto elim: behavesE)
qed

lemma system_step_behave: "system_step X host clock svc order S T \<Longrightarrow> tasks_behave S \<Longrightarrow> tasks_behave T"
proof (induction rule: system_step.induct)
  case (task S ts s h)
  then show ?case
    using task_emits(2) by (auto simp: tasks_behave_def)
qed (auto simp: tasks_behave_def main_sends_def Let_def)

lemma emits_server_stopped: "emits es (server_stopped X clock es)"
  by (simp add: server_stopped_def)

lemma main_sends_log:
  assumes "emits (sv_events (sy_server S)) (f (sv_events (sy_server S)))"
  shows "log_step\<^sup>*\<^sup>* (system_log S) (system_log (main_sends f S))"
  using emits_log_steps [of "system_log S", OF _] assms by (simp add: system_log_def main_sends_def Let_def)

lemma close_session_log: "log_step (system_log S) (system_log (main_sends close_session S))"
  using send [of "system_log S" Close]
  by (cases "es_open (sv_events (sy_server S))")
    (simp_all add: system_log_def main_sends_def Let_def close_session_def tx_send_def sent_between_def)

lemma system_log_main [simp]: "system_log (S\<lparr>sy_main := p\<rparr>) = system_log S"
  by (simp add: system_log_def)

text \<open>A panic ends the program and is left out here.\<close>

lemma system_step_log:
  assumes "system_step X host clock svc order S T" "tasks_behave S" "sy_main T \<noteq> MainPanicked"
  shows "log_step\<^sup>*\<^sup>* (system_log S) (system_log T)"
  using assms(1)
proof (cases rule: system_step.cases)
  case (task ts s h)
  then show ?thesis
    using emits_log_steps [of "system_log S", OF _] task_emits(1) [OF assms(2) task(3)]
    by (simp add: system_log_def)
next
  case (writes commits updates now es w)
  then show ?thesis
    using work [of commits updates "system_log S" now es w] by (auto simp: system_log_def)
next
  case serve_ends
  then show ?thesis
    using main_sends_log [of S "server_stopped X clock"] emits_server_stopped by simp
next
  case close
  then show ?thesis
    using close_session_log by auto
qed (use assms(3) in auto)

text \<open>What has been sent when \<^verbatim>\<open>main\<close> is where it is.\<close>

definition closed_shape :: "event_record \<Rightarrow> event_record list \<Rightarrow> writer_msg list \<Rightarrow> bool" where
  "closed_shape started during ms \<longleftrightarrow> (\<exists>stopped late rest. er_event_type stopped = ''server.stopped'' \<and>
     ms = map Event (started # during @ stopped # late) @ Close # map Event rest)"

definition sent_shape :: "main_phase \<Rightarrow> writer_msg list \<Rightarrow> bool" where
  "sent_shape p ms \<longleftrightarrow> (\<exists>started during. er_event_type started = ''server.started'' \<and>
     (case p of
        AtServe \<Rightarrow> ms = map Event (started # during)
      | AtStopped \<Rightarrow> (\<exists>stopped late. er_event_type stopped = ''server.stopped'' \<and>
          ms = map Event (started # during @ stopped # late))
      | AtClose \<Rightarrow> closed_shape started during ms
      | MainReturned r \<Rightarrow> is_ok r \<longrightarrow> closed_shape started during ms
      | MainPanicked \<Rightarrow> True))"

lemma closed_shape_events: "closed_shape a as ms \<Longrightarrow> closed_shape a as (ms @ map Event rs)"
  unfolding closed_shape_def by (elim exE) (rule exI, rule exI, rule exI [of _ "rest @ rs" for rest], auto)

lemma sent_shape_closed:
  "er_event_type a = ''server.started'' \<Longrightarrow> closed_shape a as ms \<Longrightarrow> sent_shape AtClose ms"
  "er_event_type a = ''server.started'' \<Longrightarrow> is_ok r \<longrightarrow> closed_shape a as ms \<Longrightarrow> sent_shape (MainReturned r) ms"
  unfolding sent_shape_def main_phase.case by blast+

lemma sent_shape_stopped:
  "er_event_type a = ''server.started'' \<Longrightarrow> er_event_type z = ''server.stopped'' \<Longrightarrow>
   ms = map Event (a # as @ z # zs) \<Longrightarrow> sent_shape AtStopped ms"
  unfolding sent_shape_def main_phase.case by blast

lemma sent_shape_events:
  assumes "sent_shape p ms"
  shows "sent_shape p (ms @ map Event rs)"
proof -
  obtain a as where a: "er_event_type a = ''server.started''" and shape: "case p of
        AtServe \<Rightarrow> ms = map Event (a # as)
      | AtStopped \<Rightarrow> (\<exists>z zs. er_event_type z = ''server.stopped'' \<and> ms = map Event (a # as @ z # zs))
      | AtClose \<Rightarrow> closed_shape a as ms
      | MainReturned r \<Rightarrow> is_ok r \<longrightarrow> closed_shape a as ms
      | MainPanicked \<Rightarrow> True"
    using assms unfolding sent_shape_def by blast
  show ?thesis
  proof (cases p)
    case AtServe
    then show ?thesis
      using a shape by (auto simp: sent_shape_def intro!: exI [of _ a] exI [of _ "as @ rs"])
  next
    case AtStopped
    then obtain z zs where "er_event_type z = ''server.stopped''" "ms = map Event (a # as @ z # zs)"
      using shape by auto
    then show ?thesis
      using a AtStopped by (simp only: AtStopped) (rule sent_shape_stopped [of a z _ as "zs @ rs"], simp_all)
  next
    case AtClose
    then show ?thesis
      using a shape by (simp add: sent_shape_closed(1) [of a as] closed_shape_events)
  next
    case (MainReturned r)
    then show ?thesis
      using a shape by (simp add: sent_shape_closed(2) [of a r as] closed_shape_events)
  next
    case MainPanicked
    then show ?thesis
      using a by (auto simp: sent_shape_def)
  qed
qed

text \<open>While a receiver is there, the last event and the request to close are accepted.\<close>

lemma server_stopped_sent:
  assumes "es_persist_mode es \<noteq> NoPersist" "es_open es"
  obtains r where "er_event_type r = ''server.stopped''" "sent_between es (server_stopped X clock es) = [Event r]"
proof -
  have "should_persist (es_persist_mode es) ''server.stopped''"
    using assms(1) by (cases "es_persist_mode es") (simp_all add: should_persist_def)
  then have "\<exists>r. er_event_type r = ''server.stopped'' \<and> sent_between es (server_stopped X clock es) = [Event r]"
    using assms(2)
    by (simp add: server_stopped_def clawpot_event_def emit_def emit_inner_def Let_def tx_send_def sent_between_def)
  then show thesis
    using that by blast
qed

lemma close_session_sent: "es_open es \<Longrightarrow> sent_between es (close_session es) = [Close]"
  by (simp add: close_session_def tx_send_def sent_between_def)

definition session_inv :: "log_state \<Rightarrow> system \<Rightarrow> bool" where
  "session_inv I S \<longleftrightarrow> tasks_behave S \<and>
     (sy_main S = MainPanicked \<or> log_step\<^sup>*\<^sup>* I (system_log S) \<and> sent_shape (sy_main S) (sy_sent S))"

lemma session_open:
  assumes "session_inv (log_init session mode db) S" "mode \<noteq> NoPersist" "sy_main S = AtServe \<or> sy_main S = AtStopped"
  shows "es_open (sv_events (sy_server S))" "es_persist_mode (sv_events (sy_server S)) \<noteq> NoPersist"
proof -
  have log: "log_step\<^sup>*\<^sup>* (log_init session mode db) (system_log S)" and "sent_shape (sy_main S) (sy_sent S)"
    using assms(1,3) by (auto simp: session_inv_def)
  then have "Close \<notin> set (l_sent (system_log S))"
    using assms(3) by (auto simp: sent_shape_def system_log_def)
  then show "es_open (sv_events (sy_server S))"
    using log_open [OF log] by (simp add: system_log_def)
  show "es_persist_mode (sv_events (sy_server S)) \<noteq> NoPersist"
    using log_steps_mode [OF log] assms(2) by (simp add: system_log_def log_init_def EventStore_new_def)
qed

lemma session_inv_step:
  assumes inv: "session_inv (log_init session mode db) S" and mode: "mode \<noteq> NoPersist"
    and step: "system_step X host clock svc order S T"
  shows "session_inv (log_init session mode db) T"
proof (cases "sy_main T = MainPanicked")
  case True
  then show ?thesis
    using inv system_step_behave [OF step] by (simp add: session_inv_def)
next
  case False
  have behave: "tasks_behave S" "tasks_behave T"
    using inv system_step_behave [OF step] by (simp_all add: session_inv_def)
  have "sy_main S \<noteq> MainPanicked"
    using step by (cases rule: system_step.cases) (auto simp: main_result_def)
  then have S: "log_step\<^sup>*\<^sup>* (log_init session mode db) (system_log S)" "sent_shape (sy_main S) (sy_sent S)"
    using inv by (simp_all add: session_inv_def)
  have "sent_shape (sy_main T) (sy_sent T)"
    using step
  proof (cases rule: system_step.cases)
    case (task ts s h)
    obtain rs where "sent_between (sv_events (sy_server S)) (sv_events s) = map Event rs"
      using task_emits(1) [OF behave(1) task(3)] by (rule sent_between_emits)
    then show ?thesis
      using task S(2) sent_shape_events by simp
  next
    case serve_ends
    obtain z where z: "er_event_type z = ''server.stopped''"
      "sent_between (sv_events (sy_server S)) (server_stopped X clock (sv_events (sy_server S))) = [Event z]"
      using server_stopped_sent session_open [OF inv mode] serve_ends(2) by metis
    obtain a as where "er_event_type a = ''server.started''" "sy_sent S = map Event (a # as)"
      using S(2) serve_ends(2) by (auto simp: sent_shape_def)
    then show ?thesis
      using z serve_ends sent_shape_stopped [of a z _ as "[]"] by (simp add: main_sends_def Let_def)
  next
    case close
    then have "sent_between (sv_events (sy_server S)) (close_session (sv_events (sy_server S))) = [Close]"
      using session_open [OF inv mode] close_session_sent by blast
    moreover obtain a as z zs where "er_event_type a = ''server.started''" "er_event_type z = ''server.stopped''"
      "sy_sent S = map Event (a # as @ z # zs)"
      using S(2) close(2) by (auto simp: sent_shape_def)
    moreover from this have "closed_shape a as (sy_sent S @ [Close])"
      unfolding closed_shape_def by (intro exI [of _ z] exI [of _ zs] exI [of _ "[]"]) simp
    ultimately show ?thesis
      using close sent_shape_closed(1) [of a as] by (simp add: main_sends_def Let_def)
  qed (use S(2) False in \<open>auto simp: sent_shape_def lib_ctx_def\<close>)
  then show ?thesis
    using rtranclp_trans [OF S(1) system_step_log [OF step behave(1) False]] behave(2) by (simp add: session_inv_def)
qed

lemma session_inv_steps:
  assumes "(system_step X host clock svc order)\<^sup>*\<^sup>* S T" "session_inv (log_init session mode db) S" "mode \<noteq> NoPersist"
  shows "session_inv (log_init session mode db) T"
  using assms by (induction rule: rtranclp_induct) (auto intro: session_inv_step)

text \<open>What start-up leaves in the log: the event a session starts with, and more events.\<close>

lemma open_event_store_Inr:
  assumes "open_event_store host S now path session version config mode h = (Inr (es, w), h')"
  obtains db where "es = EventStore_new session mode" "sq_connect S = Inr db"
    "w = writer_new (db\<lparr>db_sessions := db_sessions db @ [new_session session now version config]\<rparr>)"
  using assms unfolding open_event_store_def
  by (auto elim!: bindE_InrE simp: ret_io_def lib_ctx_def split: sum.splits)

lemma boot_events_log:
  assumes run: "boot_events X host clock E b = (Inr (), b1)"
    and mode: "persist_from_env (be_var E ''CLAWPOT_EVENTS_PERSIST'') \<noteq> NoPersist"
    and db: "sq_connect (be_sqlite E) = Inr db"
  obtains r db' where "db_events db' = db_events db" "er_event_type r = ''server.started''" "bt_sent b1 = [Event r]"
    "bt_writer b1 \<noteq> None" "\<not> bt_lost b1"
    "log_step\<^sup>*\<^sup>* (log_init (be_session_id E) (persist_from_env (be_var E ''CLAWPOT_EVENTS_PERSIST'')) db') (log_of b1)"
proof -
  let ?mode = "persist_from_env (be_var E ''CLAWPOT_EVENTS_PERSIST'')"
  let ?es = "EventStore_new (be_session_id E) ?mode"
  have "\<exists>h row d. b1 = boot_sends (clawpot_event X clock ''server.started'' ''server'' None d)
      (b\<lparr>bt_sys := h, bt_es := ?es, bt_writer := Some (writer_new (db\<lparr>db_sessions := row\<rparr>)), bt_sent := [], bt_lost := False\<rparr>)"
    using run db unfolding boot_events_def Let_def
    by (auto elim!: bindE_InrE bind_ioE open_event_store_Inr
        simp: ret_io_def boot_emit_def on_sys_def ctx_io_apply with_context_def split: prod.splits sum.splits)
      ((rule exI)+, rule refl)
  then obtain b0 row d where b1: "b1 = boot_sends (clawpot_event X clock ''server.started'' ''server'' None d) b0"
    and b0: "bt_es b0 = ?es" "bt_sent b0 = []" "bt_lost b0 = False" "bt_writer b0 = Some (writer_new (db\<lparr>db_sessions := row\<rparr>))"
    by force
  have "log_of b0 = log_init (be_session_id E) ?mode (db\<lparr>db_sessions := row\<rparr>)"
    by (simp add: log_of_def log_init_def b0)
  moreover have "logs b0 b1"
    unfolding b1 by (rule logs_sends) simp
  moreover have "should_persist ?mode ''server.started''"
    using mode by (cases ?mode) (simp_all add: should_persist_def)
  then have "\<exists>r. er_event_type r = ''server.started'' \<and> bt_sent b1 = [Event r]"
    by (simp add: b1 b0 boot_sends_def Let_def clawpot_event_def emit_def emit_inner_def tx_send_def
        sent_between_def EventStore_new_def)
  ultimately show thesis
    using b0 by (auto simp: logs_def b1 boot_sends_def Let_def intro: that [of "db\<lparr>db_sessions := row\<rparr>"])
qed

lemma start_up_session:
  assumes start: "start_up X R generated self_signed host nhost clock E b = (Inr sd, b1)" and w: "bt_writer b1 = Some w"
    and mode: "persist_from_env (be_var E ''CLAWPOT_EVENTS_PERSIST'') \<noteq> NoPersist"
    and db: "sq_connect (be_sqlite E) = Inr db"
  obtains db' where "db_events db' = db_events db"
    "session_inv (log_init (be_session_id E) (persist_from_env (be_var E ''CLAWPOT_EVENTS_PERSIST'')) db') (system_of b1 w)"
proof -
  obtain b0 where b0: "boot_events X host clock E b = (Inr (), b0)" and logs: "logs b0 b1"
    using start by (rule start_up_logs)
  obtain r db' where r: "db_events db' = db_events db" "er_event_type r = ''server.started''" "bt_sent b0 = [Event r]"
    "log_step\<^sup>*\<^sup>* (log_init (be_session_id E) (persist_from_env (be_var E ''CLAWPOT_EVENTS_PERSIST'')) db') (log_of b0)"
    using boot_events_log [OF b0 mode db] by metis
  have "system_log (system_of b1 w) = log_of b1"
    by (simp add: system_log_def system_of_def log_of_def server_new_def w)
  moreover obtain rs where "bt_sent b1 = map Event (r # rs)"
    using logs r(3) by (auto simp: logs_def)
  then have "sent_shape AtServe (bt_sent b1)"
    using r(2) by (auto simp: sent_shape_def)
  ultimately show thesis
    using r(1,4) logs by (intro that [of db'])
      (auto simp: session_inv_def tasks_behave_def system_of_def logs_def)
qed

text \<open>C10: The log of a session, in every run of the server that returns without an error, in any
  interleaving of start-up, requests, proxies, shutdown and writer, while events are kept: the
  messages sent are \<^verbatim>\<open>server.started\<close>, the events of the session, \<^verbatim>\<open>server.stopped\<close>, the events proxies
  still emit before the request to close, that request, and what comes after it. The rows added to
  the database are a subsequence of these events, a prefix if no transaction failed. If moreover
  the writer answered the request before \<^verbatim>\<open>main\<close> returned, everything up to the request is stored; if
  the 5 seconds ran out first, it need not be.\<close>

theorem session_log_complete:
  assumes "server_run X R generated self_signed host nhost clock order M b (Ret (Inr ())) (Some S)"
    and "persist_from_env (be_var (me_boot M) ''CLAWPOT_EVENTS_PERSIST'') \<noteq> NoPersist"
    and "sq_connect (be_sqlite (me_boot M)) = Inr db"
  shows "\<exists>started during stopped late rest.
    er_event_type started = ''server.started'' \<and> er_event_type stopped = ''server.stopped'' \<and>
    sy_sent S = map Event (started # during @ stopped # late) @ Close # map Event rest \<and>
    (let stored = logged (length (db_events db)) (w_db (sy_writer S)); session = started # during @ stopped # late in
       subseq stored (session @ rest) \<and>
       (\<not> sy_lost S \<longrightarrow> prefix stored (session @ rest)) \<and>
       (\<not> sy_lost S \<and> w_phase (sy_writer S) = writer_phase.Exited \<longrightarrow> prefix session stored))"
  using assms(1)
proof (rule server_run_SomeE)
  fix t sd b1 w
  let ?mode = "persist_from_env (be_var (me_boot M) ''CLAWPOT_EVENTS_PERSIST'')"
  assume "start_up X R generated self_signed host nhost clock (me_boot M) b = (Inr sd, b1)" "bt_writer b1 = Some w"
    and steps: "(system_step X host clock (sd_service sd) order)\<^sup>*\<^sup>* (system_of b1 w) S"
    and ended: "main_result (sy_main S) = Some (Ret (Inr ()))"
  then obtain db' where db': "db_events db' = db_events db"
    "session_inv (log_init (be_session_id (me_boot M)) ?mode db') (system_of b1 w)"
    using start_up_session assms(2,3) by metis
  have main: "sy_main S = MainReturned (Inr ())"
    using ended by (cases "sy_main S") (auto simp: main_result_def)
  then have log: "log_step\<^sup>*\<^sup>* (log_init (be_session_id (me_boot M)) ?mode db') (system_log S)"
    and "sent_shape (MainReturned (Inr ())) (sy_sent S)"
    using session_inv_steps [OF steps db'(2) assms(2)] by (auto simp: session_inv_def)
  have inv: "log_inv (length (db_events db)) (system_log S)"
    using log_reachable_inv [OF log] db'(1) by simp
  from \<open>sent_shape (MainReturned (Inr ())) (sy_sent S)\<close> obtain started during stopped late rest where shape: "er_event_type started = ''server.started''"
    "er_event_type stopped = ''server.stopped''"
    "sy_sent S = map Event (started # during @ stopped # late) @ Close # map Event rest"
    by (auto simp: sent_shape_def closed_shape_def)
  have "events_in (map Event rs) = rs" "takeWhile (\<lambda>m. m \<noteq> Close) (map Event rs @ Close # ms) = map Event rs" for rs ms
    by (induction rs) simp_all
  then have sent: "events_in (sy_sent S) = (started # during @ stopped # late) @ rest"
    "events_in (takeWhile (\<lambda>m. m \<noteq> Close) (sy_sent S)) = started # during @ stopped # late"
    unfolding shape(3) by (simp_all only: events_in_simps)
  show ?thesis
    using shape log_inv_stored [OF inv] unfolding system_log_def log_state.select_convs sent Let_def by blast
qed

text \<open>When \<^verbatim>\<open>main\<close> waits and nothing but the writer runs, the answer comes.\<close>

definition with_log :: "log_state \<Rightarrow> system \<Rightarrow> system" where
  "with_log l S = S\<lparr>sy_server := (sy_server S)\<lparr>sv_events := l_es l\<rparr>, sy_writer := l_writer l, sy_lost := l_lost l\<rparr>"

lemma writer_alone_system:
  assumes "main_result (sy_main S) = None"
  shows "(system_step X host clock svc order)\<^sup>*\<^sup>* S (with_log ((writer_alone now ^^ k) (system_log S)) S)"
proof (induction k)
  case (Suc k)
  let ?l = "(writer_alone now ^^ k) (system_log S)"
  obtain es w where step: "writer_step True True True now (l_es ?l, l_writer ?l) = (es, w)"
    by (cases "writer_step True True True now (l_es ?l, l_writer ?l)")
  have "l_alive ?l"
    by (induction k) (simp_all add: writer_alone_def system_log_def)
  then have "with_log ((writer_alone now ^^ Suc k) (system_log S)) S =
      (with_log ?l S)\<lparr>sy_server := (sy_server (with_log ?l S))\<lparr>sv_events := es\<rparr>, sy_writer := w,
        sy_lost := sy_lost (with_log ?l S) \<or> \<not> True\<rparr>"
    using step by (simp add: writer_alone_def with_log_def)
  then have "system_step X host clock svc order (with_log ?l S) (with_log ((writer_alone now ^^ Suc k) (system_log S)) S)"
    using writes [of "with_log ?l S" True True now es w] step assms by (simp add: with_log_def)
  with Suc show ?case
    by (rule rtranclp.rtrancl_into_rtrancl)
qed (simp add: with_log_def system_log_def)

lemma close_answered:
  assumes "log_inv n (system_log S)" "Close \<in> set (sy_sent S)" "sy_main S = AtClose"
  obtains T where "(system_step X host clock svc order)\<^sup>*\<^sup>* S T" "sy_main T = MainReturned (Inr ())"
    "w_phase (sy_writer T) = writer_phase.Exited" "sy_lost T = sy_lost S"
proof -
  let ?l = "(writer_alone ''t'' ^^ closing_rank (system_log S)) (system_log S)"
  let ?T = "with_log ?l S"
  have exit: "w_phase (l_writer ?l) = writer_phase.Exited"
    using assms(1,2) by (intro closing_exits close_sent_closing) (simp_all add: system_log_def)
  have "(system_step X host clock svc order)\<^sup>*\<^sup>* S ?T"
    using assms(3) by (intro writer_alone_system) (simp add: main_result_def)
  moreover have "system_step X host clock svc order ?T (?T\<lparr>sy_main := MainReturned (Inr ())\<rparr>)"
    using closed [of ?T False] assms(3) exit by (simp add: close_wait_def with_log_def)
  ultimately show thesis
    using exit writer_alone_ghost(2) [of "closing_rank (system_log S)" "''t''" "system_log S"]
    by (intro that [of "?T\<lparr>sy_main := MainReturned (Inr ())\<rparr>"])
      (auto simp: with_log_def system_log_def intro: rtranclp.rtrancl_into_rtrancl)
qed

text \<open>So \<^verbatim>\<open>main\<close> can always end with an answered close once the gRPC server has returned.\<close>

lemma main_returns:
  assumes inv: "session_inv (log_init session mode db) S" and mode: "mode \<noteq> NoPersist" and "sy_main S = AtServe"
  obtains T where "(system_step X host clock svc order)\<^sup>*\<^sup>* S T" "sy_main T = MainReturned (Inr ())"
    "w_phase (sy_writer T) = writer_phase.Exited" "sy_lost T = sy_lost S"
proof -
  let ?S1 = "(main_sends (server_stopped X clock) S)\<lparr>sy_main := AtStopped\<rparr>"
  let ?S2 = "(main_sends close_session ?S1)\<lparr>sy_main := AtClose\<rparr>"
  have "system_step X host clock svc order S ?S1"
    using assms(3) by (rule serve_ends)
  moreover have "system_step X host clock svc order ?S1 ?S2"
    by (rule close) simp
  ultimately have steps: "(system_step X host clock svc order)\<^sup>*\<^sup>* S ?S2"
    by (meson converse_rtranclp_into_rtranclp rtranclp.rtrancl_refl)
  have S2: "log_step\<^sup>*\<^sup>* (log_init session mode db) (system_log ?S2)" "sent_shape AtClose (sy_sent ?S2)"
    using session_inv_steps [OF steps inv mode] by (simp_all add: session_inv_def)
  then have "Close \<in> set (sy_sent ?S2)"
    by (auto simp: sent_shape_def closed_shape_def)
  with log_reachable_inv [OF S2(1)] obtain T where T: "(system_step X host clock svc order)\<^sup>*\<^sup>* ?S2 T"
    "sy_main T = MainReturned (Inr ())" "w_phase (sy_writer T) = writer_phase.Exited" "sy_lost T = sy_lost ?S2"
    by (rule close_answered) simp_all
  then show thesis
    using rtranclp_trans [OF steps T(1)] by (intro that [of T]) (simp_all add: main_sends_def Let_def)
qed

text \<open>A session in which nothing was asked of the server.\<close>

definition sample_main :: main_env where
  "sample_main = \<lparr>me_crypto_provider = True,
     me_telemetry = \<lparr>te_exporter = Inr (), te_rust_log = None, te_filter_ok = (\<lambda>_. True), te_fresh = True\<rparr>,
     me_boot = sample_env\<rparr>"

definition same_lost :: "boot \<Rightarrow> boot \<Rightarrow> bool" where
  "same_lost b b' \<longleftrightarrow> bt_lost b' = bt_lost b"

lemma same_lost_intros:
  "preorder_rel same_lost" "moves same_lost (on_sys m)" "moves same_lost (on_net n)"
  "moves same_lost (boot_log X clock sample_env message)"
  by (auto simp: preorder_rel_def same_lost_def moves_def on_sys_def on_net_def boot_log_def boot_emit_def boot_sends_def
      Let_def sample_env_def bind_io_def intro!: reflpI transpI split: prod.splits)

lemma same_lost_steps:
  "moves same_lost (boot_network X host clock sample_env)"
  "moves same_lost (boot_stores X R generated self_signed host nhost clock sample_env)"
  "moves same_lost (await_proxy X clock sample_env name r)" "moves same_lost (boot_assets X host clock sample_env)"
  unfolding boot_network_def boot_stores_def await_proxy_def boot_assets_def Let_def
  by (intro moves_ret moves_bind moves_bindE moves_if same_lost_intros)+

lemma sample_starts:
  obtains sd b1 w where "start_up sample_libs text_rcgen (Inr ''K'') (\<lambda>_. Inr ''C'') (rule_host True [])
      (\<lambda>_ _. NDone) (\<lambda>_. ''t'') sample_env sample_boot = (Inr sd, b1)" "bt_writer b1 = Some w" "\<not> bt_lost b1"
proof -
  obtain sd b1 where start: "start_up sample_libs text_rcgen (Inr ''K'') (\<lambda>_. Inr ''C'') (rule_host True [])
      (\<lambda>_ _. NDone) (\<lambda>_. ''t'') sample_env sample_boot = (Inr sd, b1)"
    using succeeds_start_up unfolding succeeds_def is_ok_iff by (metis prod.collapse)
  then obtain b0 where b0: "boot_events sample_libs (rule_host True []) (\<lambda>_. ''t'') sample_env sample_boot = (Inr (), b0)"
    "logs b0 b1"
    by (rule start_up_logs)
  have "bt_writer b0 \<noteq> None" "\<not> bt_lost b0"
    using boot_events_log [OF b0(1), of empty_db] by (auto simp: sample_env_def persist_from_env_def empty_db_def)
  moreover have "same_lost b0 b1"
    using start
  proof (rule start_upE, goal_cases)
    case (1 a1 a2 ca ctx a3 a4 a5 a6 svc)
    then show ?case
      using same_lost_steps(1) [THEN movesD, OF 1(2)] same_lost_steps(2) [THEN movesD, OF 1(3)]
        same_lost_steps(3) [THEN movesD, OF 1(4)] same_lost_steps(3) [THEN movesD, OF 1(5)]
        same_lost_steps(3) [THEN movesD, OF 1(6)] same_lost_steps(4) [THEN movesD, OF 1(7)] b0(1)
      by (simp add: same_lost_def)
  qed
  ultimately show thesis
    using start b0(2) that by (auto simp: logs_def same_lost_def)
qed

theorem session_log_complete_witness:
  "\<exists>S started during stopped late. server_run sample_libs text_rcgen (Inr ''K'') (\<lambda>_. Inr ''C'') (rule_host True []) (\<lambda>_ _. NDone)
      (\<lambda>_. ''t'') (\<lambda>_. []) sample_main sample_boot (Ret (Inr ())) (Some S) \<and>
    er_event_type started = ''server.started'' \<and> er_event_type stopped = ''server.stopped'' \<and>
    prefix (started # during @ stopped # late) (logged 0 (w_db (sy_writer S)))"
proof -
  let ?steps = "\<lambda>sd. (system_step sample_libs (rule_host True []) (\<lambda>_. ''t'') (sd_service sd) (\<lambda>_. []))\<^sup>*\<^sup>*"
  let ?mode = "persist_from_env (be_var (me_boot sample_main) ''CLAWPOT_EVENTS_PERSIST'')"
  obtain sd b1 w where start: "start_up sample_libs text_rcgen (Inr ''K'') (\<lambda>_. Inr ''C'') (rule_host True [])
      (\<lambda>_ _. NDone) (\<lambda>_. ''t'') (me_boot sample_main) sample_boot = (Inr sd, b1)" "bt_writer b1 = Some w"
    and lost: "\<not> bt_lost b1"
    using sample_starts by (auto simp: sample_main_def)
  have mode: "?mode \<noteq> NoPersist" and db: "sq_connect (be_sqlite (me_boot sample_main)) = Inr empty_db"
    by (simp_all add: sample_main_def sample_env_def persist_from_env_def empty_db_def)
  obtain db' where inv: "session_inv (log_init (be_session_id (me_boot sample_main)) ?mode db') (system_of b1 w)"
    using start_up_session [OF start mode db] by metis
  have "sy_main (system_of b1 w) = AtServe" "\<not> sy_lost (system_of b1 w)"
    using lost by (simp_all add: system_of_def)
  then obtain S where S: "?steps sd (system_of b1 w) S" "sy_main S = MainReturned (Inr ())"
    "w_phase (sy_writer S) = writer_phase.Exited" "\<not> sy_lost S"
    using main_returns [OF inv mode] by metis
  have "main_prologue sample_main = Ret \<lparr>tl_service_name = ''clawpot-server'', tl_service_version = be_version sample_env,
      tl_session_id = be_session_id sample_env, tl_filter = ''info''\<rparr>"
    by (simp add: main_prologue_def sample_main_def init_telemetry_def)
  from served [OF this start S(1), of "Ret (Inr ())"] S(2)
  have run: "server_run sample_libs text_rcgen (Inr ''K'') (\<lambda>_. Inr ''C'') (rule_host True []) (\<lambda>_ _. NDone)
      (\<lambda>_. ''t'') (\<lambda>_. []) sample_main sample_boot (Ret (Inr ())) (Some S)"
    by (simp add: main_result_def)
  have "length (db_events empty_db) = 0"
    by (simp add: empty_db_def)
  with session_log_complete [OF run mode db] run S(3,4) show ?thesis
    unfolding Let_def by metis
qed

end
