(* ===== verification/HttpProps.thy ===== *)
theory HttpProps
  imports HttpProxy Gateway
begin

text \<open>
  Properties of the HTTP proxy: nothing reaches the upstream without permission, what is sent
  is what was authorized, and where the server's keys go.
\<close>

subsection \<open>What is sent upstream\<close>

definition http_authorization ::
  "libs \<Rightarrow> http_lib \<Rightarrow> proxy_ctx \<Rightarrow> vm_id \<Rightarrow> http_request \<Rightarrow> bytes \<Rightarrow> auth_request" where
  "http_authorization X H ctx i req body =
     http_auth_request 0 (uuid_to_string X i) (hr_method req) (request_url H ctx req)
       (headers_map H (hr_headers req)) body"

definition upstream_of :: "http_lib \<Rightarrow> proxy_ctx \<Rightarrow> http_request \<Rightarrow> bytes \<Rightarrow> anyhow + upstream_request" where
  "upstream_of H ctx req body =
     build_upstream H (detect_llm_request (request_host H req) (request_path req) (px_llm_keys ctx))
       (request_url H ctx req) req body"

text \<open>Every request in the trace that goes upstream is the one built from the guest's request and
  some body, and that same request with that same body was permitted before.\<close>

definition sends_permitted :: "libs \<Rightarrow> http_lib \<Rightarrow> proxy_ctx \<Rightarrow> vm_id \<Rightarrow> http_request \<Rightarrow> net_history \<Rightarrow> bool" where
  "sends_permitted X H ctx i req k \<longleftrightarrow>
     (\<forall>k1 rq r k2. k = k1 @ (SendRequest rq, r) # k2 \<longrightarrow>
        (\<exists>body. upstream_of H ctx req body = Inr rq \<and>
           permitted (px_auth ctx) (http_authorization X H ctx i req body) k1))"

abbreviation http_sends :: "net_call set" where
  "http_sends \<equiv> range SendRequest"

lemma sends_permitted_quiet: "fst ` set k \<inter> http_sends = {} \<Longrightarrow> sends_permitted X H ctx i req k"
  by (fastforce simp: sends_permitted_def)

lemma sends_permitted_append:
  assumes "fst ` set k \<inter> http_sends = {}"
    and "permitted (px_auth ctx) (http_authorization X H ctx i req body) k"
    and "\<forall>rq. SendRequest rq \<in> fst ` set k' \<longrightarrow> upstream_of H ctx req body = Inr rq"
  shows "sends_permitted X H ctx i req (k @ k')"
  unfolding sends_permitted_def
proof (intro allI impI)
  fix k1 rq r k2
  assume split: "k @ k' = k1 @ (SendRequest rq, r) # k2"
  have "only_after (permitted (px_auth ctx) (http_authorization X H ctx i req body)) (k @ k') http_sends"
    using assms(1,2) permitted_append by (intro only_after_append) auto
  then have "permitted (px_auth ctx) (http_authorization X H ctx i req body) k1"
    using split unfolding only_after_def by blast
  moreover have "SendRequest rq \<in> fst ` set (k @ k')"
    unfolding split by simp
  then have "SendRequest rq \<in> fst ` set k'"
    using assms(1) by (auto simp: image_Un)
  ultimately show "\<exists>body. upstream_of H ctx req body = Inr rq \<and>
      permitted (px_auth ctx) (http_authorization X H ctx i req body) k1"
    using assms(3) by blast
qed

lemma bindE_ret [simp]: "bindE (ret_io r) f = (case r of Inl e \<Rightarrow> ret_io (Inl e) | Inr x \<Rightarrow> f x)"
  by (auto simp: bindE_def bind_io_def ret_io_def fun_eq_iff)

lemma only_http_io [only_intros]:
  "c \<in> S \<Longrightarrow> only (collect_body host c) S"
  "SendRequest rq \<in> S \<Longrightarrow> only (send_upstream host rq) S"
  "(\<And>p b. WriteBody p b \<in> S) \<Longrightarrow> only (store_body host bs n sfx body) S"
  unfolding collect_body_def send_upstream_def store_body_def Let_def by (intro only_intros; blast)+

lemma sonly_llm_logs [only_intros]:
  "sonly (log_llm_request X clock v c u b d) S"
  "sonly (log_llm_response X clock v c ms st ct b d) S"
  unfolding log_llm_request_def log_llm_response_def Let_def case_prod_unfold by (intro only_intros)+

lemma sonly_deny_http [only_intros]: "MillisSince \<in> S \<Longrightarrow> sonly (deny_http X host clock v c reason) S"
  unfolding deny_http_def by (intro only_intros)

lemma sonly_forward_http:
  "sonly (forward_http X H host clock ctx v c req body)
     ({SendRequest rq | rq. upstream_of H ctx req body = Inr rq} \<union> {CollectResponse, MillisSince} \<union>
      {WriteBody p b | p b. True})"
  unfolding forward_http_def Let_def upstream_of_def [symmetric] bindE_ret
  by (intro only_intros) auto

lemma straces_known_request:
  "straces (handle_known_request X H host clock ctx (uuid_to_string X i) corr_id req) es
     (\<lambda>_ _ k. sends_permitted X H ctx i req k)"
proof -
  let ?v = "uuid_to_string X i" and ?q = "- http_sends"
  have body: "straces (lift_io (collect_body host CollectRequest)) s (\<lambda>_ _ k. fst ` set k \<inter> http_sends = {})" for s
    by (rule straces_weaken [OF sonlyD [of _ ?q]]) (auto intro!: only_intros)
  have store: "straces (lift_io (store_body host (px_body_store ctx) 0 ''req'' b)) s
      (\<lambda>_ _ k. fst ` set k \<inter> http_sends = {})" for b s
    by (rule straces_weaken [OF sonlyD [of _ ?q]]) (auto intro!: only_intros)
  have event: "straces (proxy_event X clock e c v j d) s (\<lambda>_ _ k. k = [])" for e c v j d s
    by (simp add: proxy_event_def straces_modify)
  have auth: "straces (lift_io (authorize_http host (px_auth ctx) 0 ?v (hr_method req) (request_url H ctx req)
      (headers_map H (hr_headers req)) b)) s
      (\<lambda>r _ k. (fst (decision r) \<longrightarrow> permitted (px_auth ctx) (http_authorization X H ctx i req b) k) \<and>
        fst ` set k \<inter> http_sends = {})" for b s
    by (rule straces_lift [OF traces_authorize_http]) (auto simp: http_authorization_def)
  have millis: "straces (lift_io (millis_since host)) s (\<lambda>_ _ k. fst ` set k \<inter> http_sends = {})" for s
    by (rule straces_weaken [OF sonlyD [of _ ?q]]) (auto intro!: only_intros)
  have finish: "straces (if \<not> allowed then deny_http X host clock ?v corr_id reason
      else forward_http X H host clock ctx ?v corr_id req b) s (\<lambda>_ _ k'. sends_permitted X H ctx i req (k @ k'))"
    if k: "fst ` set k \<inter> http_sends = {}"
      "allowed \<longrightarrow> permitted (px_auth ctx) (http_authorization X H ctx i req b) k" for allowed reason b s k
  proof (cases allowed)
    case True
    then show ?thesis
      using k by (auto intro!: straces_weaken [OF sonlyD [OF sonly_forward_http]] sends_permitted_append)
  next
    case False
    have "fst ` set (k @ k') \<inter> http_sends = {}" if "fst ` set k' \<subseteq> {MillisSince}" for k'
    proof -
      have "fst ` set k' \<inter> http_sends = {}"
        using that by auto
      then show ?thesis
        using k(1) by (simp add: image_Un Int_Un_distrib2)
    qed
    then have "straces (deny_http X host clock ?v corr_id reason) s (\<lambda>_ _ k'. sends_permitted X H ctx i req (k @ k'))"
      by (intro straces_weaken [OF sonlyD [OF sonly_deny_http [of "{MillisSince}"]]] sends_permitted_quiet) simp_all
    with False show ?thesis
      by simp
  qed
  show ?thesis
    unfolding handle_known_request_def Let_def case_prod_unfold
    by (rule straces_bind [OF body], rule straces_bind [OF store], rule straces_bind [OF event],
        rule straces_bind [OF auth], rule straces_bind [OF millis], rule straces_bind [OF event],
        simp only: append.assoc [symmetric], rule finish)
      (auto simp: image_Un Int_Un_distrib2 intro: permitted_append simp: permitted_def)
qed

lemma sends_permitted_Cons:
  assumes "sends_permitted X H ctx i req k" and "c \<notin> http_sends"
  shows "sends_permitted X H ctx i req ((c, r) # k)"
  unfolding sends_permitted_def
proof (intro allI impI)
  fix k1 rq r' k2
  assume "(c, r) # k = k1 @ (SendRequest rq, r') # k2"
  then obtain k1' where "k1 = (c, r) # k1'" "k = k1' @ (SendRequest rq, r') # k2"
    using assms(2) by (auto simp: Cons_eq_append_conv)
  then show "\<exists>body. upstream_of H ctx req body = Inr rq \<and>
      permitted (px_auth ctx) (http_authorization X H ctx i req body) k1"
    using assms(1) unfolding sends_permitted_def permitted_def by fastforce
qed

definition http_granted ::
  "libs \<Rightarrow> http_lib \<Rightarrow> proxy_ctx \<Rightarrow> http_request \<Rightarrow> vm_id \<Rightarrow> net_call \<Rightarrow> net_history \<Rightarrow> bool" where
  "http_granted X H ctx req i c k \<longleftrightarrow>
     (\<exists>rq body. c = SendRequest rq \<and> upstream_of H ctx req body = Inr rq \<and>
        permitted (px_auth ctx) (http_authorization X H ctx i req body) k)"

lemma stable_http_granted: "stable (http_granted X H ctx req)"
  by (auto simp: stable_def http_granted_def permitted_def)

interpretation http: sending_gateway
  "\<lambda>reg req peer_addr. handle_request_inner X H host clock reg ctx req peer_addr"
  "\<lambda>i corr_id req. handle_known_request X H host clock ctx (uuid_to_string X i) corr_id req"
  "new_correlation X host" "\<lambda>_. Inr (text_response 403 ''Unknown VM'')"
  "\<lambda>i req _. sends_permitted X H ctx i req" http_sends "http_granted X H ctx" for X H host clock ctx
proof unfold_locales
  fix i req k1 c x k2
  assume "sends_permitted X H ctx i req (k1 @ (c, x) # k2)" and "c \<in> http_sends"
  then show "http_granted X H ctx req i c k1"
    unfolding sends_permitted_def http_granted_def by blast
qed (auto simp: handle_request_inner_def new_correlation_def
    intro: traces_map_ask straces_known_request sends_permitted_Cons)

text \<open>C2: The HTTP proxy fails closed. A request from an address no VM has gets status 403, with no
  event and no call besides drawing the correlation id. For a request of a VM, whatever goes
  upstream is the guest's request with the body that was read, and authorization was off or the
  service had allowed exactly this VM, method, URL, headers and (the first MiB of) this body.\<close>

theorem http_fail_closed:
  "case handle_request_inner X H host clock reg ctx req peer_addr (es, h) of (r, es', h') \<Rightarrow>
     \<exists>k. h' = h @ k \<and>
       (case vm_at reg (h @ take 1 k) peer_addr of
          None \<Rightarrow> r = Inr (text_response 403 ''Unknown VM'') \<and> es' = es \<and> map fst k = [NewCorrelation]
        | Some i \<Rightarrow> sends_permitted X H ctx i req k)"
  by (rule http.fail_closed)

subsection \<open>One connection\<close>

text \<open>Behind the TLS proxy, the address the connection is attributed to is the one in the PROXY
  header, which has to be readable; everything else about the connection is the same.\<close>

lemma only_read_proxy_header [only_intros]: "ReadExact 1 \<in> S \<Longrightarrow> only (read_proxy_header host) S"
  using read_header_loop_bounded [of "[]" host]
  by (fastforce simp: only_def traces_def read_proxy_header_def)

lemma only_effective_addr [only_intros]: "ReadExact 1 \<in> S \<Longrightarrow> only (effective_addr host pp peer_addr) S"
  unfolding effective_addr_def by (intro only_intros)

lemma lawful_handle_request:
  "lawful http_sends (http_granted X H ctx req) reg peer_addr (handle_request X H host clock reg ctx req peer_addr)"
  unfolding handle_request_def by (intro lawful_intros http.handler_lawful)

text \<open>The header is believed whoever sends it: a peer that writes the header of another machine's
  address is taken for that machine. The listener is bound to all interfaces and the packet
  filter only looks at forwarded traffic, so a guest can be that peer.\<close>

theorem proxy_header_believed:
  assumes "sa_ip claimed = V4 a" and "sa_ip server = V4 b"
    and "\<forall>g n. peer g (ReadExact n) = served (bytes_of (proxy_line claimed server) @ rest) g n"
  shows "\<exists>g. effective_addr peer True peer_addr [] = (Inr \<lparr>sa_ip = V4 a, sa_port = sa_port peer_addr\<rparr>, g) \<and>
    drop (bytes_read g) (bytes_of (proxy_line claimed server) @ rest) = rest"
  using read_proxy_header_serves [OF assms(1,2), of peer "[]" rest "[]"] assms(3)
  by (auto simp: effective_addr_def bytes_read_def io_simps)

lemma serve_connection_justified:
  assumes addr: "effective_addr host proxy_protocol peer_addr h = (Inr addr, h')"
  shows "case serve_connection X H host clock reg ctx proxy_protocol (Some req) peer_addr (es, h) of
      (r, es', h'') \<Rightarrow> \<exists>k. h'' = h @ k \<and> r \<noteq> None \<and> justified http_sends (http_granted X H ctx req) reg addr h k"
proof -
  have "only (effective_addr host proxy_protocol peer_addr) {ReadExact 1}"
    by (intro only_intros) simp
  from onlyD [OF this addr] obtain k1 where h': "h' = h @ k1" and k1: "fst ` set k1 \<subseteq> {ReadExact 1}" .
  obtain r es' k2 where run: "handle_request X H host clock reg ctx req addr (es, h') = (r, es', h' @ k2)"
    and k2: "justified http_sends (http_granted X H ctx req) reg addr h' k2"
    by (rule lawfulD [OF lawful_handle_request])
  have "justified http_sends (http_granted X H ctx req) reg addr h k1"
    using k1 by (intro justified_quiet) auto
  then have "justified http_sends (http_granted X H ctx req) reg addr h (k1 @ k2)"
    using k2 h' by (intro justified_append stable_http_granted) simp_all
  then show ?thesis
    using addr run h' by (simp add: serve_connection_def io_simps)
qed

subsection \<open>The server's keys\<close>

text \<open>C8: When a server-managed key is injected, the upstream request carries exactly one value for
  the provider's authentication header, the server's: no copy the guest sent, in whatever case,
  survives. All other headers of the guest are passed on unchanged and in order.\<close>

theorem injected_key_replaces_guest_key:
  assumes "build_upstream H (Some d) url req body = Inr rq"
    and "det_inject_header d = Some (name, v)" and "det_strip_header d = Some name"
  shows "filter (\<lambda>(k, _). eq_ignore_ascii_case k name) (up_headers rq) = [(name, bytes_of v)] \<and>
    filter (\<lambda>(k, _). \<not> eq_ignore_ascii_case k name) (up_headers rq) =
      filter (\<lambda>(k, _). \<not> eq_ignore_ascii_case k name) (hr_headers req)"
proof -
  have "up_headers rq = filter (\<lambda>(k, _). to_ascii_lowercase k \<noteq> to_ascii_lowercase name) (hr_headers req) @ [(name, bytes_of v)]"
    using assms by (auto simp: build_upstream_def upstream_headers_def split: sum.splits if_splits)
  then show ?thesis
    by (auto simp: eq_ignore_ascii_case_def filter_empty_conv intro!: filter_cong)
qed

definition sample_http :: http_lib where
  "sample_http = \<lparr>header_to_str = (\<lambda>b. Some (string_of b)), uri_parse = Inr, header_valid = (\<lambda>_. True), hm_iter = (\<lambda>_. [])\<rparr>"

theorem injected_key_replaces_guest_key_witness:
  "filter (\<lambda>(k, _). eq_ignore_ascii_case k ''x-api-key'')
     (up_headers \<lparr>up_method = ''POST'', up_uri = ''u'', up_headers = [(''a'', [1]), (''x-api-key'', bytes_of ''sk'')], up_body = []\<rparr>) =
   [(''x-api-key'', bytes_of ''sk'')]"
  using injected_key_replaces_guest_key [of sample_http
      "\<lparr>det_provider = ''anthropic'', det_endpoint = ''messages'', det_strip_header = Some ''x-api-key'',
        det_inject_header = Some (''x-api-key'', ''sk'')\<rparr>" "''u''"
      "\<lparr>hr_method = ''POST'', hr_path_and_query = None, hr_headers = [(''a'', [1]), (''x-api-key'', [2])]\<rparr>" "[]"
      "\<lparr>up_method = ''POST'', up_uri = ''u'', up_headers = [(''a'', [1]), (''x-api-key'', bytes_of ''sk'')], up_body = []\<rparr>"
      "''x-api-key''" "''sk''"]
  by (simp add: build_upstream_def upstream_headers_def sample_http_def to_ascii_lowercase_def ascii_lower_def)

subsection \<open>Where the keys go\<close>

text \<open>
  The host of an absolute URL as RFC 3986 reads it (section 3.2): the authority is between \<^verbatim>\<open>://\<close> and
  the next slash, question mark or number sign; in it, what comes before an at sign is user
  information, and a host that is no literal in brackets ends at a colon.
\<close>

fun after_scheme :: "string \<Rightarrow> string" where
  "after_scheme [] = []"
| "after_scheme (c # s) = (if starts_with ''://'' (c # s) then drop 2 s else after_scheme s)"

definition url_authority :: "string \<Rightarrow> string" where
  "url_authority url = takeWhile (\<lambda>c. c \<notin> set ''/?#'') (after_scheme url)"

definition url_host :: "string \<Rightarrow> string" where
  "url_host url =
     (let host_port = rev (takeWhile (\<lambda>c. c \<noteq> CHR ''@'') (rev (url_authority url)))
      in if starts_with ''['' host_port then takeWhile (\<lambda>c. c \<noteq> CHR '']'') host_port @ '']''
         else takeWhile (\<lambda>c. c \<noteq> CHR '':'') host_port)"

lemma after_scheme_request [simp]:
  "after_scheme (request_url H ctx req) = request_host H req @ request_path req"
  by (simp add: request_url_def starts_with_def)

lemma takeWhile_shorter:
  "\<forall>c \<in> set (takeWhile P xs). Q c \<Longrightarrow> takeWhile P (takeWhile Q xs) = takeWhile P xs"
  by (induction xs) auto

lemma takeWhile_stop: "\<not> Q x \<Longrightarrow> takeWhile Q (xs @ x # ys) = takeWhile Q xs"
  by (induction xs) auto

lemma takeWhile_all: "x \<notin> set xs \<Longrightarrow> takeWhile (\<lambda>c. c \<noteq> x) (rev xs) = rev xs"
  by (auto simp: takeWhile_eq_all_conv)

lemma host_bare_takeWhile: "host_bare host = takeWhile (\<lambda>c. c \<noteq> CHR '':'') host"
  by (simp add: host_bare_def split_char_hd)

text \<open>The name of a provider's host has none of the characters that end a host in a URL.\<close>

lemma provider_host_chars:
  assumes "p \<in> set PROVIDERS" "eq_ignore_ascii_case h (pr_host p)" "c \<in> set h"
  shows "c \<notin> set ''/?#[''"
proof -
  have "ascii_lower c \<in> set (to_ascii_lowercase (pr_host p))"
    using assms(2,3) unfolding eq_ignore_ascii_case_def to_ascii_lowercase_def by (metis imageI set_map)
  moreover have "set (to_ascii_lowercase (pr_host p)) \<subseteq> set ''api.nthroc.openai.com''"
    using assms(1) by (auto simp: PROVIDERS_def to_ascii_lowercase_def ascii_lower_def)
  ultimately show ?thesis
    by (auto simp: ascii_lower_def)
qed

lemma url_host_of_provider:
  assumes "p \<in> set PROVIDERS" "eq_ignore_ascii_case (host_bare (request_host H req)) (pr_host p)"
    and "starts_with ''/'' (request_path req)" "CHR ''@'' \<notin> set (url_authority (request_url H ctx req))"
  shows "url_host (request_url H ctx req) = host_bare (request_host H req)"
proof -
  let ?h = "request_host H req"
  have chars: "\<forall>c \<in> set (takeWhile (\<lambda>c. c \<noteq> CHR '':'') ?h). c \<notin> set ''/?#['' "
    using provider_host_chars [OF assms(1,2)] unfolding host_bare_takeWhile by blast
  obtain q where q: "request_path req = CHR ''/'' # q"
    using assms(3) by (cases "request_path req") (auto simp: starts_with_def)
  have authority: "url_authority (request_url H ctx req) = takeWhile (\<lambda>c. c \<notin> set ''/?#'') ?h"
    unfolding url_authority_def after_scheme_request q by (rule takeWhile_stop) simp
  have "\<not> starts_with ''['' (url_authority (request_url H ctx req))"
    unfolding authority
  proof (cases ?h)
    case (Cons a t)
    have "a \<noteq> CHR ''[''"
      using bspec [OF chars, of a] Cons by (cases "a = CHR '':''") simp_all
    then show "\<not> starts_with ''['' (takeWhile (\<lambda>c. c \<notin> set ''/?#'') ?h)"
      by (simp add: Cons starts_with_def)
  qed (simp add: starts_with_def)
  then have "url_host (request_url H ctx req) = takeWhile (\<lambda>c. c \<noteq> CHR '':'') (takeWhile (\<lambda>c. c \<notin> set ''/?#'') ?h)"
    unfolding url_host_def Let_def takeWhile_all [OF assms(4)] rev_rev_ident by (simp only: authority if_False)
  also have "\<dots> = host_bare ?h"
    unfolding host_bare_takeWhile by (rule takeWhile_shorter) (use chars in simp)
  finally show ?thesis .
qed

text \<open>C14: The only header the proxy adds to a guest's request is the key of a provider, in that
  provider's authentication header, and only when the Host header up to the first colon is the
  name of the provider's host. The URL the request goes to then has the provider's host, if its
  authority has no user information (an at sign, as in the Host header
  \<^verbatim>\<open>api.anthropic.com:x@evil.example\<close>, moves the request elsewhere) and the path starts with a slash.\<close>

theorem injected_key_destination:
  assumes "upstream_of H ctx req body = Inr rq"
    and "(name, w) \<in> set (up_headers rq)" and "(name, w) \<notin> set (hr_headers req)"
  shows "\<exists>p \<in> set PROVIDERS. \<exists>key. px_llm_keys ctx (pr_name p) = Some key \<and>
    name = pr_auth_header p \<and> w = bytes_of (if pr_bearer_format p then ''Bearer '' @ key else key) \<and>
    eq_ignore_ascii_case (takeWhile (\<lambda>c. c \<noteq> CHR '':'') (request_host H req)) (pr_host p) \<and>
    uri_parse H (request_url H ctx req) = Inr (up_uri rq) \<and>
    (starts_with ''/'' (request_path req) \<and> CHR ''@'' \<notin> set (url_authority (request_url H ctx req)) \<longrightarrow>
       eq_ignore_ascii_case (url_host (request_url H ctx req)) (pr_host p))"
proof -
  let ?h = "request_host H req" and ?keys = "px_llm_keys ctx"
  obtain d v where d: "detect_llm_request ?h (request_path req) ?keys = Some d"
      "det_inject_header d = Some (name, v)" "w = bytes_of v" and uri: "uri_parse H (request_url H ctx req) = Inr (up_uri rq)"
    using assms by (auto simp: upstream_of_def build_upstream_def upstream_headers_def
        split: sum.splits if_splits option.splits bind_splits)
  obtain p where p: "List.find (\<lambda>p. eq_ignore_ascii_case (host_bare ?h) (pr_host p)) PROVIDERS = Some p"
      "d = detection_for p (request_path req) ?keys"
    using d(1) by (auto simp: detect_llm_request_def)
  have host: "p \<in> set PROVIDERS" "eq_ignore_ascii_case (host_bare ?h) (pr_host p)"
    using p(1) by (auto simp: find_Some_iff)
  obtain key where "?keys (pr_name p) = Some key"
    using d(2) p(2) by (auto simp: detection_for_def Let_def split: option.splits)
  with d p(2) uri host url_host_of_provider [OF host] show ?thesis
    by (intro bexI [of _ p] exI [of _ key])
      (auto simp: detection_for_def Let_def host_bare_takeWhile [symmetric] split: if_splits)
qed

definition keyed_ctx :: proxy_ctx where
  "keyed_ctx = \<lparr>px_body_store = \<lparr>bs_storage_dir = ''b'', bs_inline_threshold = 1\<rparr>, px_auth = Disabled,
     px_llm_keys = [''openai'' \<mapsto> ''sk-1'', ''anthropic'' \<mapsto> ''sk-2''], px_use_tls_upstream = True\<rparr>"

definition host_request :: "string \<Rightarrow> http_request" where
  "host_request h = \<lparr>hr_method = ''GET'', hr_path_and_query = Some ''/v1'', hr_headers = [(''host'', bytes_of h)]\<rparr>"

lemmas keyed_simps = keyed_ctx_def host_request_def upstream_of_def build_upstream_def upstream_headers_def
  sample_http_def request_host_def request_path_def detect_llm_request_def PROVIDERS_def host_bare_def
  detection_for_def endpoint_name_def eq_ignore_ascii_case_def to_ascii_lowercase_def ascii_lower_def

text \<open>A request with a port, whose host is the provider's.\<close>

theorem injected_key_destination_witness:
  "\<exists>p \<in> set PROVIDERS. pr_auth_header p = ''authorization'' \<and>
     eq_ignore_ascii_case (url_host (request_url sample_http keyed_ctx (host_request ''api.openai.com:443''))) (pr_host p)"
proof -
  let ?req = "host_request ''api.openai.com:443''"
  let ?rq = "\<lparr>up_method = ''GET'', up_uri = request_url sample_http keyed_ctx ?req,
    up_headers = [(''host'', bytes_of ''api.openai.com:443''), (''authorization'', bytes_of ''Bearer sk-1'')], up_body = []\<rparr>"
  have "upstream_of sample_http keyed_ctx ?req [] = Inr ?rq"
    by (simp add: keyed_simps)
  moreover have "starts_with ''/'' (request_path ?req)" "CHR ''@'' \<notin> set (url_authority (request_url sample_http keyed_ctx ?req))"
    by (simp_all add: url_authority_def request_host_def request_path_def host_request_def sample_http_def starts_with_def)
  moreover have "(''authorization'', bytes_of ''Bearer sk-1'') \<notin> set (hr_headers ?req)"
    by (simp add: host_request_def)
  ultimately show ?thesis
    using injected_key_destination [of sample_http keyed_ctx ?req "[]" ?rq "''authorization''" "bytes_of ''Bearer sk-1''"]
    by auto
qed

text \<open>With user information in the Host header, the key goes to another host.\<close>

theorem key_sent_despite_user_info:
  "\<exists>rq. upstream_of sample_http keyed_ctx (host_request ''api.anthropic.com:x@evil.example'') [] = Inr rq \<and>
     (''x-api-key'', bytes_of ''sk-2'') \<in> set (up_headers rq) \<and> url_host (up_uri rq) = ''evil.example''"
proof -
  have "url_host (request_url sample_http keyed_ctx (host_request ''api.anthropic.com:x@evil.example'')) = ''evil.example''"
    by (simp add: url_host_def url_authority_def request_host_def request_path_def host_request_def sample_http_def starts_with_def)
  then show ?thesis
    by (simp add: keyed_simps)
qed

end
