(* ===== verification/LlmProps.thy ===== *)
theory LlmProps
  imports Llm
begin

text \<open>
  Properties of the LLM module: the event-stream parser reads what an event stream prints, and
  what the reassembled response of a stream contains.
\<close>

subsection \<open>White space in printable text\<close>

definition plain :: "char \<Rightarrow> bool" where
  "plain c \<longleftrightarrow> graphic c \<or> c = CHR '' '' \<or> c = CHR 0x0A"

lemma graphic_not_ws [simp]: "\<not> graphic (CHR '' '')" "\<not> graphic (CHR 0x0A)" "\<not> graphic (CHR 0x0D)"
  by (simp_all add: graphic_def)

lemma all_ws_plain: "\<forall>c \<in> set s. plain c \<Longrightarrow> all_ws s \<longleftrightarrow> (\<forall>c \<in> set s. \<not> graphic c)"
proof (induction s)
  case Nil
  then show ?case
    by (simp add: all_ws.simps)
next
  case (Cons c s)
  show ?case
  proof (cases "graphic c")
    case True
    then show ?thesis
      by (subst all_ws.simps) simp
  next
    case False
    then have "ws_len (c # s) = 1"
      using Cons.prems by (auto simp: plain_def)
    then have "all_ws (c # s) = all_ws s"
      by (subst all_ws.simps) simp
    then show ?thesis
      using Cons False by simp
  qed
qed

lemma trim_end_plain:
  assumes "\<forall>c \<in> set s. plain c" and "s \<noteq> []" and "graphic (last s)"
  shows "trim_end s = s"
  using assms
proof (induction s)
  case (Cons c s)
  have "\<not> all_ws (c # s)"
    using Cons.prems all_ws_plain [of "c # s"] last_in_set [of "c # s"] by blast
  then show ?case
    using Cons by (cases "s = []") auto
qed simp

definition clean :: "string \<Rightarrow> bool" where
  "clean s \<longleftrightarrow> s \<noteq> [] \<and> graphic (hd s) \<and> graphic (last s) \<and> (\<forall>c \<in> set s. plain c)"

lemma trim_clean:
  assumes "clean s"
  shows "trim s = s"
proof -
  have "trim_start s = s"
    using assms by (cases s) (simp_all add: clean_def trim_start.simps)
  then show ?thesis
    using assms trim_end_plain by (simp add: trim_def clean_def)
qed

lemma trim_space_clean:
  assumes "clean s"
  shows "trim (CHR '' '' # s) = s"
proof -
  have "trim_start (CHR '' '' # s) = trim_start s"
    by (subst trim_start.simps) simp
  then show ?thesis
    using trim_clean [OF assms] by (simp add: trim_def)
qed

subsection \<open>Frames\<close>

lemma split_char_none: "sep \<notin> set x \<Longrightarrow> split_char sep x = [x]"
  by (induction x) auto

lemma split_char_sep: "sep \<notin> set x \<Longrightarrow> split_char sep (x @ sep # y) = x # split_char sep y"
  by (induction x) auto

lemma split_str_frame:
  assumes "\<forall>i < length x. \<not> starts_with sep (drop i (x @ sep @ y))" and "sep \<noteq> []"
  shows "split_str sep (x @ sep @ y) = x # split_str sep y"
  using assms(1)
proof (induction x)
  case Nil
  then show ?case
    using assms(2) by (subst split_str.simps) simp
next
  case (Cons c x)
  have "\<forall>i < length x. \<not> starts_with sep (drop i (x @ sep @ y))"
    using Cons.prems by fastforce
  moreover have "\<not> starts_with sep (c # x @ sep @ y)"
    using Cons.prems by (metis append_Cons drop0 length_Cons zero_less_Suc)
  ultimately show ?case
    using Cons.IH by (subst split_str.simps) simp
qed

text \<open>An event of printable one-line texts, and how an event stream prints it.\<close>

definition one_line :: "string \<Rightarrow> bool" where
  "one_line s \<longleftrightarrow> clean s \<and> CHR 0x0A \<notin> set s"

definition sse_ok :: "sse_event \<Rightarrow> bool" where
  "sse_ok e \<longleftrightarrow> (\<exists>t. sse_event_type e = Some t \<and> one_line t) \<and> one_line (sse_data e) \<and> sse_data e \<noteq> ''[DONE]''"

definition frame_text :: "sse_event \<Rightarrow> string" where
  "frame_text e = ''event: '' @ the (sse_event_type e) @ [CHR 0x0A] @ ''data: '' @ sse_data e"

definition stream_text :: "sse_event list \<Rightarrow> string" where
  "stream_text es = concat (map (\<lambda>e. frame_text e @ [CHR 0x0A, CHR 0x0A]) es)"

lemma clean_frame: "sse_ok e \<Longrightarrow> clean (frame_text e)"
  by (auto simp: sse_ok_def one_line_def frame_text_def clean_def plain_def graphic_def)

lemma lines_frame:
  assumes "sse_ok e"
  shows "text_lines (frame_text e) = [''event: '' @ the (sse_event_type e), ''data: '' @ sse_data e]"
proof -
  let ?a = "''event: '' @ the (sse_event_type e)" and ?b = "''data: '' @ sse_data e"
  have "CHR 0x0A \<notin> set ?a" "CHR 0x0A \<notin> set ?b"
    using assms by (auto simp: sse_ok_def one_line_def)
  then have "split_char CHR 0x0A (frame_text e) = [?a, ?b]"
    using split_char_sep [of "CHR 0x0A" ?a ?b] split_char_none [of "CHR 0x0A" ?b] by (simp add: frame_text_def)
  moreover have "last ?a \<noteq> CHR 0x0D"
    using assms by (auto simp: sse_ok_def one_line_def clean_def dest: sym [of "CHR 0x0D"])
  ultimately show ?thesis
    by (simp add: text_lines_def chomp_cr_def)
qed

lemma sse_frame_print: "sse_ok e \<Longrightarrow> sse_frame (frame_text e) = Some e"
proof -
  assume ok: "sse_ok e"
  then obtain t where t: "sse_event_type e = Some t" "clean t" "clean (sse_data e)" "sse_data e \<noteq> ''[DONE]''"
    by (auto simp: sse_ok_def one_line_def)
  have "frame_text e \<noteq> []"
    by (simp add: frame_text_def)
  then show ?thesis
    using t trim_clean [OF clean_frame [OF ok]] lines_frame [OF ok] trim_space_clean
    by (simp add: sse_frame_def Let_def sse_line_def strip_prefix_def starts_with_def)
qed

lemma frame_no_break:
  assumes "sse_ok e" and "i < length (frame_text e)"
  shows "\<not> starts_with [CHR 0x0A, CHR 0x0A] (drop i (frame_text e @ [CHR 0x0A, CHR 0x0A] @ y))"
proof -
  define a where "a = ''event: '' @ the (sse_event_type e)"
  define b where "b = ''data: '' @ sse_data e"
  have lf: "CHR 0x0A \<notin> set a" "CHR 0x0A \<notin> set b" and x: "frame_text e = a @ [CHR 0x0A] @ b" and b: "hd b = CHR ''d''" "b \<noteq> []"
    using assms(1) by (auto simp: a_def b_def sse_ok_def one_line_def frame_text_def)
  consider "i < length a" | "i = length a" | "length a < i"
    by linarith
  then show ?thesis
  proof cases
    case 1
    then have "hd (drop i (frame_text e @ [CHR 0x0A, CHR 0x0A] @ y)) = a ! i"
      by (simp add: x hd_drop_conv_nth nth_append)
    then show ?thesis
      using 1 lf(1) by (auto simp: starts_with_iff)
  next
    case 2
    then have "drop i (frame_text e @ [CHR 0x0A, CHR 0x0A] @ y) = CHR 0x0A # b @ [CHR 0x0A, CHR 0x0A] @ y"
      by (simp add: x)
    then show ?thesis
      using b by (cases b) (auto simp: starts_with_def)
  next
    case 3
    then have "i - Suc (length a) < length b"
      using assms(2) x by simp
    moreover have "hd (drop i (frame_text e @ [CHR 0x0A, CHR 0x0A] @ y)) = b ! (i - Suc (length a))"
      using 3 assms(2) calculation by (simp add: x hd_drop_conv_nth nth_append)
    ultimately show ?thesis
      using lf(2) by (auto simp: starts_with_iff)
  qed
qed

lemma split_stream:
  "\<forall>e \<in> set es. sse_ok e \<Longrightarrow> split_str [CHR 0x0A, CHR 0x0A] (stream_text es) = map frame_text es @ [[]]"
proof (induction es)
  case Nil
  then show ?case
    by (subst split_str.simps) (simp add: stream_text_def)
next
  case (Cons e es)
  then show ?case
    using split_str_frame [of "frame_text e" "[CHR 0x0A, CHR 0x0A]" "stream_text es"] frame_no_break [of e]
    by (simp add: stream_text_def)
qed

lemma stream_ascii:
  assumes "\<forall>e \<in> set es. sse_ok e"
  shows "from_utf8_lossy (bytes_of (stream_text es)) = stream_text es"
proof (rule from_utf8_lossy_ascii, rule ballI)
  fix c
  assume "c \<in> set (stream_text es)"
  then have "plain c"
    using clean_frame assms by (auto simp: stream_text_def clean_def plain_def split: if_splits)
  then show "(of_char c :: nat) < 0x80"
    by (auto simp: plain_def graphic_def)
qed

text \<open>C35: Round trip: an event stream that prints a list of events with printable one-line types
  and data parses back to exactly that list.\<close>

theorem parse_sse_roundtrip:
  assumes "\<forall>e \<in> set es. sse_ok e"
  shows "parse_sse (bytes_of (stream_text es)) = es"
proof -
  have "sse_frame [] = None"
    by (simp add: sse_frame_def trim_def trim_start.simps)
  moreover have "List.map_filter sse_frame (map frame_text es @ [[]]) = es" if "sse_frame [] = None"
    using assms that by (induction es) (simp_all add: map_filter_simps sse_frame_print)
  ultimately show ?thesis
    by (simp add: parse_sse_def stream_ascii [OF assms] split_stream [OF assms])
qed

theorem parse_sse_roundtrip_witness:
  "parse_sse (bytes_of (stream_text
     [\<lparr>sse_event_type = Some ''message_start'', sse_data = ''{}''\<rparr>, \<lparr>sse_event_type = Some ''ping'', sse_data = ''[1, 2]''\<rparr>])) =
   [\<lparr>sse_event_type = Some ''message_start'', sse_data = ''{}''\<rparr>, \<lparr>sse_event_type = Some ''ping'', sse_data = ''[1, 2]''\<rparr>]"
  by (rule parse_sse_roundtrip) (simp add: sse_ok_def one_line_def clean_def plain_def graphic_def)

subsection \<open>What a reassembled stream contains\<close>

definition last_opt :: "'a list \<Rightarrow> 'a option" where
  "last_opt xs = (if xs = [] then None else Some (last xs))"

text \<open>The parsed data of the events of one type, in order.\<close>

definition events_named :: "libs \<Rightarrow> string \<Rightarrow> sse_event list \<Rightarrow> json list" where
  "events_named X n es =
     List.map_filter (\<lambda>e. if sse_event_type e = Some n then event_json X e else None) es"

definition text_delta :: "json \<Rightarrow> string option" where
  "text_delta v = Option.bind (json_get ''delta'' v)
     (\<lambda>d. if get_str ''type'' d = Some ''text_delta'' then get_str ''text'' d else None)"

definition anthropic_spec :: "libs \<Rightarrow> sse_event list \<Rightarrow> anthropic_state" where
  "anthropic_spec X es =
     (let msg = last_opt (List.map_filter (json_get ''message'') (events_named X ''message_start'' es));
          deltas = events_named X ''message_delta'' es
      in \<lparr>an_id = unwrap_or JNull (Option.bind msg (json_get ''id'')),
          an_model = Option.bind msg (get_str ''model''),
          an_input_tokens = Option.bind msg (get_u64_at ''usage'' ''input_tokens''),
          an_output_tokens = Option.bind (last_opt deltas) (get_u64_at ''usage'' ''output_tokens''),
          an_stop_reason = unwrap_or JNull (last_opt (List.map_filter
            (\<lambda>v. Option.bind (json_get ''delta'' v) (json_get ''stop_reason'')) deltas)),
          an_content_text = concat (List.map_filter text_delta (events_named X ''content_block_delta'' es))\<rparr>)"

lemma map_filter_append [simp]: "List.map_filter f (xs @ ys) = List.map_filter f xs @ List.map_filter f ys"
  by (simp add: map_filter_def)

lemma last_opt_snoc [simp]: "last_opt (xs @ [x]) = Some x" "last_opt [] = None"
  by (simp_all add: last_opt_def)

lemma events_named_snoc:
  "events_named X n (es @ [e]) =
     events_named X n es @ (case if sse_event_type e = Some n then event_json X e else None of None \<Rightarrow> [] | Some v \<Rightarrow> [v])"
  by (simp add: events_named_def map_filter_simps split: option.splits)

lemma anthropic_fold: "foldl (anthropic_event X) anthropic_init es = anthropic_spec X es"
proof (induction es rule: rev_induct)
  case Nil
  then show ?case
    by (simp add: anthropic_init_def anthropic_spec_def events_named_def map_filter_simps)
next
  case (snoc e es)
  have "anthropic_event X (anthropic_spec X es) e = anthropic_spec X (es @ [e])"
    by (cases "sse_event_type e"; cases "event_json X e")
      (auto simp: anthropic_event_def anthropic_start_def anthropic_block_delta_def anthropic_message_delta_def
        anthropic_spec_def events_named_snoc map_filter_simps text_delta_def Let_def split: option.splits)
  with snoc show ?case
    by simp
qed

text \<open>C36: The loop over a streamed Anthropic response computes what the stream says: the text is
  the concatenation of all text deltas in order; id, model and input tokens are those of the last
  start message, the output tokens those of the last message delta, the stop reason the last one
  given. Events that do not parse or have another type change nothing.\<close>

theorem reassemble_anthropic_spec:
  "reassemble_anthropic_messages X es = anthropic_result (anthropic_spec X es)"
  by (simp add: reassemble_anthropic_messages_def anthropic_fold)

definition openai_texts :: "libs \<Rightarrow> sse_event list \<Rightarrow> string list" where
  "openai_texts X es =
     concat (map (\<lambda>v. List.map_filter (\<lambda>c. Option.bind (json_get ''delta'' c) (get_str ''content''))
       (unwrap_or [] (Option.bind (json_get ''choices'' v) as_array))) (List.map_filter (event_json X) es))"

lemma openai_choice_content:
  "oa_content_text (foldl openai_choice s cs) = oa_content_text s @
     concat (List.map_filter (\<lambda>c. Option.bind (json_get ''delta'' c) (get_str ''content'')) cs) \<and>
   oa_model (foldl openai_choice s cs) = oa_model s \<and> oa_id (foldl openai_choice s cs) = oa_id s"
proof (induction cs arbitrary: s)
  case (Cons c cs)
  have "oa_content_text (openai_choice s c) = oa_content_text s @
        unwrap_or [] (Option.bind (json_get ''delta'' c) (get_str ''content'')) \<and>
      oa_model (openai_choice s c) = oa_model s \<and> oa_id (openai_choice s c) = oa_id s"
    by (simp add: openai_choice_def Let_def split: option.splits)
  with Cons show ?case
    by (simp add: map_filter_simps split: option.splits)
qed (simp add: map_filter_simps)

lemma openai_fold:
  "oa_content_text (foldl (openai_event X) openai_init es) = concat (openai_texts X es) \<and>
   oa_model (foldl (openai_event X) openai_init es) =
     last_opt (List.map_filter (get_str ''model'') (List.map_filter (event_json X) es))"
proof (induction es rule: rev_induct)
  case Nil
  then show ?case
    by (simp add: openai_init_def openai_texts_def map_filter_simps)
next
  case (snoc e es)
  then show ?case
    by (auto simp: openai_event_def openai_texts_def openai_choice_content map_filter_simps Let_def
        split: option.splits)
qed

text \<open>The loop over a streamed OpenAI chat response concatenates the content deltas of all
  choices of all parsed events in order, and reports the model named last.\<close>

theorem reassemble_openai_content:
  "\<exists>s. reassemble_openai_chat X es = openai_result s \<and> oa_content_text s = concat (openai_texts X es) \<and>
     oa_model s = last_opt (List.map_filter (get_str ''model'') (List.map_filter (event_json X) es))"
  using openai_fold by (metis reassemble_openai_chat_def)

end
