(* ===== verification/Spec2Isabelle.thy ===== *)
theory Spec2Isabelle
  imports ServerProgram HttpProps LlmProps
begin

text \<open>
  Clawpot runs coding agents in Firecracker microVMs. This library models the server
  (\<^verbatim>\<open>src/clawpot-server\<close>), the code it shares with the others (\<^verbatim>\<open>src/clawpot-common\<close>), the agent inside
  the guest (\<^verbatim>\<open>src/clawpot-agent\<close>) and the command line (\<^verbatim>\<open>src/clawpot-cli\<close>), and proves that they keep
  what they promise. This theory imports all others and holds the theorem that spans the proxies.

  \<^bold>\<open>The program.\<close> The server's control API (gRPC) creates and deletes VMs and runs commands in them.
  A VM gets an address from a pool, a TAP device on a bridge, packet-filter rules that allow it
  nothing but the three proxies of the server, and an entry in the registry. The proxies (DNS,
  HTTP, and TLS, which decrypts and hands over to HTTP) find the VM by its address, ask an
  authorization service, forward what is allowed, put the server's keys into requests to language
  model providers and log everything to a database, which the command line can display.

  \<^bold>\<open>How code becomes definitions.\<close> A struct is a record and an enum a datatype with the names of the
  source. A \<^verbatim>\<open>String\<close> is the list of its UTF-8 bytes, machine integers are words where their width
  matters. A \<^verbatim>\<open>Result\<close> is a sum (\<open>Inl\<close> the error, with its chain of contexts), and code that can panic
  returns an \<open>outcome\<close>. An operation with effects (theory \<open>Interaction\<close>) threads the history of its
  calls to the outside: every call is a constructor (\<open>sys_call\<close> in \<open>HostCalls\<close>, \<open>net_call\<close> in \<open>ProxyCalls\<close>)
  and is answered by a \<open>host\<close>, an arbitrary function of the history. Theorems hold for every host,
  so for every behaviour of kernel, network, Firecracker, agent and authorization service, unless
  a hypothesis (\<open>ipt_faithful\<close>, \<open>fs_faithful\<close>, \<open>served\<close>) says what is relied on; each has a witness.
  Third-party functions without effects are the records \<open>libs\<close>, \<open>http_lib\<close>, \<open>rcgen\<close>, \<open>rustls\<close>.

  \<^bold>\<open>Foundations.\<close> \<open>Prelude\<close>: integers, bytes, errors, panics. \<open>RustText\<close>, \<open>Utf8\<close>, \<open>NetAddr\<close>, \<open>Json\<close>: the
  parts of the standard library the sources use, among them decimal printing and parsing, splitting,
  UTF-8 validation and lossy conversion, the text form of addresses. \<open>Interaction\<close>: the calculus of
  traces (what an operation adds to the history). \<open>Tasks\<close>: asynchronous handlers as programs of atomic
  steps, pools of tasks that interleave and can be dropped, and two proof rules for pools: the locale
  \<open>ownership\<close> for resources that tasks own (interpreted in \<open>ServerConcurrency\<close>) and the locale \<open>guarantee\<close>
  for what every step of every task keeps to (interpreted in \<open>ServerProgram\<close>).

  \<^bold>\<open>Control plane.\<close> \<open>IpAllocator\<close> (\<^verbatim>\<open>network/ip_allocator.rs\<close>; the contract of a pool is the locale
  \<open>address_pool\<close>), \<open>FirecrackerApi\<close> (\<^verbatim>\<open>firecracker/\<close>), \<open>VmLifecycle\<close> and \<open>VmManager\<close> (\<^verbatim>\<open>vm/\<close> of the common
  crate), \<open>VmRegistry\<close> (\<^verbatim>\<open>vm/registry.rs\<close>; locale \<open>vm_directory\<close>), \<open>NetworkRules\<close> and \<open>NetworkDevices\<close>
  (\<^verbatim>\<open>network/\<close>), \<open>AgentClient\<close> (\<^verbatim>\<open>agent/client.rs\<close>), \<open>GrpcService\<close> (\<^verbatim>\<open>grpc/service.rs\<close>), \<open>ServerMain\<close>
  (shutdown), \<open>StartUp\<close> (start-up in \<^verbatim>\<open>main.rs\<close>, with what proxies and writer do beside it) and
  \<open>ServerProgram\<close> (\<^verbatim>\<open>telemetry.rs\<close>, and \<^verbatim>\<open>main\<close>: \<open>system_step\<close> interleaves requests, connections of the
  proxies, shutdown, background writer and the last steps of \<^verbatim>\<open>main\<close>, \<open>server_run\<close> has its runs). The
  theorems: a start boots exactly when Firecracker accepted the whole sequence, a stop releases the process, the rules of bridge and TAP
  devices are in force when the operations report success, allocation and release do what a pool
  promises, waiting is bounded. \<open>ServerConcurrency\<close> shows by the \<open>ownership\<close> rule that under every
  interleaving and cancellation of requests and shutdowns no two registered VMs share an address.
  \<open>ServiceProps\<close> has what a request does when it runs alone: creating is all or nothing, deleting
  undoes it, and a command from the command line gives what the command gives in the guest.
  \<open>Shutdown\<close> has what the shutdown does when no request runs beside it: the registry is empty, the
  addresses are free, the processes are killed. \<open>ServerProgram\<close> shows by the \<open>guarantee\<close> rule that
  the server serves only behind filter and proxies and that no request takes the filter away before
  a shutdown begins, and, by simulation in the log of \<open>EventStore\<close>, what a run of the whole program
  leaves in the database: a session from its first event to its last if the writer answers in time.

  \<^bold>\<open>Events.\<close> \<open>EventStore\<close> (\<^verbatim>\<open>events/\<close>): emitting with its macros, the background writer as a state
  machine, queries, whose connection may fail at any row. The stored events are a subsequence of the events sent in every interleaving, a close request
  flushes in a bounded number of steps, and a query returns the fields of the records a batch stored.

  \<^bold>\<open>Proxies.\<close> \<open>ProxyCalls\<close> (calls, \<^verbatim>\<open>auth_client.rs\<close>), \<open>Gateway\<close> (the contract DNS and HTTP share: locales
  \<open>gateway\<close> and \<open>sending_gateway\<close>, interpreted in \<open>DnsProxy\<close> and \<open>HttpProps\<close>), \<open>DnsMessage\<close> and \<open>DnsProxy\<close>
  (\<^verbatim>\<open>dns_proxy.rs\<close>), \<open>ProxyProtocol\<close>, \<open>Ca\<close>, \<open>TlsSni\<close> and \<open>TlsMitm\<close> (\<^verbatim>\<open>proxy_protocol.rs\<close>, \<^verbatim>\<open>ca.rs\<close>,
  \<^verbatim>\<open>tls_mitm.rs\<close>), \<open>Llm\<close> and \<open>LlmProps\<close> (\<^verbatim>\<open>llm.rs\<close>), \<open>HttpProxy\<close> and \<open>HttpProps\<close> (\<^verbatim>\<open>body_store.rs\<close>,
  \<^verbatim>\<open>http_proxy.rs\<close>). The theorems: the proxies fail closed (nothing goes upstream that was not granted
  before to the VM with the peer's address), a guest behind the TLS proxy is attributed by its own
  address, a key of the server is added only to a request whose Host header names its provider, and
  goes there unless that header carries user information; it replaces the guest's; parsers of guest input terminate and
  do not panic or panic exactly where stated, encodings survive a round trip, the loops over
  streamed responses compute what the stream says.

  \<^bold>\<open>Agent and command line.\<close> \<open>AgentExec\<close> (\<^verbatim>\<open>src/clawpot-agent\<close>): the tasks of a streamed run interleave;
  output arrives in order and the exit code last. \<open>CliLogs\<close> and \<open>CliCommands\<close> (\<^verbatim>\<open>src/clawpot-cli\<close>): the
  viewer's queries equal the server's, and what the timeline prints.

  \<^bold>\<open>Bounds.\<close> Loops that end are recursive functions with a termination proof: the searches of the
  allocator (253 addresses), the polls for the API socket (50) and for the agent (by the clock, at
  most 61 attempts), the PROXY header (257 bytes). The connection loop of DNS over TCP runs as
  long as the guest sends; its argument \<open>turns\<close> is the number of turns observed and \<open>None\<close> means that it
  still runs, so the theorem about it holds for runs of every length. Listeners and the writer are
  driven by lists or relations of wake-ups, with no bound.

  \<^bold>\<open>Not modelled.\<close> What the tracing and OpenTelemetry libraries print and export has no effect on
  behaviour; of \<^verbatim>\<open>telemetry.rs\<close> the configuration, the failure and the panic are modelled. The messages
  of the interface files are records where handlers use them; the code generated from them, the
  argument parser (clap), the HTTP, TLS and gRPC libraries and SQLite are third-party: their calls are
  outside calls or arguments. The gRPC library may return at any moment of a run, so nothing is said
  about requests in flight when it does. Left out are the timestamp of an authorization
  request, the text of the SQL schema and pragmas (whether SQLite accepts them is an argument of
  start-up) and the WAL checkpoint on shutdown. The scripts of \<^verbatim>\<open>ci\<close>, \<^verbatim>\<open>scripts\<close> and \<^verbatim>\<open>utils\<close> provision machines
  and are no part of the running system.
\<close>

section \<open>From the guest's TLS connection to the upstream request\<close>

text \<open>C3: End to end over two proxies: when the TLS proxy copies the connection of a guest to the
  HTTP proxy, and the HTTP proxy reads what the TLS proxy wrote, then every request that goes
  upstream for this connection was granted before (authorization is off, or the service allowed
  exactly this request) to a VM that had the guest's address, not that of the TLS proxy.\<close>

theorem https_attributed_to_guest:
  assumes "sa_ip guest = V4 a"
    and "handle_connection R T host draw guest (ca, h) = (r, ca', h @ k1 @ (CopyStreams, x) # k2)"
    and "\<forall>g n. peer g (ReadExact n) = served (written k1 @ sent) g n"
  shows "case serve_connection X H peer clock reg ctx True (Some req) tls_proxy (es, []) of
    (response, es', k) \<Rightarrow> response \<noteq> None \<and> justified http_sends (http_granted X H ctx req) reg guest [] k"
proof -
  have "mitm_trace guest (k1 @ (CopyStreams, x) # k2)"
    using straces_handle_connection assms(2) by (rule stracesD) simp
  then have "written k1 = bytes_of (proxy_line guest MITM_LISTEN_ADDR)"
    unfolding mitm_trace_def only_after_def by blast
  then obtain g where "read_proxy_header peer [] = (Inr (V4 a), g)"
    using read_proxy_header_serves [OF assms(1), of MITM_LISTEN_ADDR 0 peer "[]" sent "[]"] assms(3)
    by (auto simp: MITM_LISTEN_ADDR_def bytes_read_def)
  then have "effective_addr peer True tls_proxy [] = (Inr \<lparr>sa_ip = V4 a, sa_port = sa_port tls_proxy\<rparr>, g)"
    by (simp add: effective_addr_def io_simps)
  from serve_connection_justified [OF this] show ?thesis
    using assms(1) by (auto simp: justified_def vm_at_def split: prod.splits)
qed

text \<open>A guest whose ClientHello names the server \<open>a\<close>, and a host on which every call succeeds.\<close>

definition sample_hello :: bytes where
  "sample_hello = wire_record [3, 1] (wire_hello (replicate 34 0) [] [] [] (wire_ext (0, sni_data ''a'')))"

definition sample_ca :: "(string, string) certificate_authority" where
  "sample_ca = \<lparr>ca_cert = ''C'', ca_key = ''K'', ca_cert_pem = ''C'', ca_cache = Map.empty, ca_dir = ''ca''\<rparr>"

definition sample_draw :: "string \<Rightarrow> (string, string) cert_request" where
  "sample_draw d = \<lparr>cr_domain = d, cr_generated = Inr ''L'', cr_params = Inr (), cr_signed_by = (\<lambda>_ _ _ _. Inr ''M'')\<rparr>"

definition sample_rustls :: rustls where
  "sample_rustls = \<lparr>pem_certs = (\<lambda>p. Inr [p]), pem_private_key = (\<lambda>p. Inr (Some p)), with_single_cert = (\<lambda>_ _. Inr ())\<rparr>"

definition mitm_host :: net_host where
  "mitm_host h c = (case c of PeekStream _ \<Rightarrow> NBytes sample_hello | _ \<Rightarrow> NDone)"

definition sample_guest :: socket_addr where
  "sample_guest = \<lparr>sa_ip = V4 7, sa_port = 1\<rparr>"

lemma sample_hello_sni: "extract_sni sample_hello = Ret (Some ''a'')"
proof -
  let ?e = "wire_ext (0, sni_data ''a'')" and ?ch = "wire_hello (replicate 34 0) [] [] [] (wire_ext (0, sni_data ''a''))"
  let ?pre = "replicate 34 0 @ [0] @ u16_to_be_bytes 0 @ [0] @ u16_to_be_bytes (of_nat (length ?e))"
  have len: "length ?e = 10"
    by (simp add: wire_ext_def sni_data_def)
  have ch: "?ch = ?pre @ concat (map wire_ext []) @ ?e @ []"
    by (simp add: wire_hello_def)
  have "is_utf8 ''a''"
    by (simp add: is_utf8_def utf8_valid_ascii)
  then have "sni_walk ?ch (length ?pre) (length ?ch) = Ret (Some ''a'')"
    unfolding ch by (intro sni_walk_skip) simp_all
  then have "hello_sni ?ch = Ret (Some ''a'')"
    using hello_sni_wire [of "replicate 34 0" "[]" "[]" "[]" ?e] len by simp
  then show ?thesis
    using extract_sni_wire [of "[3, 1]" ?ch "[]"] len by (simp add: sample_hello_def ch del: append.assoc)
qed

lemma mitm_host_run:
  "handle_connection text_rcgen sample_rustls mitm_host sample_draw sample_guest (sample_ca, []) =
     (Ret (Inr ()), sample_ca\<lparr>ca_cache := [''a'' \<mapsto> \<lparr>cc_cert_pem = ''M'', cc_key_pem = ''L''\<rparr>]\<rparr>,
      [] @ [(PeekStream 4096, NBytes sample_hello), (TlsHandshake [''M'', ''C''] ''L'', NDone),
        (ConnectTcp HTTP_PROXY_TLS_ADDR, NDone),
        (WriteAll (bytes_of (proxy_line sample_guest MITM_LISTEN_ADDR)), NDone)] @ (CopyStreams, NDone) # [])"
  by (simp add: handle_connection_def peek_hello_def mitm_serve_def mitm_host_def sample_hello_sni
      get_or_create_cert_def issue_cert_def lib_ctx_def sample_draw_def sample_ca_def text_rcgen_def
      Let_def build_server_config_def sample_rustls_def write_proxy_header_def tell_def net_bytes_def net_unit_def to_anyhow_def
      io_simps)

definition sample_request :: http_request where
  "sample_request = \<lparr>hr_method = ''GET'', hr_path_and_query = Some ''/'', hr_headers = [(''host'', bytes_of ''a'')]\<rparr>"

definition sample_ctx :: proxy_ctx where
  "sample_ctx = \<lparr>px_body_store = \<lparr>bs_storage_dir = ''b'', bs_inline_threshold = 1\<rparr>, px_auth = Connected,
     px_llm_keys = Map.empty, px_use_tls_upstream = True\<rparr>"

definition https_peer :: net_host where
  "https_peer g c =
     (case c of
        ReadExact n \<Rightarrow> served (bytes_of (proxy_line sample_guest MITM_LISTEN_ADDR) @ bytes_of ''GET'') g n
      | _ \<Rightarrow> NDone)"

theorem https_attributed_to_guest_witness:
  "\<exists>response es' k.
     serve_connection sample_libs sample_http https_peer (\<lambda>_. ''t'') (\<lambda>_. ([], Map.empty)) sample_ctx True
       (Some sample_request) \<lparr>sa_ip = V4 9, sa_port = 2\<rparr> (EventStore_new ''s'' All, []) = (Some response, es', k) \<and>
     justified http_sends (http_granted sample_libs sample_http sample_ctx sample_request)
       (\<lambda>_. ([], Map.empty)) sample_guest [] k"
proof -
  have "case serve_connection sample_libs sample_http https_peer (\<lambda>_. ''t'') (\<lambda>_. ([], Map.empty)) sample_ctx True
      (Some sample_request) \<lparr>sa_ip = V4 9, sa_port = 2\<rparr> (EventStore_new ''s'' All, []) of
    (response, es', k) \<Rightarrow> response \<noteq> None \<and>
      justified http_sends (http_granted sample_libs sample_http sample_ctx sample_request)
        (\<lambda>_. ([], Map.empty)) sample_guest [] k"
    by (rule https_attributed_to_guest [OF _ mitm_host_run, where sent = "bytes_of ''GET''" and a = 7])
      (simp_all add: sample_guest_def https_peer_def written_def)
  then show ?thesis
    by (auto split: prod.splits)
qed

end
